(* ===== verification/Prelude.thy ===== *)
theory Prelude
  imports Main "HOL-Library.AList" "HOL-Library.Multiset"
begin

text \<open>
  Shared vocabulary of the development: how the Python values, errors, slices, strings and
  dictionaries used by the modelled scripts are represented, and the lemmas about them that
  several component theories need.

  \<^item> A raised exception is a value \<open>Inl e\<close> of the sum type \<open>'a result\<close>; a normal
    return is \<open>Inr v\<close>. \<open>res_bind\<close>, \<open>res_list\<close> and \<open>res_fold\<close> are the three ways the
    code continues after a call that may raise: sequence, a loop that collects, a loop that
    threads a state.
  \<^item> A \<open>dict\<close> is an association list in insertion order. Where the iteration order of a
    dictionary is not determined by the language (the Python 2 scripts), the component takes
    the order as a parameter.
  \<^item> Strings are \<open>string\<close>; only the methods the scripts call are defined.
\<close>

named_theorems py_simps
named_theorems dict_simps
named_theorems inv_intros

subsection \<open>Errors as values\<close>

datatype py_error =
    IndexError | KeyError | ValueError | TypeError | AttributeError | AssertionError
  | ZeroDivisionError | UnboundLocalError | OSError | WafError | NotImplementedError
  | PyException | UnicodeDecodeError | NameError | SystemExit int

type_synonym 'a result = "py_error + 'a"

definition res_bind :: "'a result \<Rightarrow> ('a \<Rightarrow> 'b result) \<Rightarrow> 'b result" where
  "res_bind r f = (case r of Inl e \<Rightarrow> Inl e | Inr x \<Rightarrow> f x)"

fun res_list :: "('a \<Rightarrow> 'b result) \<Rightarrow> 'a list \<Rightarrow> 'b list result" where
  "res_list f [] = Inr []"
| "res_list f (x # xs) =
     (case f x of Inl e \<Rightarrow> Inl e
      | Inr y \<Rightarrow> (case res_list f xs of Inl e \<Rightarrow> Inl e | Inr ys \<Rightarrow> Inr (y # ys)))"

fun res_fold :: "('s \<Rightarrow> 'a \<Rightarrow> 's result) \<Rightarrow> 's \<Rightarrow> 'a list \<Rightarrow> 's result" where
  "res_fold f s [] = Inr s"
| "res_fold f s (x # xs) = (case f s x of Inl e \<Rightarrow> Inl e | Inr s' \<Rightarrow> res_fold f s' xs)"

lemma res_bind_simps [simp, py_simps]:
  "res_bind (Inl e) f = Inl e"
  "res_bind (Inr x) f = f x"
  by (simp_all add: res_bind_def)

lemma res_bind_Inr_iff: "res_bind r f = Inr y \<longleftrightarrow> (\<exists>x. r = Inr x \<and> f x = Inr y)"
  by (cases r) auto

lemma res_list_Inr_iff:
  "res_list f xs = Inr ys \<longleftrightarrow> list_all2 (\<lambda>x y. f x = Inr y) xs ys"
proof (induction xs arbitrary: ys)
  case Nil
  then show ?case by auto
next
  case (Cons x xs)
  show ?case
  proof (cases "f x")
    case (Inl e)
    then show ?thesis by (auto simp: list_all2_Cons1)
  next
    case (Inr y)
    then show ?thesis by (auto simp: list_all2_Cons1 Cons.IH [symmetric] split: sum.split)
  qed
qed

lemma res_list_total: "(\<And>x. x \<in> set xs \<Longrightarrow> f x = Inr (g x)) \<Longrightarrow> res_list f xs = Inr (map g xs)"
  by (induction xs) auto

lemma res_fold_append:
  "res_fold f s (xs @ ys) = res_bind (res_fold f s xs) (\<lambda>s'. res_fold f s' ys)"
  by (induction xs arbitrary: s) (auto split: sum.split)

lemma res_fold_total:
  "(\<And>s x. x \<in> set xs \<Longrightarrow> f s x = Inr (g s x)) \<Longrightarrow> res_fold f s xs = Inr (foldl g s xs)"
  by (induction xs arbitrary: s) auto

text \<open>An invariant of the threaded state survives the loop, if the loop ends normally.\<close>

lemma res_fold_invariant:
  assumes "P s" and "\<And>s x s'. P s \<Longrightarrow> x \<in> set xs \<Longrightarrow> f s x = Inr s' \<Longrightarrow> P s'"
    and "res_fold f s xs = Inr t"
  shows "P t"
  using assms
proof (induction xs arbitrary: s)
  case Nil
  then show ?case by simp
next
  case (Cons x xs)
  from Cons.prems(3) obtain s' where s': "f s x = Inr s'" "res_fold f s' xs = Inr t"
    by (auto split: sum.splits)
  have "P s'" using Cons.prems(1,2) s'(1) by auto
  then show ?case
    by (rule Cons.IH) (use Cons.prems(2) s'(2) in auto)
qed

subsection \<open>Indexing and slicing\<close>

definition py_get :: "'a list \<Rightarrow> int \<Rightarrow> 'a result" where
  "py_get xs i =
     (if 0 \<le> i \<and> nat i < length xs then Inr (xs ! nat i)
      else if i < 0 \<and> nat (- i) \<le> length xs then Inr (xs ! (length xs - nat (- i)))
      else Inl IndexError)"

text \<open>A slice bound counts from the end when negative and is clipped to the list.\<close>

definition py_bound :: "nat \<Rightarrow> int \<Rightarrow> nat" where
  "py_bound n i = (if i < 0 then nat (int n + i) else min (nat i) n)"

definition py_slice :: "'a list \<Rightarrow> int \<Rightarrow> int \<Rightarrow> 'a list" where
  "py_slice xs i j =
     (let a = py_bound (length xs) i; b = py_bound (length xs) j in take (b - a) (drop a xs))"

definition py_slice_to :: "'a list \<Rightarrow> int \<Rightarrow> 'a list" where
  "py_slice_to xs j = take (py_bound (length xs) j) xs"

definition py_slice_from :: "'a list \<Rightarrow> int \<Rightarrow> 'a list" where
  "py_slice_from xs i = drop (py_bound (length xs) i) xs"

lemma py_bound_le: "py_bound n i \<le> n"
  by (auto simp: py_bound_def)

lemma py_slice_partition: "py_slice_to xs i @ py_slice_from xs i = xs"
  by (simp add: py_slice_to_def py_slice_from_def)

lemma py_slice_nat: "py_slice xs (int i) (int j) = take (min j (length xs) - min i (length xs)) (drop (min i (length xs)) xs)"
  by (simp add: py_slice_def py_bound_def Let_def)

lemma py_slice_in_range:
  "j \<le> length xs \<Longrightarrow> py_slice xs (int i) (int j) = take (j - i) (drop i xs)"
  by (auto simp: py_slice_nat min_def)

lemma py_get_nat: "i < length xs \<Longrightarrow> py_get xs (int i) = Inr (xs ! i)"
  by (simp add: py_get_def)

subsection \<open>Dictionaries\<close>

type_synonym ('k, 'v) dict = "('k \<times> 'v) list"

definition dict_get :: "('k, 'v) dict \<Rightarrow> 'k \<Rightarrow> 'v result" where
  "dict_get d k = (case map_of d k of None \<Rightarrow> Inl KeyError | Some v \<Rightarrow> Inr v)"

definition dict_set :: "'k \<Rightarrow> 'v \<Rightarrow> ('k, 'v) dict \<Rightarrow> ('k, 'v) dict" where
  "dict_set k v d = AList.update k v d"

definition dict_del :: "'k \<Rightarrow> ('k, 'v) dict \<Rightarrow> ('k, 'v) dict" where
  "dict_del k d = AList.delete k d"

definition dict_keys :: "('k, 'v) dict \<Rightarrow> 'k list" where
  "dict_keys d = map fst d"

definition dict_has :: "('k, 'v) dict \<Rightarrow> 'k \<Rightarrow> bool" where
  "dict_has d k \<longleftrightarrow> k \<in> set (dict_keys d)"

definition dict_ok :: "('k, 'v) dict \<Rightarrow> bool" where
  "dict_ok d \<longleftrightarrow> distinct (dict_keys d)"

lemma dict_keys_simps [simp, dict_simps]:
  "dict_keys [] = []"
  "dict_keys ((k, v) # d) = k # dict_keys d"
  by (simp_all add: dict_keys_def)

lemma map_of_dict_set [simp, dict_simps]: "map_of (dict_set k v d) = (map_of d)(k \<mapsto> v)"
  by (simp add: dict_set_def update_conv')

lemma map_of_dict_del [simp, dict_simps]: "map_of (dict_del k d) = (map_of d)(k := None)"
  by (simp add: dict_del_def delete_conv')

lemma dict_has_iff [dict_simps]: "dict_has d k \<longleftrightarrow> map_of d k \<noteq> None"
  by (simp add: dict_has_def dict_keys_def map_of_eq_None_iff)

lemma set_dict_keys [dict_simps]: "set (dict_keys d) = dom (map_of d)"
  by (simp add: dict_keys_def dom_map_of_conv_image_fst)

lemma dict_keys_set:
  "dict_keys (dict_set k v d) = (if dict_has d k then dict_keys d else dict_keys d @ [k])"
  by (simp add: dict_set_def dict_keys_def dict_has_def update_keys)

lemma dict_keys_del: "dict_keys (dict_del k d) = filter (\<lambda>x. x \<noteq> k) (dict_keys d)"
  by (simp add: dict_del_def dict_keys_def delete_keys removeAll_filter_not_eq eq_commute)

lemma dict_ok_intros [simp, intro, inv_intros]:
  "dict_ok []"
  "dict_ok d \<Longrightarrow> dict_ok (dict_set k v d)"
  "dict_ok d \<Longrightarrow> dict_ok (dict_del k d)"
  by (auto simp: dict_ok_def dict_keys_set dict_keys_del dict_has_def)

text \<open>
  The contract of a dictionary, as its clients rely on it: lookups after updates and deletions,
  and one key per entry. The association lists above are the instance the model runs on.
\<close>

locale dictionary =
  fixes lookup :: "'d \<Rightarrow> 'k \<Rightarrow> 'v option"
    and upd :: "'k \<Rightarrow> 'v \<Rightarrow> 'd \<Rightarrow> 'd"
    and del :: "'k \<Rightarrow> 'd \<Rightarrow> 'd"
    and keys :: "'d \<Rightarrow> 'k list"
    and ok :: "'d \<Rightarrow> bool"
  assumes lookup_upd: "lookup (upd k v d) = (lookup d)(k \<mapsto> v)"
    and lookup_del: "lookup (del k d) = (lookup d)(k := None)"
    and keys_lookup: "set (keys d) = dom (lookup d)"
    and ok_upd: "ok d \<Longrightarrow> ok (upd k v d)"
    and ok_del: "ok d \<Longrightarrow> ok (del k d)"
    and ok_keys: "ok d \<Longrightarrow> distinct (keys d)"
begin

lemma finite_dom: "finite (dom (lookup d))"
  using keys_lookup [of d] by (metis finite_set)

lemma size_del:
  assumes "ok d" and "lookup d k \<noteq> None"
  shows "length (keys (del k d)) < length (keys d)"
proof -
  have "length (keys (del k d)) = card (dom (lookup d) - {k})"
    using ok_keys [OF ok_del [OF assms(1)], of k] keys_lookup [of "del k d"]
    by (simp add: lookup_del flip: distinct_card)
  also have "\<dots> < card (dom (lookup d))"
    using assms(2) finite_dom by (intro psubset_card_mono) auto
  also have "\<dots> = length (keys d)"
    using ok_keys [OF assms(1)] keys_lookup [of d] by (metis distinct_card)
  finally show ?thesis .
qed

lemma size_upd_existing:
  assumes "ok d" and "lookup d k \<noteq> None"
  shows "length (keys (upd k v d)) = length (keys d)"
proof -
  have "dom (lookup (upd k v d)) = dom (lookup d)"
    using assms(2) by (auto simp: lookup_upd)
  then show ?thesis
    using ok_keys [OF assms(1)] ok_keys [OF ok_upd [OF assms(1)], of k v]
    by (metis distinct_card keys_lookup)
qed

end

interpretation alist: dictionary map_of dict_set dict_del dict_keys dict_ok
  by unfold_locales (simp_all add: set_dict_keys, simp add: dict_ok_def)

lemma list_all2_ball:
  assumes "list_all2 R xs ys" "\<And>x y. R x y \<Longrightarrow> x \<in> set xs \<Longrightarrow> P y \<longleftrightarrow> Q x"
  shows "(\<forall>y \<in> set ys. P y) \<longleftrightarrow> (\<forall>x \<in> set xs. Q x)"
  using assms by (induction rule: list_all2_induct) auto

subsection \<open>Transition systems\<close>

text \<open>
  The state machines of the development: an invariant that every step keeps, and, where the machine
  has to come to an end, a measure every step decreases and a step from every state that is not final.
\<close>

locale invariant_system =
  fixes step :: "'s \<Rightarrow> 's \<Rightarrow> bool" and inv :: "'s \<Rightarrow> bool"
  assumes inv_step: "inv s \<Longrightarrow> step s t \<Longrightarrow> inv t"
begin

lemma inv_reachable: "step\<^sup>*\<^sup>* s t \<Longrightarrow> inv s \<Longrightarrow> inv t"
  by (induction rule: rtranclp_induct) (auto intro: inv_step)

end

locale terminating_system = invariant_system +
  fixes size :: "'s \<Rightarrow> nat" and work :: "'s \<Rightarrow> 's \<Rightarrow> bool" and final :: "'s \<Rightarrow> bool"
  assumes decreases: "inv s \<Longrightarrow> step s t \<Longrightarrow> size t < size s"
    and work_step: "work s t \<Longrightarrow> step s t"
    and progress: "inv s \<Longrightarrow> \<not> final s \<Longrightarrow> \<exists>t. work s t"
begin

lemma steps_bounded: "(step ^^ n) s t \<Longrightarrow> inv s \<Longrightarrow> inv t \<and> n + size t \<le> size s"
proof (induction n arbitrary: t)
  case (Suc n)
  then obtain u where u: "(step ^^ n) s u" "step u t" by (auto elim: relpowp_Suc_E)
  with Suc show ?case using decreases [of u t] inv_step [of u t] by fastforce
qed simp

lemma reaches_final: "inv s \<Longrightarrow> \<exists>t. work\<^sup>*\<^sup>* s t \<and> final t"
proof (induction "size s" arbitrary: s rule: less_induct)
  case less
  show ?case
  proof (cases "final s")
    case False
    then obtain u where u: "work s u" using progress less.prems by blast
    then have "inv u" "size u < size s" using work_step less.prems inv_step decreases by blast+
    then show ?thesis using less.hyps u by (meson converse_rtranclp_into_rtranclp)
  qed auto
qed

lemma stuck_final: "step\<^sup>*\<^sup>* s t \<Longrightarrow> inv s \<Longrightarrow> \<nexists>u. work t u \<Longrightarrow> final t"
  using inv_reachable progress by blast

end

end
