(* ===== verification/Py_String.thy ===== *)
theory Py_String
  imports Prelude
begin

text \<open>
  The string methods the scripts call: \<open>split\<close> on one character (unbounded and with a limit of
  one), \<open>join\<close>, \<open>strip\<close>, \<open>startswith\<close>, \<open>endswith\<close>, substring tests, decimal printing and the
  built-in \<open>int(s, base)\<close>. The lemmas are the round trips and shape facts the parsers of the
  other theories are proved with.
\<close>

subsection \<open>Prefixes, suffixes, substrings\<close>

definition py_startswith :: "string \<Rightarrow> string \<Rightarrow> bool" where
  "py_startswith s p \<longleftrightarrow> take (length p) s = p"

definition py_endswith :: "string \<Rightarrow> string \<Rightarrow> bool" where
  "py_endswith s p \<longleftrightarrow> length p \<le> length s \<and> drop (length s - length p) s = p"

fun py_contains :: "string \<Rightarrow> string \<Rightarrow> bool" where
  "py_contains sub [] \<longleftrightarrow> sub = []"
| "py_contains sub (c # s) \<longleftrightarrow> py_startswith (c # s) sub \<or> py_contains sub s"

lemma py_startswith_append [simp]: "py_startswith (p @ s) p"
  by (simp add: py_startswith_def)

lemma py_startswith_iff: "py_startswith s p \<longleftrightarrow> (\<exists>r. s = p @ r)"
  by (metis append_take_drop_id py_startswith_append py_startswith_def)

lemma py_endswith_iff: "py_endswith s p \<longleftrightarrow> (\<exists>r. s = r @ p)"
proof
  assume "py_endswith s p"
  then show "\<exists>r. s = r @ p"
    by (metis append_take_drop_id py_endswith_def)
qed (auto simp: py_endswith_def)

lemma py_contains_iff: "py_contains sub s \<longleftrightarrow> (\<exists>a b. s = a @ sub @ b)"
proof (induction s)
  case Nil
  then show ?case by auto
next
  case (Cons c s)
  show ?case
  proof
    assume "py_contains sub (c # s)"
    then consider r where "c # s = sub @ r" | a b where "s = a @ sub @ b"
      using Cons.IH by (auto simp: py_startswith_iff)
    then show "\<exists>a b. c # s = a @ sub @ b"
    proof cases
      case 1
      then have "c # s = [] @ sub @ r" by simp
      then show ?thesis by blast
    next
      case 2
      then have "c # s = (c # a) @ sub @ b" by simp
      then show ?thesis by blast
    qed
  next
    assume "\<exists>a b. c # s = a @ sub @ b"
    then obtain a b where ab: "c # s = a @ sub @ b" by blast
    show "py_contains sub (c # s)"
    proof (cases a)
      case Nil
      with ab have "py_startswith (c # s) sub" unfolding py_startswith_iff by auto
      then show ?thesis by simp
    next
      case (Cons c' a')
      with ab have "s = a' @ sub @ b" by simp
      with Cons.IH show ?thesis by auto
    qed
  qed
qed

subsection \<open>Splitting and joining\<close>

fun py_split :: "char \<Rightarrow> string \<Rightarrow> string list" where
  "py_split c [] = [[]]"
| "py_split c (x # xs) =
     (if x = c then [] # py_split c xs
      else (case py_split c xs of [] \<Rightarrow> [[x]] | w # ws \<Rightarrow> (x # w) # ws))"

definition py_split1 :: "char \<Rightarrow> string \<Rightarrow> string list" where
  "py_split1 c s =
     (case dropWhile (\<lambda>x. x \<noteq> c) s of
        [] \<Rightarrow> [s]
      | _ # r \<Rightarrow> [takeWhile (\<lambda>x. x \<noteq> c) s, r])"

fun py_join :: "string \<Rightarrow> string list \<Rightarrow> string" where
  "py_join sep [] = []"
| "py_join sep [w] = w"
| "py_join sep (w # v # ws) = w @ sep @ py_join sep (v # ws)"

lemma py_split_not_Nil [simp]: "py_split c s \<noteq> []"
  by (cases s) (auto split: list.split)

lemma py_join_split: "py_join [c] (py_split c s) = s"
proof (induction s)
  case Nil
  then show ?case by simp
next
  case (Cons x s)
  obtain w ws where w: "py_split c s = w # ws"
    by (cases "py_split c s") auto
  show ?case
  proof (cases "x = c")
    case True
    with w Cons.IH show ?thesis by (cases ws) auto
  next
    case False
    with w Cons.IH show ?thesis by (cases ws) auto
  qed
qed

lemma py_split_no_sep: "w \<in> set (py_split c s) \<Longrightarrow> c \<notin> set w"
proof (induction s arbitrary: w)
  case Nil
  then show ?case by simp
next
  case (Cons x s)
  obtain v vs where v: "py_split c s = v # vs"
    by (cases "py_split c s") auto
  with Cons show ?case by (auto split: if_splits)
qed

lemma py_split_clean: "c \<notin> set s \<Longrightarrow> py_split c s = [s]"
  by (induction s) auto

lemma py_split_append: "c \<notin> set w \<Longrightarrow> py_split c (w @ c # s) = w # py_split c s"
  by (induction w) auto

lemma py_split_join:
  "ws \<noteq> [] \<Longrightarrow> (\<And>w. w \<in> set ws \<Longrightarrow> c \<notin> set w) \<Longrightarrow> py_split c (py_join [c] ws) = ws"
proof (induction "[c]" ws rule: py_join.induct)
  case (3 w v ws)
  then show ?case by (simp add: py_split_append)
qed (auto simp: py_split_clean)

lemma py_split1_clean: "c \<notin> set s \<Longrightarrow> py_split1 c s = [s]"
proof -
  assume "c \<notin> set s"
  then have dw: "dropWhile (\<lambda>x. x \<noteq> c) s = []" by (auto simp: dropWhile_eq_Nil_conv)
  show ?thesis unfolding py_split1_def dw by simp
qed

lemma py_split1_append:
  assumes "c \<notin> set a"
  shows "py_split1 c (a @ c # b) = [a, b]"
proof -
  have "\<forall>x \<in> set a. x \<noteq> c" using assms by auto
  then show ?thesis
    by (simp add: py_split1_def dropWhile_append2 takeWhile_append2)
qed

lemma py_split1_hd: "\<exists>rest. py_split1 c s = takeWhile (\<lambda>x. x \<noteq> c) s # rest"
proof (cases "dropWhile (\<lambda>x. x \<noteq> c) s")
  case Nil
  then have tw: "takeWhile (\<lambda>x. x \<noteq> c) s = s"
    by (metis append_Nil2 takeWhile_dropWhile_id)
  show ?thesis unfolding py_split1_def Nil tw by simp
qed (simp add: py_split1_def)

subsection \<open>Whitespace\<close>

definition py_space :: "char \<Rightarrow> bool" where
  "py_space c \<longleftrightarrow> (let k = of_char c :: nat in k = 32 \<or> (9 \<le> k \<and> k \<le> 13))"

definition py_strip :: "string \<Rightarrow> string" where
  "py_strip s = rev (dropWhile py_space (rev (dropWhile py_space s)))"

lemma py_strip_clean:
  assumes "s = [] \<or> (\<not> py_space (hd s) \<and> \<not> py_space (last s))"
  shows "py_strip s = s"
proof (cases s)
  case Nil
  then show ?thesis by (simp add: py_strip_def)
next
  case (Cons c t)
  have "hd (rev s) = last s" by (simp add: hd_rev)
  with Cons have h: "\<not> py_space c" and l: "\<not> py_space (hd (rev s))" and ne: "rev s \<noteq> []"
    using assms by auto
  from h Cons have "dropWhile py_space s = s" by simp
  moreover have "dropWhile py_space (rev s) = rev s"
    using l ne by (cases "rev s") auto
  ultimately show ?thesis by (simp add: py_strip_def)
qed

subsection \<open>Numbers\<close>

definition digit_char :: "nat \<Rightarrow> char" where
  "digit_char d = char_of (48 + d)"

definition digit_val :: "char \<Rightarrow> nat option" where
  "digit_val c =
     (let k = of_char c :: nat in
      if 48 \<le> k \<and> k \<le> 57 then Some (k - 48)
      else if 97 \<le> k \<and> k \<le> 122 then Some (k - 87)
      else if 65 \<le> k \<and> k \<le> 90 then Some (k - 55)
      else None)"

definition is_decimal :: "char \<Rightarrow> bool" where
  "is_decimal c \<longleftrightarrow> (let k = of_char c :: nat in 48 \<le> k \<and> k \<le> 57)"

fun nat_str :: "nat \<Rightarrow> string" where
  "nat_str n = (if n < 10 then [digit_char n] else nat_str (n div 10) @ [digit_char (n mod 10)])"

declare nat_str.simps [simp del]

definition int_str :: "int \<Rightarrow> string" where
  "int_str i = (if i < 0 then ''-'' @ nat_str (nat (- i)) else nat_str (nat i))"

definition digits_value :: "nat \<Rightarrow> string \<Rightarrow> nat" where
  "digits_value b s = foldl (\<lambda>a c. a * b + the (digit_val c)) 0 s"

definition base_digit :: "nat \<Rightarrow> char \<Rightarrow> bool" where
  "base_digit b c \<longleftrightarrow> (case digit_val c of None \<Rightarrow> False | Some d \<Rightarrow> d < b)"

definition base_prefix :: "nat \<Rightarrow> string \<Rightarrow> string" where
  "base_prefix b s =
     (if b = 2 \<and> (py_startswith s ''0b'' \<or> py_startswith s ''0B'') then drop 2 s
      else if b = 16 \<and> (py_startswith s ''0x'' \<or> py_startswith s ''0X'') then drop 2 s
      else s)"

text \<open>\<open>int(s, base)\<close>: surrounding blanks, one sign and the base's prefix are accepted.\<close>

definition py_int :: "nat \<Rightarrow> string \<Rightarrow> int result" where
  "py_int b s =
     (let t = py_strip s;
          neg = py_startswith t ''-'';
          u = (if neg \<or> py_startswith t ''+'' then drop 1 t else t);
          d = base_prefix b u
      in if d \<noteq> [] \<and> list_all (base_digit b) d
         then Inr (if neg then - int (digits_value b d) else int (digits_value b d))
         else Inl ValueError)"

lemma of_char_digit_char: "d < 10 \<Longrightarrow> (of_char (digit_char d) :: nat) = 48 + d"
  by (simp add: digit_char_def)

lemma digit_val_digit_char [simp]: "d < 10 \<Longrightarrow> digit_val (digit_char d) = Some d"
  by (simp add: digit_val_def of_char_digit_char)

lemma is_decimal_digit_char [simp]: "d < 10 \<Longrightarrow> is_decimal (digit_char d)"
  by (simp add: is_decimal_def of_char_digit_char)

lemma is_decimal_not_space: "is_decimal c \<Longrightarrow> \<not> py_space c"
  by (auto simp: is_decimal_def py_space_def Let_def)

lemma is_decimal_base_digit: "is_decimal c \<Longrightarrow> base_digit 10 c"
  by (auto simp: is_decimal_def base_digit_def digit_val_def Let_def)

lemma nat_str_not_Nil [simp]: "nat_str n \<noteq> []"
  by (subst nat_str.simps) simp

lemma nat_str_decimal: "c \<in> set (nat_str n) \<Longrightarrow> is_decimal c"
proof (induction n arbitrary: c rule: nat_str.induct)
  case (1 n)
  then show ?case
    by (cases "n < 10") (auto simp: nat_str.simps [of n])
qed

lemma digits_value_append: "digits_value b (s @ [c]) = digits_value b s * b + the (digit_val c)"
  by (simp add: digits_value_def)

lemma digits_value_nat_str [simp]: "digits_value 10 (nat_str n) = n"
proof (induction n rule: nat_str.induct)
  case (1 n)
  show ?case
  proof (cases "n < 10")
    case True
    then show ?thesis by (simp add: nat_str.simps [of n] digits_value_def)
  next
    case False
    with 1 show ?thesis by (simp add: nat_str.simps [of n] digits_value_append)
  qed
qed

lemma nat_str_inject [simp]: "nat_str m = nat_str n \<longleftrightarrow> m = n"
  by (metis digits_value_nat_str)

lemma decimal_not_sign:
  "is_decimal c \<Longrightarrow> c \<noteq> CHR ''-'' \<and> c \<noteq> CHR ''+'' \<and> c \<noteq> CHR '','' \<and> c \<noteq> CHR '' ''"
  by (auto simp: is_decimal_def)

text \<open>A non-empty run of decimal digits is read back by \<open>int(s)\<close> as its value.\<close>

lemma py_int_decimal:
  assumes "s \<noteq> []" and dec: "list_all is_decimal s"
  shows "py_int 10 s = Inr (int (digits_value 10 s))"
proof -
  have hd_dec: "is_decimal (hd s)" and last_dec: "is_decimal (last s)"
    using assms by (auto simp: list_all_iff)
  then have strip: "py_strip s = s"
    by (intro py_strip_clean) (auto dest: is_decimal_not_space)
  have sign: "\<not> py_startswith s ''-''" "\<not> py_startswith s ''+''"
    using hd_dec \<open>s \<noteq> []\<close> by (auto simp: py_startswith_iff dest: decimal_not_sign)
  have "list_all (base_digit 10) s"
    using dec by (auto simp: list_all_iff intro: is_decimal_base_digit)
  with strip sign \<open>s \<noteq> []\<close> show ?thesis
    by (simp add: py_int_def base_prefix_def)
qed

lemma py_int_nat_str [simp]: "py_int 10 (nat_str n) = Inr (int n)"
proof -
  have "list_all is_decimal (nat_str n)"
    using nat_str_decimal by (auto simp: list_all_iff)
  then show ?thesis using py_int_decimal [of "nat_str n"] by simp
qed

subsection \<open>Pieces of regular expressions\<close>

text \<open>
  \<open>([0-9]+)\<close> and a literal: the text matched and what follows it. Both are used where the next piece
  of the pattern cannot match a character of this one, so that a greedy match never backtracks.
\<close>

definition digits :: "string \<Rightarrow> (string \<times> string) option" where
  "digits s = (let d = takeWhile is_decimal s in if d = [] then None else Some (d, drop (length d) s))"

definition expect :: "string \<Rightarrow> string \<Rightarrow> string option" where
  "expect pre s = (if py_startswith s pre then Some (drop (length pre) s) else None)"

lemma digits_nat_str: "\<not> is_decimal c \<Longrightarrow> digits (nat_str n @ c # s) = Some (nat_str n, c # s)"
proof -
  assume c: "\<not> is_decimal c"
  have "takeWhile is_decimal (nat_str n @ c # s) = nat_str n"
    using c nat_str_decimal by (subst takeWhile_append2) auto
  then show ?thesis by (simp add: digits_def)
qed

end
