(* ===== verification/Py_Path.thy ===== *)
theory Py_Path
  imports Py_String
begin

text \<open>
  The POSIX functions of \<open>os.path\<close> the scripts call: \<open>join\<close>, \<open>basename\<close>, \<open>normpath\<close>, \<open>abspath\<close>
  and \<open>relpath\<close> (the last two take the current directory as an argument), and the UTF-8 decoding
  of a process's output. A Python 3 string is represented by its UTF-8 encoding, so decoding
  a byte string is checking that it is valid UTF-8.
\<close>

subsection \<open>Paths\<close>

definition path_join2 :: "string \<Rightarrow> string \<Rightarrow> string" where
  "path_join2 a b =
     (if py_startswith b ''/'' then b
      else if a = [] \<or> py_endswith a ''/'' then a @ b
      else a @ ''/'' @ b)"

definition path_join :: "string \<Rightarrow> string list \<Rightarrow> string" where
  "path_join a ps = foldl path_join2 a ps"

definition basename :: "string \<Rightarrow> string" where
  "basename p = rev (takeWhile (\<lambda>c. c \<noteq> CHR ''/'') (rev p))"

definition initial_slashes :: "string \<Rightarrow> nat" where
  "initial_slashes p =
     (if py_startswith p ''//'' \<and> \<not> py_startswith p ''///'' then 2
      else if py_startswith p ''/'' then 1 else 0)"

fun norm_comps :: "bool \<Rightarrow> string list \<Rightarrow> string list \<Rightarrow> string list" where
  "norm_comps rooted new [] = new"
| "norm_comps rooted new (c # cs) =
     (if c = [] \<or> c = ''.'' then norm_comps rooted new cs
      else if c \<noteq> ''..'' \<or> (\<not> rooted \<and> new = []) \<or> (new \<noteq> [] \<and> last new = ''..'')
        then norm_comps rooted (new @ [c]) cs
      else norm_comps rooted (butlast new) cs)"

definition normpath :: "string \<Rightarrow> string" where
  "normpath p =
     (if p = [] then ''.''
      else
        let n = initial_slashes p;
            q = replicate n (CHR ''/'') @ py_join ''/'' (norm_comps (n > 0) [] (py_split (CHR ''/'') p))
        in if q = [] then ''.'' else q)"

definition abspath :: "string \<Rightarrow> string \<Rightarrow> string" where
  "abspath cwd p = normpath (if py_startswith p ''/'' then p else path_join2 cwd p)"

fun common_comps :: "string list \<Rightarrow> string list \<Rightarrow> nat" where
  "common_comps (a # as) (b # bs) = (if a = b then Suc (common_comps as bs) else 0)"
| "common_comps _ _ = 0"

definition path_comps :: "string \<Rightarrow> string list" where
  "path_comps p = filter (\<lambda>x. x \<noteq> []) (py_split (CHR ''/'') p)"

definition relpath :: "string \<Rightarrow> string \<Rightarrow> string \<Rightarrow> string result" where
  "relpath cwd p start =
     (if p = [] then Inl ValueError
      else
        let start_list = path_comps (abspath cwd start);
            path_list = path_comps (abspath cwd p);
            i = common_comps start_list path_list;
            rel_list = replicate (length start_list - i) ''..'' @ drop i path_list
        in Inr (if rel_list = [] then ''.'' else py_join ''/'' rel_list))"

subsection \<open>UTF-8\<close>

abbreviation byte :: "char \<Rightarrow> nat" where
  "byte c \<equiv> of_char c"

definition continuation :: "char \<Rightarrow> bool" where
  "continuation c \<longleftrightarrow> 128 \<le> byte c \<and> byte c < 192"

fun utf8_valid :: "string \<Rightarrow> bool" where
  "utf8_valid [] \<longleftrightarrow> True"
| "utf8_valid (a # s) \<longleftrightarrow>
     (if byte a < 128 then utf8_valid s
      else if 194 \<le> byte a \<and> byte a < 224 then
        (case s of b # s' \<Rightarrow> continuation b \<and> utf8_valid s' | _ \<Rightarrow> False)
      else if 224 \<le> byte a \<and> byte a < 240 then
        (case s of
           b # c # s' \<Rightarrow> continuation b \<and> continuation c
             \<and> (byte a = 224 \<longrightarrow> 160 \<le> byte b) \<and> (byte a = 237 \<longrightarrow> byte b < 160) \<and> utf8_valid s'
         | _ \<Rightarrow> False)
      else if 240 \<le> byte a \<and> byte a < 245 then
        (case s of
           b # c # d # s' \<Rightarrow> continuation b \<and> continuation c \<and> continuation d
             \<and> (byte a = 240 \<longrightarrow> 144 \<le> byte b) \<and> (byte a = 244 \<longrightarrow> byte b < 144) \<and> utf8_valid s'
         | _ \<Rightarrow> False)
      else False)"

definition py_decode :: "string \<Rightarrow> string result" where
  "py_decode b = (if utf8_valid b then Inr b else Inl UnicodeDecodeError)"

subsection \<open>Facts\<close>

lemma utf8_ascii: "(\<And>c. c \<in> set s \<Longrightarrow> byte c < 128) \<Longrightarrow> utf8_valid s"
  by (induction s) simp_all

lemma path_join_simps [simp]:
  "path_join a [] = a"
  "path_join a (p # ps) = path_join (path_join2 a p) ps"
  by (simp_all add: path_join_def)

text \<open>A path whose components are plain names: joining appends, normalising changes nothing.\<close>

definition plain_comp :: "string \<Rightarrow> bool" where
  "plain_comp c \<longleftrightarrow> c \<noteq> [] \<and> c \<noteq> ''.'' \<and> c \<noteq> ''..'' \<and> CHR ''/'' \<notin> set c"

definition abs_of :: "string list \<Rightarrow> string" where
  "abs_of cs = ''/'' @ py_join ''/'' cs"

lemma norm_comps_plain:
  "(\<And>c. c \<in> set cs \<Longrightarrow> plain_comp c) \<Longrightarrow> norm_comps r new cs = new @ cs"
  by (induction cs arbitrary: new) (auto simp: plain_comp_def)

lemma py_join_snoc: "ws \<noteq> [] \<Longrightarrow> py_join sep (ws @ [w]) = py_join sep ws @ sep @ w"
  by (induction sep ws rule: py_join.induct) auto

lemma py_join_append:
  "xs \<noteq> [] \<Longrightarrow> ys \<noteq> [] \<Longrightarrow> py_join sep (xs @ ys) = py_join sep xs @ sep @ py_join sep ys"
  by (induction sep xs rule: py_join.induct) (auto simp: neq_Nil_conv)

lemma plain_join_hd:
  assumes "cs \<noteq> []" "\<And>c. c \<in> set cs \<Longrightarrow> plain_comp c"
  shows "py_join ''/'' cs \<noteq> [] \<and> hd (py_join ''/'' cs) \<noteq> CHR ''/''"
proof -
  obtain c cs' where cs: "cs = c # cs'" using assms(1) by (cases cs) auto
  have "c \<noteq> []" "CHR ''/'' \<notin> set c" using assms(2) by (auto simp: cs plain_comp_def)
  then show ?thesis by (cases cs'; cases c) (auto simp: cs)
qed

lemma split_abs_of:
  assumes "\<And>c. c \<in> set cs \<Longrightarrow> plain_comp c"
  shows "py_split (CHR ''/'') (abs_of cs) = [] # (if cs = [] then [[]] else cs)"
  using assms py_split_join [of cs "CHR ''/''"] by (auto simp: abs_of_def plain_comp_def)

lemma initial_slashes_abs_of:
  assumes "\<And>c. c \<in> set cs \<Longrightarrow> plain_comp c"
  shows "initial_slashes (abs_of cs) = 1"
  using plain_join_hd [of cs] assms
  by (cases "py_join ''/'' cs"; cases "cs = []") (auto simp: initial_slashes_def abs_of_def py_startswith_def)

lemma normpath_abs_of:
  assumes "\<And>c. c \<in> set cs \<Longrightarrow> plain_comp c"
  shows "normpath (abs_of cs) = abs_of cs"
proof -
  have "norm_comps True [] (py_split (CHR ''/'') (abs_of cs)) = cs"
    using norm_comps_plain [of cs True "[]"] assms by (simp add: split_abs_of)
  then show ?thesis using initial_slashes_abs_of [of cs] assms by (simp add: normpath_def abs_of_def)
qed

lemma abspath_abs_of:
  assumes "\<And>c. c \<in> set cs \<Longrightarrow> plain_comp c"
  shows "abspath cwd (abs_of cs) = abs_of cs"
  using normpath_abs_of [of cs] assms by (simp add: abspath_def abs_of_def py_startswith_def)

lemma path_comps_abs_of:
  assumes "\<And>c. c \<in> set cs \<Longrightarrow> plain_comp c"
  shows "path_comps (abs_of cs) = cs"
proof -
  have "filter (\<lambda>x. x \<noteq> []) cs = cs" using assms by (simp add: filter_id_conv plain_comp_def)
  then show ?thesis using split_abs_of [of cs] assms by (simp add: path_comps_def)
qed

lemma common_comps_append: "common_comps as (as @ bs) = length as"
  by (induction as) (cases bs, simp_all)

lemma relpath_below:
  assumes "\<And>c. c \<in> set (as @ bs) \<Longrightarrow> plain_comp c" "bs \<noteq> []"
  shows "relpath cwd (abs_of (as @ bs)) (abs_of as) = Inr (py_join ''/'' bs)"
proof -
  have p: "abs_of (as @ bs) \<noteq> []" by (simp add: abs_of_def)
  have "path_comps (abspath cwd (abs_of as)) = as" "path_comps (abspath cwd (abs_of (as @ bs))) = as @ bs"
    using abspath_abs_of [of as cwd] abspath_abs_of [of "as @ bs" cwd]
      path_comps_abs_of [of as] path_comps_abs_of [of "as @ bs"] assms(1) by simp_all
  then show ?thesis using p assms(2) by (simp add: relpath_def Let_def common_comps_append)
qed

lemma path_join2_plain:
  assumes "bs \<noteq> []" "\<And>c. c \<in> set (as @ bs) \<Longrightarrow> plain_comp c"
  shows "path_join2 (abs_of as) (py_join ''/'' bs) = abs_of (as @ bs)"
proof (cases "as = []")
  case True
  then show ?thesis using plain_join_hd [of bs] assms
    by (cases "py_join ''/'' bs") (auto simp: path_join2_def abs_of_def py_startswith_def py_endswith_def)
next
  case False
  have last: "last (abs_of as) \<noteq> CHR ''/''"
  proof -
    have "plain_comp (last as)" using assms(2) False by simp
    then have "last as \<noteq> []" "last (last as) \<noteq> CHR ''/''"
      by (auto simp: plain_comp_def) (metis last_in_set)
    moreover have "last (py_join ''/'' as) = last (last as) \<and> py_join ''/'' as \<noteq> []"
      using False calculation(1) by (induction "''/''" as rule: py_join.induct) auto
    ultimately show ?thesis by (simp add: abs_of_def)
  qed
  have "\<not> py_endswith (abs_of as) ''/''"
    using last by (auto simp: py_endswith_iff)
  moreover have "\<not> py_startswith (py_join ''/'' bs) ''/''"
    using plain_join_hd [of bs] assms by (auto simp: py_startswith_iff)
  ultimately show ?thesis using False assms(1)
    by (simp add: path_join2_def abs_of_def py_join_append)
qed

subsection \<open>Extensions\<close>

text \<open>
  \<open>os.path.splitext\<close>: the extension starts at the last dot of the last component, unless only dots stand before it
  there.
\<close>

definition splitext :: "string \<Rightarrow> string \<times> string" where
  "splitext p =
     (let r = rev p;
          ext = takeWhile (\<lambda>c. c \<noteq> CHR ''.'' \<and> c \<noteq> CHR ''/'') r
      in case drop (length ext) r of
           [] \<Rightarrow> (p, [])
         | c # stem \<Rightarrow>
             if c = CHR ''.'' \<and> list_ex (\<lambda>x. x \<noteq> CHR ''.'') (takeWhile (\<lambda>x. x \<noteq> CHR ''/'') stem)
             then (rev stem, CHR ''.'' # rev ext)
             else (p, []))"

lemma splitext_append:
  assumes "splitext p = (stem, ext)"
  shows "stem @ ext = p"
proof -
  define e where "e = takeWhile (\<lambda>c. c \<noteq> CHR ''.'' \<and> c \<noteq> CHR ''/'') (rev p)"
  have eq: "e @ drop (length e) (rev p) = rev p"
    unfolding e_def by (simp flip: dropWhile_eq_drop)
  have sp: "splitext p = (case drop (length e) (rev p) of [] \<Rightarrow> (p, [])
      | c # stem \<Rightarrow> if c = CHR ''.'' \<and> list_ex (\<lambda>x. x \<noteq> CHR ''.'') (takeWhile (\<lambda>x. x \<noteq> CHR ''/'') stem)
          then (rev stem, CHR ''.'' # rev e) else (p, []))"
    unfolding splitext_def Let_def e_def ..
  show ?thesis
  proof (cases "drop (length e) (rev p)")
    case Nil
    then show ?thesis using assms sp by simp
  next
    case (Cons c r)
    then have "rev (e @ c # r) = p" using eq by simp
    then have "p = rev r @ c # rev e" by simp
    moreover have "(stem, ext) = (rev r, c # rev e) \<or> (stem, ext) = (p, [])"
      using assms sp Cons by (simp split: if_splits)
    ultimately show ?thesis by auto
  qed
qed

end
