(* ===== verification/Test_Job.thy ===== *)
theory Test_Job
  imports Complex_Main Py_Path
begin

text \<open>
  \<open>src/test.py\<close>, the unit of work: the command-line options and the build configuration the
  runner reads, the class \<open>Job\<close> with its setters, \<open>run_job_synchronously\<close> and the body of
  \<open>worker_thread.run\<close>.

  What a started process does is the parameter \<open>popen\<close>: the return code, the bytes on its two output
  streams and the elapsed time, from the command line and the working directory. A Python
  string is its UTF-8 encoding; output that cannot be decoded stays \<open>Bytes\<close>. The messages printed
  in verbose mode are not modelled.
\<close>

subsection \<open>Options, configuration, jobs\<close>

record options =
  buildpath :: string
  constrain :: string
  duration :: bool
  example_opt :: string
  update_data :: bool
  fullness :: string
  valgrind_opt :: bool
  kinds :: bool
  list_opt :: bool
  multiple :: bool
  nowaf :: bool
  pyexample :: string
  retain :: bool
  suite :: string
  text_opt :: string
  verbose :: bool
  html_opt :: string
  xml_opt :: string

definition default_options :: options where
  "default_options =
     \<lparr>buildpath = '''', constrain = '''', duration = False, example_opt = '''', update_data = False,
      fullness = ''QUICK'', valgrind_opt = False, kinds = False, list_opt = False, multiple = False,
      nowaf = False, pyexample = '''', retain = False, suite = '''', text_opt = '''', verbose = False,
      html_opt = '''', xml_opt = ''''\<rparr>"

record config =
  NS3_BASEDIR :: string
  NS3_BUILDDIR :: string
  NS3_ENABLED_MODULES :: "string list"
  NS3_ENABLED_CONTRIBUTED_MODULES :: "string list"
  NS3_MODULE_PATH :: "string list"
  NSC_ENABLED :: bool
  ENABLE_EXAMPLES :: bool
  ENABLE_TESTS :: bool
  EXAMPLE_DIRECTORIES :: "string list"
  ENABLE_PYTHON_BINDINGS :: bool
  APPNAME :: string
  BUILD_PROFILE :: string
  BUILD_PROFILE_SUFFIX :: string
  VERSION :: string
  PYTHON :: "string list"
  VALGRIND_FOUND :: bool

record job =
  is_break :: bool
  is_skip :: bool
  skip_reason :: string
  is_example :: bool
  is_pyexample :: bool
  shell_command :: string
  display_name :: string
  basedir :: string
  tempdir :: string
  cwd :: string
  tmp_file_name :: string
  returncode :: int
  elapsed_time :: rat
  build_path :: string

definition new_job :: job where
  "new_job =
     \<lparr>is_break = False, is_skip = False, skip_reason = '''', is_example = False, is_pyexample = False,
      shell_command = '''', display_name = '''', basedir = '''', tempdir = '''', cwd = '''',
      tmp_file_name = '''', returncode = 0, elapsed_time = 0, build_path = ''''\<rparr>"

definition set_is_break :: "bool \<Rightarrow> job \<Rightarrow> job" where "set_is_break v j = j\<lparr>is_break := v\<rparr>"
definition set_is_skip :: "bool \<Rightarrow> job \<Rightarrow> job" where "set_is_skip v j = j\<lparr>is_skip := v\<rparr>"
definition set_skip_reason :: "string \<Rightarrow> job \<Rightarrow> job" where "set_skip_reason v j = j\<lparr>skip_reason := v\<rparr>"
definition set_is_example :: "bool \<Rightarrow> job \<Rightarrow> job" where "set_is_example v j = j\<lparr>is_example := v\<rparr>"
definition set_is_pyexample :: "bool \<Rightarrow> job \<Rightarrow> job" where "set_is_pyexample v j = j\<lparr>is_pyexample := v\<rparr>"
definition set_shell_command :: "string \<Rightarrow> job \<Rightarrow> job" where "set_shell_command v j = j\<lparr>shell_command := v\<rparr>"
definition set_build_path :: "string \<Rightarrow> job \<Rightarrow> job" where "set_build_path v j = j\<lparr>build_path := v\<rparr>"
definition set_display_name :: "string \<Rightarrow> job \<Rightarrow> job" where "set_display_name v j = j\<lparr>display_name := v\<rparr>"
definition set_basedir :: "string \<Rightarrow> job \<Rightarrow> job" where "set_basedir v j = j\<lparr>basedir := v\<rparr>"
definition set_tempdir :: "string \<Rightarrow> job \<Rightarrow> job" where "set_tempdir v j = j\<lparr>tempdir := v\<rparr>"
definition set_cwd :: "string \<Rightarrow> job \<Rightarrow> job" where "set_cwd v j = j\<lparr>cwd := v\<rparr>"
definition set_tmp_file_name :: "string \<Rightarrow> job \<Rightarrow> job" where "set_tmp_file_name v j = j\<lparr>tmp_file_name := v\<rparr>"
definition set_returncode :: "int \<Rightarrow> job \<Rightarrow> job" where "set_returncode v j = j\<lparr>returncode := v\<rparr>"
definition set_elapsed_time :: "rat \<Rightarrow> job \<Rightarrow> job" where "set_elapsed_time v j = j\<lparr>elapsed_time := v\<rparr>"

lemmas job_setters =
  set_is_break_def set_is_skip_def set_skip_reason_def set_is_example_def set_is_pyexample_def
  set_shell_command_def set_build_path_def set_display_name_def set_basedir_def set_tempdir_def
  set_cwd_def set_tmp_file_name_def set_returncode_def set_elapsed_time_def

subsection \<open>Running a job\<close>

datatype pytext = Str string | Bytes string

record proc =
  proc_returncode :: int
  proc_stdout :: string
  proc_stderr :: string
  proc_elapsed :: rat

type_synonym popen = "string \<Rightarrow> string \<Rightarrow> proc"

definition job_command ::
  "config \<Rightarrow> string \<Rightarrow> bool \<Rightarrow> bool \<Rightarrow> string \<Rightarrow> string result" where
  "job_command g cmd valgrind is_python bpath =
     (let suppressions_path = path_join (NS3_BASEDIR g) [''testpy.supp''] in
      res_bind
        (if is_python then
           res_bind (py_get (PYTHON g) 0) (\<lambda>py. Inr (py @ '' '' @ path_join (NS3_BASEDIR g) [cmd]))
         else if bpath \<noteq> [] then Inr (path_join bpath [cmd])
         else Inr (path_join (NS3_BUILDDIR g) [cmd]))
        (\<lambda>path_cmd. Inr
           (if valgrind then
              ''valgrind --suppressions='' @ suppressions_path @
              '' --leak-check=full --show-reachable=yes --error-exitcode=2 --errors-for-leak-kinds=all '' @
              path_cmd
            else path_cmd)))"

definition decode_output :: "int \<Rightarrow> string \<Rightarrow> int \<times> pytext" where
  "decode_output retval out =
     (case py_decode out of Inr s \<Rightarrow> (retval, Str s) | Inl _ \<Rightarrow> (1, Bytes out))"

definition run_job_synchronously ::
  "popen \<Rightarrow> config \<Rightarrow> string \<Rightarrow> string \<Rightarrow> bool \<Rightarrow> bool \<Rightarrow> string \<Rightarrow>
     (int \<times> pytext \<times> pytext \<times> rat) result" where
  "run_job_synchronously popen g cmd directory valgrind is_python bpath =
     res_bind (job_command g cmd valgrind is_python bpath)
       (\<lambda>cmd. let p = popen cmd directory;
                  (retval1, out) = decode_output (proc_returncode p) (proc_stdout p);
                  (retval2, err) = decode_output retval1 (proc_stderr p)
              in Inr (retval2, out, err, proc_elapsed p))"

subsection \<open>The worker's loop body\<close>

text \<open>
  What \<open>worker_thread.run\<close> does with a job that is not a break, up to the \<open>put\<close> on the output
  queue; \<open>thread_exit\<close> is the value of the global when it is read.
\<close>

definition worker_body :: "popen \<Rightarrow> options \<Rightarrow> config \<Rightarrow> bool \<Rightarrow> job \<Rightarrow> job result" where
  "worker_body popen opts g thread_exit j =
     (if thread_exit then Inr (set_is_break True j)
      else if is_skip j then Inr j
      else
        res_bind
          (if is_example j \<or> is_pyexample j then
             run_job_synchronously popen g (shell_command j) (cwd j) (valgrind_opt opts)
               (is_pyexample j) (build_path j)
           else
             run_job_synchronously popen g
               (shell_command j @ '' --xml --tempdir='' @ tempdir j @ '' --out='' @ tmp_file_name j
                @ '' '' @ (if update_data opts then ''--update-data'' else ''''))
               (cwd j) (valgrind_opt opts) False '''')
          (\<lambda>(rc, standard_out, standard_err, et). Inr (set_elapsed_time et (j\<lparr>returncode := rc\<rparr>))))"

subsection \<open>Facts about jobs\<close>

lemma decode_output_code:
  "fst (decode_output r out) = (if utf8_valid out then r else 1)"
  by (simp add: decode_output_def py_decode_def)

lemma run_job_returncode:
  assumes "job_command g cmd vg py bp = Inr c"
  shows "\<exists>out err. run_job_synchronously popen g cmd dir vg py bp =
    Inr (if utf8_valid (proc_stdout (popen c dir)) \<and> utf8_valid (proc_stderr (popen c dir))
         then proc_returncode (popen c dir) else 1, out, err, proc_elapsed (popen c dir))"
  using assms by (auto simp: run_job_synchronously_def decode_output_def py_decode_def Let_def)

lemma job_command_total: "py \<longrightarrow> PYTHON g \<noteq> [] \<Longrightarrow> \<exists>c. job_command g cmd vg py bp = Inr c"
  by (cases "PYTHON g") (auto simp: job_command_def py_get_def)

definition runnable :: "config \<Rightarrow> job \<Rightarrow> bool" where
  "runnable g j \<longleftrightarrow> \<not> is_break j \<and> (is_pyexample j \<longrightarrow> is_skip j \<or> PYTHON g \<noteq> [])"

lemma worker_body_total:
  assumes "runnable g j"
  shows "\<exists>j'. worker_body popen opts g ex j = Inr j'"
proof (cases "ex \<or> is_skip j")
  case False
  have run: "\<exists>r. run_job_synchronously popen g cmd dir vg py bp = Inr r" if "py \<longrightarrow> PYTHON g \<noteq> []" for cmd dir vg py bp
    using job_command_total [OF that, of cmd vg bp] run_job_returncode [of g cmd vg py bp _ popen dir] by blast
  define r where "r = (if is_example j \<or> is_pyexample j then
       run_job_synchronously popen g (shell_command j) (cwd j) (valgrind_opt opts) (is_pyexample j) (build_path j)
     else run_job_synchronously popen g
       (shell_command j @ '' --xml --tempdir='' @ tempdir j @ '' --out='' @ tmp_file_name j
        @ '' '' @ (if update_data opts then ''--update-data'' else ''''))
       (cwd j) (valgrind_opt opts) False '''')"
  have "is_pyexample j \<longrightarrow> PYTHON g \<noteq> []" using assms False by (auto simp: runnable_def)
  then have "\<exists>x. r = Inr x" using run unfolding r_def by presburger
  then show ?thesis using False unfolding worker_body_def r_def [symmetric] by (auto split: prod.splits)
qed (auto simp: worker_body_def)

text \<open>Whatever a worker does to a job, it leaves every field but these three alone.\<close>

lemma worker_body_fields:
  assumes "worker_body popen opts g ex j = Inr j'"
  shows "j'\<lparr>is_break := b, returncode := r, elapsed_time := e\<rparr> = j\<lparr>is_break := b, returncode := r, elapsed_time := e\<rparr>"
    "is_break j' \<longleftrightarrow> ex \<or> is_break j"
  using assms by (auto simp: worker_body_def job_setters res_bind_Inr_iff split: if_splits)

text \<open>A configuration and a process for the concrete instances below.\<close>

definition sample_config :: config where
  "sample_config = \<lparr>NS3_BASEDIR = ''/ns3'', NS3_BUILDDIR = ''/ns3/build'', NS3_ENABLED_MODULES = [''ns3-core''],
     NS3_ENABLED_CONTRIBUTED_MODULES = [], NS3_MODULE_PATH = [''/ns3/build''], NSC_ENABLED = False,
     ENABLE_EXAMPLES = True, ENABLE_TESTS = True, EXAMPLE_DIRECTORIES = [''udp''],
     ENABLE_PYTHON_BINDINGS = False, APPNAME = ''ns'', BUILD_PROFILE = ''debug'',
     BUILD_PROFILE_SUFFIX = ''-debug'', VERSION = ''3'', PYTHON = [''python3''], VALGRIND_FOUND = False\<rparr>"

definition sample_popen :: popen where
  "sample_popen cmd dir = \<lparr>proc_returncode = 0, proc_stdout = ''ok'', proc_stderr = '''', proc_elapsed = 1 / 2\<rparr>"

end
