(* ===== verification/Test_Pool.thy ===== *)
theory Test_Pool
  imports Test_Job
begin

text \<open>
  \<open>src/test.py\<close>, the concurrent part of \<open>run_tests\<close>: the main thread puts the jobs and then one
  break job per worker on the input queue, the workers take jobs and put results on the output
  queue, the main thread takes as many results as it queued jobs and joins the workers.

  A state holds both FIFO queues, what each worker is doing, what the main thread still has to put
  and to get, and the flag the SIGINT handler sets. One step is one queue operation, one
  execution of the worker's loop body or one signal; the order of steps is left open, so the
  theorems hold for every interleaving. A worker whose loop body raises is gone for good.
\<close>

subsection \<open>States and steps\<close>

datatype worker = Waiting | Working job | Finished job | Exited | Died

record pool =
  pending :: "job list"
  input_queue :: "job list"
  workers :: "worker list"
  output_queue :: "job list"
  to_get :: nat
  got :: "job list"
  thread_exit :: bool

definition break_job :: job where
  "break_job = set_is_break True new_job"

definition pool_init :: "job list \<Rightarrow> nat \<Rightarrow> pool" where
  "pool_init jobs processors =
     \<lparr>pending = jobs @ replicate processors break_job, input_queue = [],
      workers = replicate processors Waiting, output_queue = [], to_get = length jobs, got = [],
      thread_exit = False\<rparr>"

definition pool_final :: "pool \<Rightarrow> bool" where
  "pool_final s \<longleftrightarrow>
     pending s = [] \<and> to_get s = 0 \<and> (\<forall>w \<in> set (workers s). w = Exited \<or> w = Died)"

inductive work_step :: "popen \<Rightarrow> options \<Rightarrow> config \<Rightarrow> pool \<Rightarrow> pool \<Rightarrow> bool"
  for popen :: popen and opts :: options and g :: config where
  main_put: "pending s = j # js \<Longrightarrow>
    work_step popen opts g s (s\<lparr>pending := js, input_queue := input_queue s @ [j]\<rparr>)"
| main_get: "pending s = [] \<Longrightarrow> to_get s = Suc n \<Longrightarrow> output_queue s = j # js \<Longrightarrow>
    work_step popen opts g s (s\<lparr>to_get := n, output_queue := js, got := got s @ [j]\<rparr>)"
| worker_take: "i < length (workers s) \<Longrightarrow> workers s ! i = Waiting \<Longrightarrow> input_queue s = j # js \<Longrightarrow>
    work_step popen opts g s
      (s\<lparr>input_queue := js, workers := (workers s)[i := if is_break j then Exited else Working j]\<rparr>)"
| worker_run: "i < length (workers s) \<Longrightarrow> workers s ! i = Working j \<Longrightarrow>
    work_step popen opts g s
      (s\<lparr>workers := (workers s)[i := case worker_body popen opts g (thread_exit s) j of
                                      Inr j' \<Rightarrow> Finished j' | Inl _ \<Rightarrow> Died]\<rparr>)"
| worker_put: "i < length (workers s) \<Longrightarrow> workers s ! i = Finished j \<Longrightarrow>
    work_step popen opts g s
      (s\<lparr>workers := (workers s)[i := Waiting], output_queue := output_queue s @ [j]\<rparr>)"

inductive pool_step :: "popen \<Rightarrow> options \<Rightarrow> config \<Rightarrow> pool \<Rightarrow> pool \<Rightarrow> bool"
  for popen :: popen and opts :: options and g :: config where
  work: "work_step popen opts g s t \<Longrightarrow> pool_step popen opts g s t"
| sigint_hook: "\<not> thread_exit s \<Longrightarrow> pool_step popen opts g s (s\<lparr>thread_exit := True\<rparr>)"

inductive_cases work_stepE: "work_step popen opts g s t"
inductive_cases pool_stepE: "pool_step popen opts g s t"

subsection \<open>The invariant\<close>

fun working :: "worker \<Rightarrow> job list" where
  "working (Working j) = [j]"
| "working _ = []"

fun finished :: "worker \<Rightarrow> job list" where
  "finished (Finished j) = [j]"
| "finished _ = []"

definition handled :: "popen \<Rightarrow> options \<Rightarrow> config \<Rightarrow> bool \<Rightarrow> job \<Rightarrow> job \<Rightarrow> bool" where
  "handled popen opts g interrupted j j' \<longleftrightarrow>
     (\<exists>ex. (ex \<longrightarrow> interrupted) \<and> worker_body popen opts g ex j = Inr j')"

definition alive :: "worker list \<Rightarrow> nat" where
  "alive ws = length (filter (\<lambda>w. w \<noteq> Exited) ws)"

definition pool_inv :: "popen \<Rightarrow> options \<Rightarrow> config \<Rightarrow> job list \<Rightarrow> nat \<Rightarrow> pool \<Rightarrow> bool" where
  "pool_inv popen opts g jobs n s \<longleftrightarrow>
     length (workers s) = n \<and> Died \<notin> set (workers s) \<and> to_get s + length (got s) = length jobs
   \<and> (\<forall>j \<in> set jobs. runnable g j)
   \<and> (\<exists>rest M. input_queue s @ pending s = rest @ replicate (alive (workers s)) break_job
        \<and> (Exited \<in> set (workers s) \<longrightarrow> rest = [])
        \<and> mset jobs = mset rest + mset (concat (map working (workers s))) + M
        \<and> rel_mset (handled popen opts g (thread_exit s)) M
            (mset (concat (map finished (workers s))) + mset (output_queue s) + mset (got s)))"

definition pool_size :: "pool \<Rightarrow> nat" where
  "pool_size s = 5 * length (pending s) + 4 * length (input_queue s) + length (output_queue s)
     + 3 * length (concat (map working (workers s))) + 2 * length (concat (map finished (workers s)))
     + (if thread_exit s then 0 else 1)"

lemma mset_concat_update:
  "i < length ws \<Longrightarrow> mset (concat (map f (ws[i := w]))) + mset (f (ws ! i)) = mset (concat (map f ws)) + mset (f w)"
proof (induction ws arbitrary: i)
  case (Cons v ws)
  then show ?case by (cases i) (auto simp: ac_simps)
qed simp

lemma length_concat_update:
  "i < length ws \<Longrightarrow> length (concat (map f (ws[i := w]))) + length (f (ws ! i)) = length (concat (map f ws)) + length (f w)"
  using mset_concat_update [of i ws f w] by (metis size_mset size_union)

lemma alive_Cons: "alive (w # ws) = (if w = Exited then 0 else 1) + alive ws"
  by (simp add: alive_def)

lemma alive_update:
  "i < length ws \<Longrightarrow> alive (ws[i := w]) + (if ws ! i = Exited then 0 else 1) = alive ws + (if w = Exited then 0 else 1)"
proof (induction ws arbitrary: i)
  case (Cons v ws)
  then show ?case by (cases i) (simp_all add: alive_Cons)
qed simp

lemma pool_size_step: "pool_step popen opts g s t \<Longrightarrow> pool_size t < pool_size s"
proof (erule pool_stepE)
  assume "work_step popen opts g s t"
  then show ?thesis
  proof cases
    case (worker_take i j js)
    then show ?thesis
      using length_concat_update [of i "workers s" working "if is_break j then Exited else Working j"]
        length_concat_update [of i "workers s" finished "if is_break j then Exited else Working j"]
      by (auto simp: pool_size_def)
  next
    case (worker_run i j)
    let ?w = "case worker_body popen opts g (thread_exit s) j of Inr j' \<Rightarrow> Finished j' | Inl _ \<Rightarrow> Died"
    have "length (working ?w) = 0" "length (finished ?w) \<le> 1" by (auto split: sum.splits)
    then show ?thesis
      using worker_run length_concat_update [of i "workers s" working ?w]
        length_concat_update [of i "workers s" finished ?w]
      by (auto simp: pool_size_def)
  next
    case (worker_put i j)
    then show ?thesis
      using length_concat_update [of i "workers s" working Waiting]
        length_concat_update [of i "workers s" finished Waiting]
      by (auto simp: pool_size_def)
  qed (auto simp: pool_size_def)
qed (auto simp: pool_size_def)

lemma pool_inv_init:
  assumes "\<forall>j \<in> set jobs. runnable g j"
  shows "pool_inv popen opts g jobs n (pool_init jobs n)"
proof -
  have "concat (map working (replicate n Waiting)) = []" "concat (map finished (replicate n Waiting)) = []"
    "alive (replicate n Waiting) = n" by (auto simp: alive_def)
  then show ?thesis using assms
    by (auto simp: pool_inv_def pool_init_def rel_mset_Zero intro!: exI [of _ jobs] exI [of _ "{#}"])
qed

lemma pool_inv_take:
  assumes inv: "pool_inv popen opts g jobs n s"
    and i: "i < length (workers s)" "workers s ! i = Waiting" "input_queue s = j # js"
  shows "pool_inv popen opts g jobs n
    (s\<lparr>input_queue := js, workers := (workers s)[i := if is_break j then Exited else Working j]\<rparr>)"
proof -
  let ?w = "if is_break j then Exited else Working j" and ?ws = "workers s"
  obtain rest M where r: "input_queue s @ pending s = rest @ replicate (alive ?ws) break_job"
      "Exited \<in> set ?ws \<longrightarrow> rest = []" "mset jobs = mset rest + mset (concat (map working ?ws)) + M"
      "rel_mset (handled popen opts g (thread_exit s)) M (mset (concat (map finished ?ws)) + mset (output_queue s) + mset (got s))"
    and d: "length ?ws = n" "Died \<notin> set ?ws" "to_get s + length (got s) = length jobs" "\<forall>j \<in> set jobs. runnable g j"
    using inv by (auto simp: pool_inv_def)
  have f: "mset (concat (map finished (?ws[i := ?w]))) = mset (concat (map finished ?ws))"
    using mset_concat_update [OF i(1), of finished ?w] i(2) by simp
  have died: "Died \<notin> set (?ws[i := ?w])" using d(2) set_update_subset_insert [of ?ws i ?w] by auto
  show ?thesis
  proof (cases rest)
    case Nil
    then obtain k where k: "alive ?ws = Suc k" "j = break_job" "js @ pending s = replicate k break_job"
      using r(1) i(3) by (cases "alive ?ws") auto
    then have b: "is_break j" by (simp add: break_job_def job_setters)
    have "alive (?ws[i := Exited]) = k" using alive_update [OF i(1), of Exited] i(2) k(1) by simp
    moreover have "mset (concat (map working (?ws[i := Exited]))) = mset (concat (map working ?ws))"
      using mset_concat_update [OF i(1), of working Exited] i(2) by simp
    ultimately show ?thesis using r Nil d died f b k(3)
      by (auto simp: pool_inv_def intro!: exI [of _ M])
  next
    case (Cons j' rest')
    then have j: "j' = j" "js @ pending s = rest' @ replicate (alive ?ws) break_job" using r(1) i(3) by auto
    have "j \<in># mset jobs" using r(3) Cons j(1) by simp
    then have nb: "\<not> is_break j" using d(4) by (auto simp: runnable_def)
    have "alive (?ws[i := Working j]) = alive ?ws" using alive_update [OF i(1), of "Working j"] i(2) by simp
    moreover have "mset (concat (map working (?ws[i := Working j]))) = add_mset j (mset (concat (map working ?ws)))"
      using mset_concat_update [OF i(1), of working "Working j"] i(2) by simp
    moreover have "Exited \<notin> set (?ws[i := Working j])"
      using r(2) Cons set_update_subset_insert [of ?ws i "Working j"] by auto
    ultimately show ?thesis using r Cons d died f nb j
      by (auto simp: pool_inv_def intro!: exI [of _ rest'] exI [of _ M])
  qed
qed

lemma pool_inv_run:
  assumes inv: "pool_inv popen opts g jobs n s"
    and i: "i < length (workers s)" "workers s ! i = Working j"
  shows "pool_inv popen opts g jobs n
    (s\<lparr>workers := (workers s)[i := case worker_body popen opts g (thread_exit s) j of
                                      Inr j' \<Rightarrow> Finished j' | Inl _ \<Rightarrow> Died]\<rparr>)"
proof -
  let ?ws = "workers s"
  obtain rest M where r: "input_queue s @ pending s = rest @ replicate (alive ?ws) break_job"
      "Exited \<in> set ?ws \<longrightarrow> rest = []" "mset jobs = mset rest + mset (concat (map working ?ws)) + M"
      "rel_mset (handled popen opts g (thread_exit s)) M (mset (concat (map finished ?ws)) + mset (output_queue s) + mset (got s))"
    and d: "length ?ws = n" "Died \<notin> set ?ws" "to_get s + length (got s) = length jobs" "\<forall>j \<in> set jobs. runnable g j"
    using inv by (auto simp: pool_inv_def)
  have "Working j \<in> set ?ws" using i by (metis nth_mem)
  then have "j \<in># mset (concat (map working ?ws))" by force
  then have "j \<in># mset jobs" using r(3) by simp
  then obtain j' where j': "worker_body popen opts g (thread_exit s) j = Inr j'"
    using worker_body_total d(4) by (metis set_mset_mset)
  let ?ws' = "?ws[i := Finished j']"
  have w: "mset (concat (map working ?ws)) = add_mset j (mset (concat (map working ?ws')))"
    using mset_concat_update [OF i(1), of working "Finished j'"] i(2) by simp
  have f: "mset (concat (map finished ?ws')) = add_mset j' (mset (concat (map finished ?ws)))"
    using mset_concat_update [OF i(1), of finished "Finished j'"] i(2) by simp
  have "alive ?ws' = alive ?ws" using alive_update [OF i(1), of "Finished j'"] i(2) by simp
  moreover have "handled popen opts g (thread_exit s) j j'" using j' by (auto simp: handled_def)
  then have "rel_mset (handled popen opts g (thread_exit s)) (add_mset j M)
      (mset (concat (map finished ?ws')) + mset (output_queue s) + mset (got s))"
    using rel_mset_Plus [OF _ r(4)] by (simp add: f)
  moreover have "mset jobs = mset rest + mset (concat (map working ?ws')) + add_mset j M"
    using r(3) w by simp
  moreover have "Died \<notin> set ?ws'" "Exited \<in> set ?ws' \<longrightarrow> rest = []"
    using d(2) r(2) set_update_subset_insert [of ?ws i "Finished j'"] by auto
  ultimately show ?thesis using r(1) d j' unfolding pool_inv_def
    by (intro conjI exI [of _ rest] exI [of _ "add_mset j M"]) simp_all
qed

lemma pool_inv_put:
  assumes inv: "pool_inv popen opts g jobs n s"
    and i: "i < length (workers s)" "workers s ! i = Finished j"
  shows "pool_inv popen opts g jobs n
    (s\<lparr>workers := (workers s)[i := Waiting], output_queue := output_queue s @ [j]\<rparr>)"
proof -
  let ?ws = "workers s" and ?ws' = "(workers s)[i := Waiting]"
  obtain rest M where r: "input_queue s @ pending s = rest @ replicate (alive ?ws) break_job"
      "Exited \<in> set ?ws \<longrightarrow> rest = []" "mset jobs = mset rest + mset (concat (map working ?ws)) + M"
      "rel_mset (handled popen opts g (thread_exit s)) M (mset (concat (map finished ?ws)) + mset (output_queue s) + mset (got s))"
    and d: "length ?ws = n" "Died \<notin> set ?ws" "to_get s + length (got s) = length jobs" "\<forall>j \<in> set jobs. runnable g j"
    using inv by (auto simp: pool_inv_def)
  have w: "mset (concat (map working ?ws)) = mset (concat (map working ?ws'))"
    using mset_concat_update [OF i(1), of working Waiting] i(2) by simp
  have f: "mset (concat (map finished ?ws)) = add_mset j (mset (concat (map finished ?ws')))"
    using mset_concat_update [OF i(1), of finished Waiting] i(2) by simp
  have "alive ?ws' = alive ?ws" using alive_update [OF i(1), of Waiting] i(2) by simp
  moreover have "Died \<notin> set ?ws'" "Exited \<in> set ?ws' \<longrightarrow> rest = []"
    using d(2) r(2) set_update_subset_insert [of ?ws i Waiting] by auto
  moreover have "rel_mset (handled popen opts g (thread_exit s)) M
      (mset (concat (map finished ?ws')) + mset (output_queue s @ [j]) + mset (got s))"
    using r(4) by (simp add: f)
  ultimately show ?thesis using r(1,3) d w unfolding pool_inv_def
    by (intro conjI exI [of _ rest] exI [of _ M]) simp_all
qed

lemma pool_inv_step:
  assumes "pool_inv popen opts g jobs n s" "pool_step popen opts g s t"
  shows "pool_inv popen opts g jobs n t"
  using assms(2)
proof (rule pool_stepE)
  assume "work_step popen opts g s t"
  then show ?thesis
  proof cases
    case (main_put j js)
    then show ?thesis using assms(1) by (simp add: pool_inv_def)
  next
    case (main_get k j js)
    then show ?thesis using assms(1) by (simp add: pool_inv_def)
  next
    case (worker_take i j js)
    then show ?thesis using pool_inv_take [OF assms(1)] by simp
  next
    case (worker_run i j)
    then show ?thesis using pool_inv_run [OF assms(1)] by simp
  next
    case (worker_put i j)
    then show ?thesis using pool_inv_put [OF assms(1)] by simp
  qed
next
  assume t: "t = s\<lparr>thread_exit := True\<rparr>"
  have "handled popen opts g (thread_exit s) \<le> handled popen opts g True" by (auto simp: handled_def)
  then have "rel_mset (handled popen opts g (thread_exit s)) M N \<Longrightarrow> rel_mset (handled popen opts g True) M N" for M N
    using multiset.rel_mono by blast
  then show ?thesis using assms(1) t by (fastforce simp: pool_inv_def)
qed

lemma all_exited:
  assumes "pool_inv popen opts g jobs n s" "\<forall>w \<in> set (workers s). w = Exited" "n > 0 \<or> jobs = []"
  shows "rel_mset (handled popen opts g (thread_exit s)) (mset jobs) (mset (output_queue s) + mset (got s))"
    "length (output_queue s) = to_get s"
proof -
  have c: "concat (map working (workers s)) = []" "concat (map finished (workers s)) = []"
    using assms(2) by auto
  obtain rest M where r: "Exited \<in> set (workers s) \<longrightarrow> rest = []" "mset jobs = mset rest + M"
      "rel_mset (handled popen opts g (thread_exit s)) M (mset (output_queue s) + mset (got s))"
    and d: "length (workers s) = n" "to_get s + length (got s) = length jobs"
    using assms(1) unfolding pool_inv_def c by auto
  have "rest = []" using r(1,2) d(1) assms(2,3) by (cases "workers s") auto
  then show rel: "rel_mset (handled popen opts g (thread_exit s)) (mset jobs) (mset (output_queue s) + mset (got s))" using r by simp
  have "length jobs = length (output_queue s) + length (got s)"
    using rel_mset_size [OF rel] by simp
  with d(2) show "length (output_queue s) = to_get s" by simp
qed

lemma pool_progress:
  assumes inv: "pool_inv popen opts g jobs n s" and n: "n > 0 \<or> jobs = []" and nf: "\<not> pool_final s"
  shows "\<exists>t. work_step popen opts g s t"
proof (cases "pending s")
  case (Cons j js)
  then show ?thesis using main_put by blast
next
  case Nil
  show ?thesis
  proof (cases "\<forall>w \<in> set (workers s). w = Exited")
    case True
    then have "to_get s \<noteq> 0" using nf Nil by (simp add: pool_final_def)
    then obtain k j js where "to_get s = Suc k" "output_queue s = j # js"
      using all_exited(2) [OF inv True n] by (cases "output_queue s"; cases "to_get s") auto
    then show ?thesis using Nil main_get by blast
  next
    case False
    then obtain i where i: "i < length (workers s)" "workers s ! i \<noteq> Exited" by (auto simp: in_set_conv_nth)
    have "workers s ! i \<noteq> Died" using inv i(1) nth_mem by (fastforce simp: pool_inv_def)
    then consider "workers s ! i = Waiting" | j where "workers s ! i = Working j" | j where "workers s ! i = Finished j"
      using i(2) by (cases "workers s ! i") auto
    then show ?thesis
    proof cases
      case 1
      have "workers s ! i \<in> set (filter (\<lambda>w. w \<noteq> Exited) (workers s))" using i by simp
      then have "alive (workers s) > 0" unfolding alive_def by (metis length_pos_if_in_set)
      then have "input_queue s \<noteq> []" using inv Nil by (auto simp: pool_inv_def)
      then show ?thesis using worker_take [OF i(1) 1] by (cases "input_queue s") blast+
    qed (use i worker_run worker_put in blast)+
  qed
qed

interpretation pool_sys: terminating_system
  "pool_step popen opts g" "\<lambda>s. pool_inv popen opts g jobs n s \<and> (n > 0 \<or> jobs = [])" pool_size
  "work_step popen opts g" pool_final
  for popen opts g jobs n
  by unfold_locales (auto intro: pool_inv_step pool_size_step pool_step.work pool_progress)

lemma pool_final_exited:
  "pool_inv popen opts g jobs n s \<Longrightarrow> pool_final s \<Longrightarrow> \<forall>w \<in> set (workers s). w = Exited"
  by (auto simp: pool_inv_def pool_final_def)

subsection \<open>What a run of the pool delivers\<close>



definition one_job :: job where
  "one_job = set_display_name ''one'' (set_shell_command ''utils/runner'' new_job)"


text \<open>
  C2. When the pool has come to its end, the results the main thread has collected are the queued
  jobs, each exactly once, as a worker left them: no job is lost, duplicated or invented under
  any interleaving, no result is left on a queue, and without a SIGINT none of them is a break.
\<close>
theorem pool_delivers_each_job_once:
  assumes "\<forall>j \<in> set jobs. runnable g j" "0 < n"
    and "(pool_step popen opts g)\<^sup>*\<^sup>* (pool_init jobs n) s" "pool_final s"
  shows "rel_mset (\<lambda>j j'. \<exists>ex. (ex \<longrightarrow> thread_exit s) \<and> worker_body popen opts g ex j = Inr j')
      (mset jobs) (mset (got s)) \<and> input_queue s = [] \<and> output_queue s = []"
proof -
  have i: "pool_inv popen opts g jobs n s"
    using pool_sys.inv_reachable [OF assms(3), of jobs n] pool_inv_init assms(1,2) by blast
  note ex = pool_final_exited [OF i assms(4)]
  have n: "n > 0 \<or> jobs = []" using assms(2) by simp
  have o: "output_queue s = []" using all_exited(2) [OF i ex n] assms(4) by (simp add: pool_final_def)
  have "alive (workers s) = 0" using ex by (simp add: alive_def)
  moreover have "Exited \<in> set (workers s)" using ex i assms(2) by (cases "workers s") (auto simp: pool_inv_def)
  ultimately have "input_queue s = []" using i assms(4) by (auto simp: pool_inv_def pool_final_def)
  with all_exited(1) [OF i ex n] o show ?thesis by (simp add: handled_def [abs_def])
qed

lemma work_steps_pool: "(work_step popen opts g)\<^sup>*\<^sup>* s t \<Longrightarrow> (pool_step popen opts g)\<^sup>*\<^sup>* s t"
  by (induction rule: rtranclp_induct) (auto intro: rtranclp.rtrancl_into_rtrancl pool_step.work)

theorem pool_delivers_each_job_once_witness:
  "\<exists>s. (pool_step sample_popen default_options sample_config)\<^sup>*\<^sup>* (pool_init [one_job] 2) s \<and> pool_final s
     \<and> rel_mset (handled sample_popen default_options sample_config (thread_exit s)) (mset [one_job]) (mset (got s))"
proof -
  have r: "\<forall>j \<in> set [one_job]. runnable sample_config j"
    by (simp add: runnable_def one_job_def new_job_def job_setters)
  obtain s where s: "(work_step sample_popen default_options sample_config)\<^sup>*\<^sup>* (pool_init [one_job] 2) s" "pool_final s"
    using pool_sys.reaches_final [of sample_popen default_options sample_config "[one_job]" 2 "pool_init [one_job] 2"]
      pool_inv_init [OF r] by auto
  from pool_delivers_each_job_once [OF r zero_less_numeral work_steps_pool [OF s(1)] s(2)] show ?thesis
    using work_steps_pool [OF s(1)] s(2) unfolding handled_def [abs_def] by blast
qed

subsection \<open>A worker that raises\<close>

definition pool_count :: "job list \<Rightarrow> pool \<Rightarrow> bool" where
  "pool_count jobs s \<longleftrightarrow>
     length (filter (\<lambda>j. \<not> is_break j) (input_queue s @ pending s)) + length (concat (map working (workers s)))
       + length (concat (map finished (workers s))) + length (output_queue s) + length (got s)
       + count_list (workers s) Died = length jobs
   \<and> to_get s + length (got s) = length jobs"

lemma count_list_update:
  "i < length xs \<Longrightarrow> count_list (xs[i := y]) x + (if xs ! i = x then 1 else 0) = count_list xs x + (if y = x then 1 else 0)"
proof (induction xs arbitrary: i)
  case (Cons a xs)
  show ?case
  proof (cases i)
    case (Suc k)
    then have "k < length xs" using Cons.prems by simp
    from Cons.IH [OF this] Suc show ?thesis by (auto split: if_splits)
  qed simp
qed simp

lemma pool_count_step:
  assumes "pool_count jobs s" "pool_step popen opts g s t"
  shows "pool_count jobs t"
  using assms(2)
proof (rule pool_stepE)
  assume "work_step popen opts g s t"
  then show ?thesis
  proof cases
    case (worker_take i j js)
    let ?w = "if is_break j then Exited else Working j"
    show ?thesis
      using worker_take assms(1) length_concat_update [OF worker_take(2), of working ?w]
        length_concat_update [OF worker_take(2), of finished ?w] count_list_update [OF worker_take(2), of ?w Died]
      by (auto simp: pool_count_def)
  next
    case (worker_run i j)
    let ?w = "case worker_body popen opts g (thread_exit s) j of Inr j' \<Rightarrow> Finished j' | Inl _ \<Rightarrow> Died"
    have "length (working ?w) = 0 \<and> length (finished ?w) + (if ?w = Died then 1 else 0) = 1" by (auto split: sum.splits)
    then show ?thesis
      using worker_run assms(1) length_concat_update [OF worker_run(2), of working ?w]
        length_concat_update [OF worker_run(2), of finished ?w] count_list_update [OF worker_run(2), of ?w Died]
      by (simp add: pool_count_def)
  next
    case (worker_put i j)
    then show ?thesis
      using assms(1) length_concat_update [OF worker_put(2), of working Waiting]
        length_concat_update [OF worker_put(2), of finished Waiting] count_list_update [OF worker_put(2), of Waiting Died]
      by (auto simp: pool_count_def)
  qed (use assms(1) in \<open>auto simp: pool_count_def\<close>)
qed (use assms(1) in \<open>auto simp: pool_count_def\<close>)

interpretation pool_counts: invariant_system "pool_step popen opts g" "pool_count jobs"
  for popen opts g jobs
  by unfold_locales (rule pool_count_step)

lemma in_set_update: "x \<in> set ws \<Longrightarrow> ws ! i \<noteq> x \<Longrightarrow> x \<in> set (ws[i := w])"
  by (metis in_set_conv_nth length_list_update nth_list_update_neq)

lemma died_stays: "pool_step popen opts g s t \<Longrightarrow> Died \<in> set (workers s) \<Longrightarrow> Died \<in> set (workers t)"
  by (auto elim!: pool_stepE work_stepE intro!: in_set_update)

text \<open>
  A job whose execution raises in the worker (a Python example when the configuration gave no
  Python interpreter, so that \<open>PYTHON[0]\<close> is an \<open>IndexError\<close>) is never reported: once the worker has
  died, the main thread can never collect all the results it waits for, so \<open>run_tests\<close> blocks in
  \<open>output_queue.get()\<close> for ever.
\<close>
theorem dead_worker_blocks_main:
  assumes "\<forall>j \<in> set jobs. \<not> is_break j"
    and "(pool_step popen opts g)\<^sup>*\<^sup>* (pool_init jobs n) s" "Died \<in> set (workers s)"
    and "(pool_step popen opts g)\<^sup>*\<^sup>* s t"
  shows "0 < to_get t \<and> \<not> pool_final t"
proof -
  have c: "concat (map working (replicate n Waiting)) = []" "concat (map finished (replicate n Waiting)) = []"
    "count_list (replicate n Waiting) Died = 0" "filter (\<lambda>j. \<not> is_break j) jobs = jobs"
    using assms(1) by (auto simp: count_list_0_iff filter_id_conv)
  have "pool_count jobs (pool_init jobs n)"
    unfolding pool_count_def pool_init_def using c by (simp add: break_job_def job_setters)
  then have s: "pool_count jobs s" "pool_count jobs t"
    using pool_counts.inv_reachable assms(2,4) by (meson rtranclp_trans)+
  have "Died \<in> set (workers t)" using assms(4,3)
    by (induction rule: rtranclp_induct) (auto dest: died_stays)
  then have "count_list (workers t) Died > 0" using count_list_0_iff [of "workers t" Died] by auto
  with s(2) show ?thesis by (auto simp: pool_count_def pool_final_def)
qed


definition no_python :: config where
  "no_python = sample_config\<lparr>PYTHON := []\<rparr>"

definition py_job :: job where
  "py_job = set_shell_command ''ex.py'' (set_is_pyexample True new_job)"

theorem dead_worker_blocks_main_witness:
  "\<exists>s. (pool_step sample_popen default_options no_python)\<^sup>*\<^sup>* (pool_init [py_job] 1) s \<and> Died \<in> set (workers s)
     \<and> 0 < to_get s \<and> \<not> pool_final s"
proof -
  let ?step = "pool_step sample_popen default_options no_python"
  define s0 where "s0 = pool_init [py_job] 1"
  define s1 where "s1 = s0\<lparr>pending := [break_job], input_queue := [py_job]\<rparr>"
  define s2 where "s2 = s1\<lparr>input_queue := [], workers := [Working py_job]\<rparr>"
  define s3 where "s3 = s2\<lparr>workers := [Died]\<rparr>"
  have nb: "\<not> is_break py_job" by (simp add: py_job_def new_job_def job_setters)
  have raises: "worker_body sample_popen default_options no_python False py_job = Inl IndexError"
    by (simp add: worker_body_def py_job_def new_job_def job_setters run_job_synchronously_def job_command_def
        no_python_def py_get_def)
  have "?step s0 s1"
    using work [OF main_put, of s0 py_job "[break_job]"] by (simp add: s0_def s1_def pool_init_def)
  moreover have "?step s1 s2"
    using work [OF worker_take, of 0 s1 py_job "[]"] nb by (simp add: s0_def s1_def s2_def pool_init_def)
  moreover have "?step s2 s3"
    using work [OF worker_run, of 0 s2 py_job sample_popen default_options no_python] raises
    by (simp add: s0_def s1_def s2_def s3_def pool_init_def)
  ultimately have reach: "?step\<^sup>*\<^sup>* s0 s3" by (meson converse_rtranclp_into_rtranclp rtranclp.rtrancl_refl)
  have died: "Died \<in> set (workers s3)" by (simp add: s3_def)
  have "\<forall>j \<in> set [py_job]. \<not> is_break j" using nb by simp
  from dead_worker_blocks_main [OF this reach [unfolded s0_def] died rtranclp.rtrancl_refl] reach died show ?thesis
    unfolding s0_def by blast
qed

end
