(* ===== verification/Config_File.thy ===== *)
theory Config_File
  imports Py_Path
begin

text \<open>
  \<open>src/utils.py\<close>: reading one list or one Boolean out of a Python file, and the \<open>.ns3rc\<close>
  configuration. A file system is a partial map from paths to lists of lines (each with its
  newline); the built-in \<open>eval\<close> on the text of a literal is a parameter.
\<close>

type_synonym files = "string \<Rightarrow> string list option"

definition strip_comment :: "string \<Rightarrow> string" where
  "strip_comment line = (if CHR ''#'' \<in> set line then takeWhile (\<lambda>c. c \<noteq> CHR ''#'') line else line)"

text \<open>\<open>s.split('=', 1)[1].strip()\<close>\<close>

definition rhs_text :: "string \<Rightarrow> string result" where
  "rhs_text s = res_bind (py_get (py_split1 (CHR ''='') s) 1) (\<lambda>r. Inr (py_strip r))"

subsection \<open>Lists\<close>

fun list_lines :: "(string \<Rightarrow> 'v list result) \<Rightarrow> string \<Rightarrow> string \<Rightarrow> bool \<Rightarrow> string list \<Rightarrow> 'v list result" where
  "list_lines eval_list list_name list_string parsing_multiline_list [] = Inr []"
| "list_lines eval_list list_name list_string parsing_multiline_list (line # lines) =
     (let line = strip_comment line in
      if py_contains list_name line \<or> parsing_multiline_list then
        let list_string = list_string @ line in
        if CHR '']'' \<notin> set list_string then list_lines eval_list list_name list_string True lines
        else res_bind (rhs_text list_string) eval_list
      else list_lines eval_list list_name list_string parsing_multiline_list lines)"

definition get_list_from_file ::
  "files \<Rightarrow> (string \<Rightarrow> 'v list result) \<Rightarrow> string \<Rightarrow> string \<Rightarrow> 'v list result" where
  "get_list_from_file fs eval_list file_path list_name =
     (case fs file_path of
        None \<Rightarrow> Inr []
      | Some lines \<Rightarrow> list_lines eval_list list_name '''' False lines)"

subsection \<open>Booleans\<close>

fun bool_lines :: "(string \<Rightarrow> 'v result) \<Rightarrow> string \<Rightarrow> string list \<Rightarrow> 'v option result" where
  "bool_lines eval_value bool_name [] = Inr None"
| "bool_lines eval_value bool_name (line # lines) =
     (let line = strip_comment line in
      if py_contains bool_name line then
        res_bind (rhs_text line) (\<lambda>r. res_bind (eval_value r) (\<lambda>v. Inr (Some v)))
      else bool_lines eval_value bool_name lines)"

definition get_bool_from_file ::
  "files \<Rightarrow> (string \<Rightarrow> 'v result) \<Rightarrow> string \<Rightarrow> string \<Rightarrow> 'v \<Rightarrow> 'v result" where
  "get_bool_from_file fs eval_value file_path bool_name value_if_missing =
     (case fs file_path of
        None \<Rightarrow> Inl UnboundLocalError
      | Some lines \<Rightarrow>
          res_bind (bool_lines eval_value bool_name lines)
            (\<lambda>found. Inr (case found of None \<Rightarrow> value_if_missing | Some v \<Rightarrow> v)))"

subsection \<open>The configuration file\<close>


subsection \<open>What is read\<close>

lemma list_lines_skip:
  assumes "\<And>l. l \<in> set pre \<Longrightarrow> \<not> py_contains name (strip_comment l)"
  shows "list_lines ev name str False (pre @ lines) = list_lines ev name str False lines"
  using assms by (induction pre) (simp_all add: Let_def)

lemma list_lines_open:
  assumes "CHR '']'' \<notin> set str" "\<And>l. l \<in> set ls \<Longrightarrow> CHR '']'' \<notin> set (strip_comment l)"
  shows "list_lines ev name str True (ls @ lines) = list_lines ev name (str @ concat (map strip_comment ls)) True lines"
  using assms by (induction ls arbitrary: str) (simp_all add: Let_def)

lemma rhs_text_definition:
  assumes "CHR ''='' \<notin> set lhs"
  shows "rhs_text (lhs @ CHR ''='' # rhs) = Inr (py_strip rhs)"
  using assms by (simp add: rhs_text_def py_split1_append py_get_def)

text \<open>
  \<open>get_list_from_file\<close> returns the value of the definition of the list and of nothing else: when no
  earlier line mentions the name outside a comment, the first line of the definition does, and the
  closing bracket is in its last line, the text evaluated is what follows the first equals sign of the
  definition with all comments removed, and the rest of the file is not looked at.
\<close>
theorem get_list_from_file_reads_definition:
  assumes "fs path = Some (pre @ (first # mid) @ post)"
    and "\<forall>l \<in> set pre. \<not> py_contains name (strip_comment l)"
    and "py_contains name (strip_comment first)"
    and "concat (map strip_comment (first # mid)) = lhs @ CHR ''='' # rhs" "CHR ''='' \<notin> set lhs"
    and "\<forall>l \<in> set (butlast (first # mid)). CHR '']'' \<notin> set (strip_comment l)"
    and "CHR '']'' \<in> set (strip_comment (last (first # mid)))"
  shows "get_list_from_file fs ev path name = ev (py_strip rhs)"
proof -
  have "get_list_from_file fs ev path name = list_lines ev name '''' False (first # mid @ post)"
    using assms(1) list_lines_skip [of pre name ev "''''" "first # mid @ post"] assms(2)
    by (simp add: get_list_from_file_def)
  also have "\<dots> = ev (py_strip rhs)"
  proof (cases mid rule: rev_exhaust)
    case Nil
    then show ?thesis using assms(3-7) rhs_text_definition [OF assms(5), of rhs] by (simp add: Let_def)
  next
    case (snoc mid' lst)
    have nb: "CHR '']'' \<notin> set (strip_comment first)" "\<And>l. l \<in> set mid' \<Longrightarrow> CHR '']'' \<notin> set (strip_comment l)"
      "CHR '']'' \<in> set (strip_comment lst)"
      using assms(6,7) by (auto simp: snoc butlast_append)
    have "list_lines ev name '''' False (first # mid @ post)
        = list_lines ev name (strip_comment first @ concat (map strip_comment mid')) True (lst # post)"
      using nb assms(3) list_lines_open [of "strip_comment first" mid' ev name "lst # post"]
      by (simp add: snoc Let_def)
    also have "\<dots> = res_bind (rhs_text (lhs @ CHR ''='' # rhs)) ev"
      using nb(3) assms(4) by (simp add: snoc Let_def)
    finally show ?thesis using rhs_text_definition [OF assms(5), of rhs] by simp
  qed
  finally show ?thesis .
qed

theorem get_list_from_file_reads_definition_witness:
  "get_list_from_file ((\<lambda>_. None)(''f'' := Some [''# mods
'', ''mods = ['', ''1, # one
'', ''2]
'', ''x = [3]'']))
     (\<lambda>s. Inr [s]) ''f'' ''mods'' = Inr [''[1, 2]'']"
proof -
  have "get_list_from_file ((\<lambda>_. None)(''f'' := Some [''# mods
'', ''mods = ['', ''1, # one
'', ''2]
'', ''x = [3]'']))
     (\<lambda>s. Inr [s]) ''f'' ''mods'' = Inr [py_strip '' [1, 2]
'']"
    by (rule get_list_from_file_reads_definition [where pre = "[''# mods
'']" and first = "''mods = [''" and mid = "[''1, # one
'', ''2]
'']" and post = "[''x = [3]'']" and lhs = "''mods ''"]) code_simp+
  then show ?thesis by code_simp
qed

lemma get_list_from_file_missing:
  "fs path = None \<or> (\<exists>lines. fs path = Some lines \<and> (\<forall>l \<in> set lines. \<not> py_contains name (strip_comment l))) \<Longrightarrow>
     get_list_from_file fs ev path name = Inr []"
  using list_lines_skip [of _ name ev "''''" "[]"] by (auto simp: get_list_from_file_def)

lemma bool_lines_missing:
  "(\<And>l. l \<in> set lines \<Longrightarrow> \<not> py_contains name (strip_comment l)) \<Longrightarrow> bool_lines ev name lines = Inr None"
  by (induction lines) (simp_all add: Let_def)

lemma bool_lines_found:
  assumes "\<And>l. l \<in> set pre \<Longrightarrow> \<not> py_contains name (strip_comment l)"
    and "strip_comment l = lhs @ CHR ''='' # rhs" "CHR ''='' \<notin> set lhs" "py_contains name (strip_comment l)"
  shows "bool_lines ev name (pre @ l # post) = res_bind (ev (py_strip rhs)) (\<lambda>v. Inr (Some v))"
  using assms(1) assms(2-) rhs_text_definition [OF assms(3), of rhs] by (induction pre) (simp_all add: Let_def)

text \<open>
  \<open>get_bool_from_file\<close> returns the given default when the file exists and never mentions the name
  outside a comment. When the file does not exist it raises \<open>UnboundLocalError\<close>, because \<open>bool_found\<close> is
  only set inside the branch for an existing file; its documentation promises the default there too.
\<close>
theorem get_bool_from_file_default:
  "get_bool_from_file ((\<lambda>_. None)(present := Some lines)) ev path name d =
     (if path \<noteq> present then Inl UnboundLocalError
      else if list_ex (\<lambda>l. py_contains name (strip_comment l)) lines
        then res_bind (bool_lines ev name lines) (\<lambda>r. Inr (case r of None \<Rightarrow> d | Some v \<Rightarrow> v))
      else Inr d)"
proof -
  have "bool_lines ev name lines = Inr None" if "\<not> list_ex (\<lambda>l. py_contains name (strip_comment l)) lines"
    using that by (intro bool_lines_missing) (auto simp: list_ex_iff)
  then show ?thesis by (auto simp: get_bool_from_file_def)
qed












end
