(* ===== verification/Test_Config.thy ===== *)
theory Test_Config
  imports Test_Job Config_File
begin

text \<open>
  \<open>src/test.py\<close>, everything \<open>run_tests\<close> works out before it starts a thread: \<open>read_waf_config\<close>,
  \<open>make_paths\<close>, \<open>parse_examples_to_run_file\<close> and the loops of \<open>run_tests\<close> that collect the examples
  of the configured directories and modules.

  The built-ins \<open>eval\<close> and \<open>exec\<close> on the text of generated files are parameters; the files are
  those of \<open>Config_File\<close>, and \<open>exists\<close> is \<open>os.path.exists\<close>.
\<close>

subsection \<open>read_waf_config\<close>

definition interesting_config_items :: "string list" where
  "interesting_config_items =
     [''NS3_ENABLED_MODULES'', ''NS3_ENABLED_CONTRIBUTED_MODULES'', ''NS3_MODULE_PATH'', ''NSC_ENABLED'',
      ''ENABLE_REAL_TIME'', ''ENABLE_THREADING'', ''ENABLE_EXAMPLES'', ''ENABLE_TESTS'',
      ''EXAMPLE_DIRECTORIES'', ''ENABLE_PYTHON_BINDINGS'', ''NSCLICK'', ''ENABLE_BRITE'',
      ''ENABLE_OPENFLOW'', ''APPNAME'', ''BUILD_PROFILE'', ''VERSION'', ''PYTHON'', ''VALGRIND_FOUND'']"

definition lock_value :: "(string \<Rightarrow> string result) \<Rightarrow> string \<Rightarrow> string result" where
  "lock_value eval_str line =
     (case py_split (CHR ''='') line of
        [key, val] \<Rightarrow> eval_str (py_strip val)
      | _ \<Rightarrow> Inl ValueError)"

definition lock_line ::
  "(string \<Rightarrow> string result) \<Rightarrow> string option \<times> string option \<Rightarrow> string \<Rightarrow>
     (string option \<times> string option) result" where
  "lock_line eval_str dirs line =
     (case dirs of (top_dir, out_dir) \<Rightarrow>
        res_bind (if py_startswith line ''top_dir ='' then res_bind (lock_value eval_str line) (\<lambda>v. Inr (Some v))
                  else Inr top_dir) (\<lambda>top.
        res_bind (if py_startswith line ''out_dir ='' then res_bind (lock_value eval_str line) (\<lambda>v. Inr (Some v))
                  else Inr out_dir) (\<lambda>out. Inr (top, out))))"

definition cache_line ::
  "(string \<Rightarrow> config \<Rightarrow> config result) \<Rightarrow> config \<Rightarrow> string \<Rightarrow> config result" where
  "cache_line exec_line g line =
     res_fold (\<lambda>g item. if py_startswith line item then exec_line line g else Inr g) g interesting_config_items"

definition read_waf_config ::
  "files \<Rightarrow> string \<Rightarrow> (string \<Rightarrow> string result) \<Rightarrow> (string \<Rightarrow> config \<Rightarrow> config result) \<Rightarrow> config \<Rightarrow> config result" where
  "read_waf_config fs platform eval_str exec_line g =
     (case (case fs (''.lock-waf_'' @ platform @ ''_build'') of
              Some ls \<Rightarrow> Some ls | None \<Rightarrow> fs ''.lock-waf_linux2_build'') of
        None \<Rightarrow> Inl (SystemExit 2)
      | Some lock \<Rightarrow>
          res_bind (res_fold (lock_line eval_str) (None, None) lock) (\<lambda>dirs.
            (case dirs of
               (Some top_dir, Some out_dir) \<Rightarrow>
                 (let g1 = g\<lparr>NS3_BASEDIR := top_dir, NS3_BUILDDIR := out_dir\<rparr> in
                  case fs (out_dir @ ''/c4che/_cache.py'') of
                    None \<Rightarrow> Inl OSError
                  | Some cache \<Rightarrow> res_fold (cache_line exec_line) g1 cache)
             | _ \<Rightarrow> Inl UnboundLocalError)))"

subsection \<open>make_paths\<close>

type_synonym env = "(string, string) dict"

definition env_get :: "env \<Rightarrow> string \<Rightarrow> string" where
  "env_get e k = (case map_of e k of None \<Rightarrow> '''' | Some v \<Rightarrow> v)"

definition extend_var :: "bool \<Rightarrow> string \<Rightarrow> string \<Rightarrow> string list \<Rightarrow> env \<Rightarrow> env" where
  "extend_var have_var var sep ps e =
     foldl (\<lambda>e p. dict_set var (env_get e var @ sep @ p) e)
       (if \<not> have_var then dict_set var '''' e else e) ps"

definition make_paths :: "string \<Rightarrow> config \<Rightarrow> env \<Rightarrow> env" where
  "make_paths platform g e =
     (let have_DYLD_LIBRARY_PATH = dict_has e ''DYLD_LIBRARY_PATH'';
          have_LD_LIBRARY_PATH = dict_has e ''LD_LIBRARY_PATH'';
          have_PATH = dict_has e ''PATH'';
          have_PYTHONPATH = dict_has e ''PYTHONPATH'';
          pypath = path_join (NS3_BUILDDIR g) [''bindings'', ''python''];
          e1 = dict_set ''PYTHONPATH'' pypath e;
          e2 = (if \<not> have_PYTHONPATH then dict_set ''PYTHONPATH'' pypath e1
                else dict_set ''PYTHONPATH'' (env_get e1 ''PYTHONPATH'' @ '':'' @ pypath) e1)
      in if platform = ''darwin'' then
           extend_var have_DYLD_LIBRARY_PATH ''DYLD_LIBRARY_PATH'' '':'' (NS3_MODULE_PATH g) e2
         else if platform = ''win32'' then extend_var have_PATH ''PATH'' '';'' (NS3_MODULE_PATH g) e2
         else if platform = ''cygwin'' then extend_var have_PATH ''PATH'' '':'' (NS3_MODULE_PATH g) e2
         else extend_var have_LD_LIBRARY_PATH ''LD_LIBRARY_PATH'' '':'' (NS3_MODULE_PATH g) e2)"

subsection \<open>The examples to run\<close>

record examples =
  example_tests :: "(string \<times> string \<times> string \<times> string) list"
  example_names_original :: "string list"
  python_tests :: "(string \<times> string) list"

record world =
  file_system :: files
  exists :: "string \<Rightarrow> bool"
  curdir :: string
  eval_cpp :: "string \<Rightarrow> (string \<times> string \<times> string) list result"
  eval_py :: "string \<Rightarrow> (string \<times> string) list result"
  eval_names :: "string \<Rightarrow> string list result"

definition add_cpp_example ::
  "world \<Rightarrow> config \<Rightarrow> string \<Rightarrow> examples \<Rightarrow> string \<times> string \<times> string \<Rightarrow> examples result" where
  "add_cpp_example w g cpp_executable_dir ex entry =
     (case entry of (original, do_run, do_valgrind_run) \<Rightarrow>
        let parts = py_split1 (CHR '' '') original;
            name = hd parts;
            arguments = (if length parts = 1 then '''' else parts ! 1);
            path = path_join cpp_executable_dir
                     [APPNAME g @ VERSION g @ ''-'' @ name @ BUILD_PROFILE_SUFFIX g]
        in res_bind (relpath (curdir w) cpp_executable_dir (NS3_BUILDDIR g)) (\<lambda>rel.
             let ename = path_join rel [name] in
             if exists w path then
               (let path' = (if length parts \<noteq> 1 then path @ '' '' @ arguments else path);
                    ename' = (if length parts \<noteq> 1 then ename @ '' '' @ arguments else ename)
                in Inr (ex\<lparr>example_tests := example_tests ex @ [(ename', path', do_run, do_valgrind_run)],
                           example_names_original := example_names_original ex @ [original]\<rparr>))
             else Inr ex))"

definition add_python_example ::
  "world \<Rightarrow> string \<Rightarrow> examples \<Rightarrow> string \<times> string \<Rightarrow> examples" where
  "add_python_example w python_script_dir ex entry =
     (case entry of (name0, do_run) \<Rightarrow>
        let parts = py_split1 (CHR '' '') name0;
            path = path_join python_script_dir [hd parts]
        in if exists w path then
             ex\<lparr>python_tests := python_tests ex @
                  [(if length parts \<noteq> 1 then path @ '' '' @ parts ! 1 else path, do_run)]\<rparr>
           else ex)"

definition parse_examples_to_run_file ::
  "world \<Rightarrow> config \<Rightarrow> string \<Rightarrow> string \<Rightarrow> string \<Rightarrow> examples \<Rightarrow> examples result" where
  "parse_examples_to_run_file w g examples_to_run_path cpp_executable_dir python_script_dir ex =
     (if exists w examples_to_run_path then
        res_bind (get_list_from_file (file_system w) (eval_cpp w) examples_to_run_path ''cpp_examples'') (\<lambda>cpp.
        res_bind (res_fold (add_cpp_example w g cpp_executable_dir) ex cpp) (\<lambda>ex1.
        res_bind (get_list_from_file (file_system w) (eval_py w) examples_to_run_path ''python_examples'') (\<lambda>py.
          Inr (foldl (add_python_example w python_script_dir) ex1 py))))
      else Inr ex)"

definition directory_examples :: "world \<Rightarrow> config \<Rightarrow> examples \<Rightarrow> string \<Rightarrow> examples result" where
  "directory_examples w g ex directory =
     (let example_directory = path_join ''examples'' [directory] in
      parse_examples_to_run_file w g (path_join example_directory [''examples-to-run.py''])
        (path_join (NS3_BUILDDIR g) [example_directory]) (path_join example_directory []) ex)"

definition module_examples :: "string \<Rightarrow> world \<Rightarrow> config \<Rightarrow> examples \<Rightarrow> string \<Rightarrow> examples result" where
  "module_examples parent w g ex module_name =
     (let name = py_slice_from module_name 4;
          module_directory = path_join parent [name];
          example_directory = path_join module_directory [''examples'']
      in parse_examples_to_run_file w g (path_join module_directory [''test'', ''examples-to-run.py''])
           (path_join (NS3_BUILDDIR g) [example_directory]) (path_join example_directory []) ex)"

definition collect_examples :: "world \<Rightarrow> config \<Rightarrow> examples result" where
  "collect_examples w g =
     res_bind (res_fold (directory_examples w g)
                 \<lparr>example_tests = [], example_names_original = [], python_tests = []\<rparr> (EXAMPLE_DIRECTORIES g)) (\<lambda>ex1.
     res_bind (res_fold (module_examples ''src'' w g) ex1 (NS3_ENABLED_MODULES g)) (\<lambda>ex2.
       res_fold (module_examples ''contrib'' w g) ex2 (NS3_ENABLED_CONTRIBUTED_MODULES g)))"

definition runnable_programs_dictionary :: "string list \<Rightarrow> (string, string) dict" where
  "runnable_programs_dictionary programs =
     foldl (\<lambda>d program. dict_set (basename program) program d) [] programs"

definition set_suffix :: "config \<Rightarrow> config" where
  "set_suffix g = g\<lparr>BUILD_PROFILE_SUFFIX := if BUILD_PROFILE g = ''release'' then '''' else ''-'' @ BUILD_PROFILE g\<rparr>"

definition test_runner_name :: "config \<Rightarrow> string" where
  "test_runner_name g = APPNAME g @ VERSION g @ ''-'' @ ''test-runner'' @ BUILD_PROFILE_SUFFIX g"

definition core_kinds :: "string list" where
  "core_kinds = [''bvt'', ''core'', ''performance'', ''system'', ''unit'']"

definition waf_command :: "options \<Rightarrow> string" where
  "waf_command opts =
     (if kinds opts \<or> list_opt opts \<or> (constrain opts \<noteq> [] \<and> constrain opts \<in> set core_kinds)
        then ''./waf --target=test-runner''
      else if example_opt opts \<noteq> [] then ''./waf --target='' @ basename (example_opt opts)
      else ''./waf'')"

subsection \<open>What make_paths does to the environment\<close>

definition path_variable :: "string \<Rightarrow> string \<times> string" where
  "path_variable platform =
     (if platform = ''darwin'' then (''DYLD_LIBRARY_PATH'', '':'')
      else if platform = ''win32'' then (''PATH'', '';'')
      else if platform = ''cygwin'' then (''PATH'', '':'')
      else (''LD_LIBRARY_PATH'', '':''))"

definition path_list :: "string \<Rightarrow> string list \<Rightarrow> string" where
  "path_list sep ps = concat (map (\<lambda>p. sep @ p) ps)"

lemma env_get_set [simp]: "env_get (dict_set k v e) k' = (if k' = k then v else env_get e k')"
  by (simp add: env_get_def)

lemma extend_var_fold:
  "map_of e var = Some v \<Longrightarrow>
     map_of (foldl (\<lambda>e p. dict_set var (env_get e var @ sep @ p) e) e ps)
       = (map_of e)(var \<mapsto> v @ path_list sep ps)"
proof (induction ps arbitrary: e v)
  case (Cons p ps)
  then have "env_get e var = v" by (simp add: env_get_def)
  then show ?case using Cons.IH [of "dict_set var (v @ sep @ p) e" "v @ sep @ p"] by (simp add: fun_eq_iff path_list_def)
qed (auto simp: path_list_def)

lemma map_of_extend_var:
  "have_var = dict_has e var \<Longrightarrow>
     map_of (extend_var have_var var sep ps e) = (map_of e)(var \<mapsto> env_get e var @ path_list sep ps)"
proof (cases "map_of e var")
  case None
  moreover assume "have_var = dict_has e var"
  ultimately show ?thesis using extend_var_fold [of "dict_set var '''' e" var "''''" sep ps]
    by (simp add: extend_var_def dict_has_iff env_get_def [of e])
next
  case (Some v)
  moreover assume "have_var = dict_has e var"
  ultimately show ?thesis using extend_var_fold [OF Some] by (simp add: extend_var_def dict_has_iff env_get_def [of e])
qed

text \<open>
  \<open>make_paths\<close> changes exactly two variables of the environment: the library path variable of the
  platform keeps its value and gets the module paths appended in order, and \<open>PYTHONPATH\<close> becomes the
  bindings directory. A \<open>PYTHONPATH\<close> set by the user is lost: it is overwritten before it is
  extended, and the bindings directory appears twice instead.
\<close>
theorem make_paths_environment:
  "map_of (make_paths platform g e) =
     (let (var, sep) = path_variable platform; pypath = path_join (NS3_BUILDDIR g) [''bindings'', ''python'']
      in (map_of e)(''PYTHONPATH'' \<mapsto> (if dict_has e ''PYTHONPATH'' then pypath @ '':'' @ pypath else pypath),
                    var \<mapsto> env_get e var @ path_list sep (NS3_MODULE_PATH g)))"
  by (simp add: make_paths_def path_variable_def Let_def map_of_extend_var dict_has_iff)

subsection \<open>Which examples are found\<close>

definition built_path :: "config \<Rightarrow> string \<Rightarrow> string \<Rightarrow> string" where
  "built_path g dir original =
     path_join dir [APPNAME g @ VERSION g @ ''-'' @ hd (py_split1 (CHR '' '') original) @ BUILD_PROFILE_SUFFIX g]"

definition with_arguments :: "string \<Rightarrow> string \<Rightarrow> string" where
  "with_arguments original p =
     (case py_split1 (CHR '' '') original of [_, arguments] \<Rightarrow> p @ '' '' @ arguments | _ \<Rightarrow> p)"

lemma split1_cases: "py_split1 c s = [s] \<or> (\<exists>a b. py_split1 c s = [a, b])"
  by (auto simp: py_split1_def split: list.splits)

lemma add_cpp_example_spec:
  assumes "relpath (curdir w) dir (NS3_BUILDDIR g) = Inr rel"
  shows "add_cpp_example w g dir ex (original, do_run, do_valgrind) = Inr
    (if exists w (built_path g dir original) then
       ex\<lparr>example_tests := example_tests ex @
            [(with_arguments original (path_join rel [hd (py_split1 (CHR '' '') original)]),
              with_arguments original (built_path g dir original), do_run, do_valgrind)],
          example_names_original := example_names_original ex @ [original]\<rparr>
     else ex)"
  using assms split1_cases [of "CHR '' ''" original]
  by (auto simp: add_cpp_example_def built_path_def with_arguments_def Let_def)

lemma add_cpp_examples_spec:
  assumes "relpath (curdir w) dir (NS3_BUILDDIR g) = Inr rel"
  shows "res_fold (add_cpp_example w g dir) ex cpp = Inr
    (ex\<lparr>example_tests := example_tests ex @ map (\<lambda>(n, r, v).
            (with_arguments n (path_join rel [hd (py_split1 (CHR '' '') n)]), with_arguments n (built_path g dir n), r, v))
          (filter (\<lambda>(n, r, v). exists w (built_path g dir n)) cpp),
        example_names_original := example_names_original ex @
          map fst (filter (\<lambda>(n, r, v). exists w (built_path g dir n)) cpp)\<rparr>)"
  by (induction cpp arbitrary: ex) (auto simp: add_cpp_example_spec [OF assms])

lemma add_python_examples_spec:
  "foldl (add_python_example w dir) ex py =
    ex\<lparr>python_tests := python_tests ex @
         map (\<lambda>(n, r). (with_arguments n (path_join dir [hd (py_split1 (CHR '' '') n)]), r))
           (filter (\<lambda>(n, r). exists w (path_join dir [hd (py_split1 (CHR '' '') n)])) py)\<rparr>"
proof (induction py arbitrary: ex)
  case (Cons e py)
  obtain n r where e: "e = (n, r)" by (cases e)
  have "add_python_example w dir ex e = (if exists w (path_join dir [hd (py_split1 (CHR '' '') n)]) then
      ex\<lparr>python_tests := python_tests ex @ [(with_arguments n (path_join dir [hd (py_split1 (CHR '' '') n)]), r)]\<rparr> else ex)"
    using split1_cases [of "CHR '' ''" n] by (auto simp: add_python_example_def with_arguments_def Let_def e)
  then show ?case using Cons.IH by (simp add: e)
qed simp

text \<open>
  C37. \<open>parse_examples_to_run_file\<close> for a directory below the build directory: it appends, in the order of
  the file, exactly the C++ examples whose executable (with the application's prefix and suffix) exists
  and the Python examples whose script exists, each with its arguments put back behind the path; the
  display name of a C++ example is its path relative to the build directory, and the list of original names stays
  parallel to the list of examples.
\<close>
theorem parse_examples_lists:
  assumes "exists w file"
    and "get_list_from_file (file_system w) (eval_cpp w) file ''cpp_examples'' = Inr cpp"
    and "get_list_from_file (file_system w) (eval_py w) file ''python_examples'' = Inr py"
    and "NS3_BUILDDIR g = abs_of build" "dir \<noteq> []" "\<forall>c \<in> set (build @ dir). plain_comp c"
  shows "parse_examples_to_run_file w g file (abs_of (build @ dir)) script_dir ex = Inr
    \<lparr>example_tests = example_tests ex @ map (\<lambda>(n, r, v).
         (with_arguments n (path_join (py_join ''/'' dir) [hd (py_split1 (CHR '' '') n)]),
          with_arguments n (built_path g (abs_of (build @ dir)) n), r, v))
       (filter (\<lambda>(n, r, v). exists w (built_path g (abs_of (build @ dir)) n)) cpp),
     example_names_original = example_names_original ex @
       map fst (filter (\<lambda>(n, r, v). exists w (built_path g (abs_of (build @ dir)) n)) cpp),
     python_tests = python_tests ex @
       map (\<lambda>(n, r). (with_arguments n (path_join script_dir [hd (py_split1 (CHR '' '') n)]), r))
         (filter (\<lambda>(n, r). exists w (path_join script_dir [hd (py_split1 (CHR '' '') n)])) py)\<rparr>"
proof -
  have "relpath (curdir w) (abs_of (build @ dir)) (NS3_BUILDDIR g) = Inr (py_join ''/'' dir)"
    using relpath_below [of build dir "curdir w"] assms(4-6) by simp
  from add_cpp_examples_spec [OF this] show ?thesis
    using assms(1-3) by (simp add: parse_examples_to_run_file_def add_python_examples_spec)
qed

definition sample_world :: world where
  "sample_world =
     \<lparr>file_system = (\<lambda>_. None)(''e'' := Some [''cpp_examples = []'', ''python_examples = []'']),
      exists = (\<lambda>p. p \<in> {''e'', ''/b/ex/ns3-udp-debug'', ''s/a.py''}), curdir = ''/'',
      eval_cpp = (\<lambda>_. Inr [(''udp --n=1'', ''True'', ''True''), (''tcp'', ''True'', ''False'')]),
      eval_py = (\<lambda>_. Inr [(''a.py'', ''True'')]), eval_names = (\<lambda>_. Inr [])\<rparr>"

theorem parse_examples_lists_witness:
  "parse_examples_to_run_file sample_world
     \<lparr>NS3_BASEDIR = ''/'', NS3_BUILDDIR = ''/b'', NS3_ENABLED_MODULES = [], NS3_ENABLED_CONTRIBUTED_MODULES = [],
      NS3_MODULE_PATH = [], NSC_ENABLED = False, ENABLE_EXAMPLES = True, ENABLE_TESTS = True, EXAMPLE_DIRECTORIES = [],
      ENABLE_PYTHON_BINDINGS = False, APPNAME = ''ns'', BUILD_PROFILE = ''debug'', BUILD_PROFILE_SUFFIX = ''-debug'',
      VERSION = ''3'', PYTHON = [], VALGRIND_FOUND = False\<rparr>
     ''e'' ''/b/ex'' ''s'' \<lparr>example_tests = [], example_names_original = [], python_tests = []\<rparr>
   = Inr \<lparr>example_tests = [(''ex/udp --n=1'', ''/b/ex/ns3-udp-debug --n=1'', ''True'', ''True'')],
          example_names_original = [''udp --n=1''], python_tests = [(''s/a.py'', ''True'')]\<rparr>"
  (is "parse_examples_to_run_file _ ?g _ _ _ ?ex = ?r")
proof -
  have "parse_examples_to_run_file sample_world ?g ''e'' (abs_of ([''b''] @ [''ex''])) ''s'' ?ex = ?r"
    by (subst parse_examples_lists [where cpp = "[(''udp --n=1'', ''True'', ''True''), (''tcp'', ''True'', ''False'')]"
          and py = "[(''a.py'', ''True'')]"]) code_simp+
  then show ?thesis by (simp add: abs_of_def)
qed

subsection \<open>Reading the waf state\<close>

lemma cache_line_skip: "\<forall>item \<in> set interesting_config_items. \<not> py_startswith line item \<Longrightarrow> cache_line exec_line g line = Inr g"
proof -
  have "\<forall>item \<in> set items. \<not> py_startswith line item \<Longrightarrow>
      res_fold (\<lambda>g item. if py_startswith line item then exec_line line g else Inr g) g items = Inr g" for items
    by (induction items) auto
  then show "\<forall>item \<in> set interesting_config_items. \<not> py_startswith line item \<Longrightarrow> cache_line exec_line g line = Inr g"
    by (simp add: cache_line_def)
qed

text \<open>
  \<open>read_waf_config\<close> on a lock file with one \<open>top_dir\<close> and one \<open>out_dir\<close> line takes both
  directories from it and then executes only those lines of the cache that start with the name of an interesting
  item; every other line of either file is ignored.
\<close>
theorem read_waf_config_reads:
  assumes "fs (''.lock-waf_'' @ platform @ ''_build'') = Some lock"
    and "filter (\<lambda>l. py_startswith l ''top_dir ='' \<or> py_startswith l ''out_dir ='') lock = [top_line, out_line]"
    and "top_line = ''top_dir ='' @ t" "out_line = ''out_dir ='' @ u" "CHR ''='' \<notin> set t" "CHR ''='' \<notin> set u"
    and "eval_str (py_strip t) = Inr top_dir" "eval_str (py_strip u) = Inr out_dir"
    and "fs (out_dir @ ''/c4che/_cache.py'') = Some cache"
  shows "read_waf_config fs platform eval_str exec_line g =
    res_fold (cache_line exec_line) (g\<lparr>NS3_BASEDIR := top_dir, NS3_BUILDDIR := out_dir\<rparr>)
      (filter (\<lambda>l. \<exists>item \<in> set interesting_config_items. py_startswith l item) cache)"
proof -
  have skip_lock: "res_fold (lock_line eval_str) d lock =
      res_fold (lock_line eval_str) d (filter (\<lambda>l. py_startswith l ''top_dir ='' \<or> py_startswith l ''out_dir ='') lock)" for d
    by (induction lock arbitrary: d) (auto simp: lock_line_def split: prod.splits sum.splits)
  have skip_cache: "res_fold (cache_line exec_line) c cache =
      res_fold (cache_line exec_line) c (filter (\<lambda>l. \<exists>item \<in> set interesting_config_items. py_startswith l item) cache)" for c
    by (induction cache arbitrary: c) (auto simp: cache_line_skip split: sum.splits)
  have v: "lock_value eval_str (''top_dir ='' @ t) = Inr top_dir" "lock_value eval_str (''out_dir ='' @ u) = Inr out_dir"
    using assms(5-8) py_split_append [of "CHR ''=''" "''top_dir ''" t] py_split_append [of "CHR ''=''" "''out_dir ''" u]
    by (simp_all add: lock_value_def py_split_clean)
  have "res_fold (lock_line eval_str) (None, None) lock = Inr (Some top_dir, Some out_dir)"
    unfolding skip_lock assms(2-4) using v by (simp add: lock_line_def py_startswith_def)
  then show ?thesis using assms(1,9) skip_cache by (simp add: read_waf_config_def Let_def)
qed

lemma read_waf_config_no_lock:
  "fs (''.lock-waf_'' @ platform @ ''_build'') = None \<Longrightarrow> fs ''.lock-waf_linux2_build'' = None \<Longrightarrow>
     read_waf_config fs platform eval_str exec_line g = Inl (SystemExit 2)"
  by (simp add: read_waf_config_def)

definition sample_lock :: files where
  "sample_lock = (\<lambda>_. None)
     (''.lock-waf_linux_build'' := Some [''argv = 1'', ''top_dir = /a'', ''out_dir = /b''],
      ''/b/c4che/_cache.py'' := Some [''FOO = 1'', ''VERSION = 2''])"

theorem read_waf_config_reads_witness:
  "map_sum id VERSION (read_waf_config sample_lock ''linux'' Inr (\<lambda>l g. Inr (g\<lparr>VERSION := l\<rparr>)) sample_config) = Inr ''VERSION = 2''"
proof -
  have "read_waf_config sample_lock ''linux'' Inr (\<lambda>l g. Inr (g\<lparr>VERSION := l\<rparr>)) sample_config =
      res_fold (cache_line (\<lambda>l g. Inr (g\<lparr>VERSION := l\<rparr>))) (sample_config\<lparr>NS3_BASEDIR := ''/a'', NS3_BUILDDIR := ''/b''\<rparr>)
      (filter (\<lambda>l. \<exists>item \<in> set interesting_config_items. py_startswith l item) [''FOO = 1'', ''VERSION = 2''])"
    by (rule read_waf_config_reads [where lock = "[''argv = 1'', ''top_dir = /a'', ''out_dir = /b'']"
          and top_line = "''top_dir = /a''" and out_line = "''out_dir = /b''" and t = "'' /a''" and u = "'' /b''"]) code_simp+
  then show ?thesis by (simp add: interesting_config_items_def py_startswith_def cache_line_def)
qed

end
