(* ===== verification/Test_Runner.thy ===== *)
theory Test_Runner
  imports Test_Pool Test_Config "HOL-Library.Char_ord" "HOL-Library.List_Lexorder"
begin

text \<open>
  \<open>src/test.py\<close>, the sequential parts of \<open>run_tests\<close> around the worker pool: the early exits, the
  choice of the test suites, the jobs queued for suites, examples and Python examples, the loop
  that collects the results into counters, messages and the XML results file, the summary and the
  exit code.

  \<open>cond\<close> is the built-in \<open>eval\<close> on an example's run condition. Sorting of names is by code point,
  which for UTF-8 encoded strings is the order of the bytes. Verbose messages, the creation and
  removal of the temporary directories and the notes printed at the end are not modelled.
\<close>

abbreviation nl :: string where
  "nl \<equiv> [CHR 0x0A]"

subsection \<open>Listing\<close>

definition runner_cmd :: "config \<Rightarrow> string \<Rightarrow> string" where
  "runner_cmd g args = path_join ''utils'' [test_runner_name g @ args]"

definition text_of :: "pytext \<Rightarrow> string result" where
  "text_of t = (case t of Str s \<Rightarrow> Inr s | Bytes b \<Rightarrow> py_decode b)"

text \<open>\<open>standard_out.decode()\<close>: a \<open>str\<close> has no such method.\<close>

definition decode_method :: "pytext \<Rightarrow> string result" where
  "decode_method t = (case t of Str s \<Rightarrow> Inl AttributeError | Bytes b \<Rightarrow> py_decode b)"

definition print_kinds :: "popen \<Rightarrow> config \<Rightarrow> string \<Rightarrow> string list result" where
  "print_kinds popen g wd =
     res_bind (run_job_synchronously popen g (runner_cmd g '' --print-test-type-list'') wd False False '''')
       (\<lambda>(rc, out, err, et). res_bind (decode_method out) (\<lambda>s. Inr [s]))"

definition list_command :: "config \<Rightarrow> options \<Rightarrow> string" where
  "list_command g opts =
     (if constrain opts \<noteq> [] then
        runner_cmd g ('' --print-test-name-list --print-test-types --test-type='' @ constrain opts)
      else runner_cmd g '' --print-test-name-list --print-test-types'')"

definition print_list :: "popen \<Rightarrow> config \<Rightarrow> options \<Rightarrow> string \<Rightarrow> string list \<Rightarrow> string list result" where
  "print_list popen g opts wd names =
     res_bind (run_job_synchronously popen g (list_command g opts) wd False False '''')
       (\<lambda>(rc, out, err, et).
          if rc \<noteq> 0 then Inr [''test.py error:  test-runner return code returned '' @ int_str rc,
                                ''To debug, try running '' @ [CHR 0x27] @
                                ''./waf --run \"test-runner --print-test-name-list\"'' @ [CHR 0x27] @ nl]
          else res_bind (text_of out) (\<lambda>s. Inr
            ([''Test Type    Test Name'', ''---------    ---------''] @
             filter (\<lambda>item. py_strip item \<noteq> []) (sort (py_split (CHR 0x0A) s)) @
             map (\<lambda>item. ''example      '' @ item) (sort names) @ [''''])))"

subsection \<open>Choosing the suites\<close>

definition requested_suites :: "popen \<Rightarrow> config \<Rightarrow> options \<Rightarrow> string \<Rightarrow> (pytext \<times> bool) result" where
  "requested_suites popen g opts wd =
     (if suite opts \<noteq> [] then
        res_bind (run_job_synchronously popen g (runner_cmd g '' --print-test-name-list'') wd False False '''')
          (\<lambda>(rc, out, err, et). res_bind (text_of out) (\<lambda>suites.
             if suite opts \<in> set (py_split (CHR 0x0A) suites) then Inr (Str (suite opts @ nl), True)
             else Inl (SystemExit 2)))
      else if example_opt opts = [] \<and> pyexample opts = [] then
        res_bind
          (run_job_synchronously popen g
             (if constrain opts \<noteq> [] then runner_cmd g ('' --print-test-name-list --test-type='' @ constrain opts)
              else runner_cmd g '' --print-test-name-list'') wd False False '''')
          (\<lambda>(rc, out, err, et). Inr (out, False))
      else Inr (Str '''', False))"

definition remove_tests :: "string list \<Rightarrow> string list \<Rightarrow> string list" where
  "remove_tests suite_list tests =
     foldl (\<lambda>sl t. if t \<in> set sl then remove1 t sl else sl) suite_list tests"

definition suite_list :: "popen \<Rightarrow> config \<Rightarrow> options \<Rightarrow> string \<Rightarrow> string list result" where
  "suite_list popen g opts wd =
     res_bind (requested_suites popen g opts wd) (\<lambda>(suites, single_suite).
     res_bind (text_of suites) (\<lambda>suites.
       let sl = py_split (CHR 0x0A) suites in
       if \<not> single_suite \<and> constrain opts \<noteq> ''performance'' then
         res_bind (run_job_synchronously popen g
                     (runner_cmd g '' --print-test-name-list --test-type=performance'') wd False False '''')
           (\<lambda>(rc, out, err, et). res_bind (text_of out)
              (\<lambda>perf. Inr (remove_tests sl (py_split (CHR 0x0A) perf))))
       else Inr sl))"

subsection \<open>Queueing the jobs\<close>

definition core_valgrind_skip_tests :: "string list" where
  "core_valgrind_skip_tests =
     [''ns3-tcp-cwnd'', ''nsc-tcp-loss'', ''ns3-tcp-interoperability'', ''routing-click'',
      ''lte-rr-ff-mac-scheduler'', ''lte-tdmt-ff-mac-scheduler'', ''lte-fdmt-ff-mac-scheduler'',
      ''lte-pf-ff-mac-scheduler'', ''lte-tta-ff-mac-scheduler'', ''lte-fdbet-ff-mac-scheduler'',
      ''lte-ttbet-ff-mac-scheduler'', ''lte-fdtbfq-ff-mac-scheduler'', ''lte-tdtbfq-ff-mac-scheduler'',
      ''lte-pss-ff-mac-scheduler'']"

definition core_nsc_missing_skip_tests :: "string list" where
  "core_nsc_missing_skip_tests = [''ns3-tcp-cwnd'', ''nsc-tcp-loss'', ''ns3-tcp-interoperability'']"

definition upper :: "string \<Rightarrow> string" where
  "upper s = map (\<lambda>c. if 97 \<le> byte c \<and> byte c \<le> 122 then char_of (byte c - 32) else c) s"

definition suite_job :: "config \<Rightarrow> options \<Rightarrow> string \<Rightarrow> string \<Rightarrow> string \<Rightarrow> job" where
  "suite_job g opts wd outdir test =
     (let j = set_tempdir outdir (set_basedir wd (set_cwd wd
                (set_tmp_file_name (path_join outdir [test @ ''.xml'']) (set_display_name test
                   (set_is_pyexample False (set_is_example False new_job))))));
          multiple = (if multiple opts then '''' else '' --stop-on-failure'');
          fullness = (if fullness opts \<noteq> [] then '' --fullness='' @ upper (fullness opts) else '' --fullness=QUICK'');
          j = set_shell_command (runner_cmd g ('' --test-name='' @ test @ multiple @ fullness)) j;
          j = (if valgrind_opt opts \<and> test \<in> set core_valgrind_skip_tests
               then set_skip_reason ''crashes valgrind'' (set_is_skip True j) else j)
      in if \<not> NSC_ENABLED g \<and> test \<in> set core_nsc_missing_skip_tests
         then set_skip_reason ''requires NSC'' (set_is_skip True j) else j)"

definition suite_jobs :: "config \<Rightarrow> options \<Rightarrow> string \<Rightarrow> string \<Rightarrow> string list \<Rightarrow> job list" where
  "suite_jobs g opts wd outdir suites =
     map (suite_job g opts wd outdir) (filter (\<lambda>t. t \<noteq> []) (map py_strip suites))"

definition example_job :: "options \<Rightarrow> string \<Rightarrow> string \<Rightarrow> bool \<Rightarrow> string \<Rightarrow> string \<Rightarrow> string \<Rightarrow> job" where
  "example_job opts wd outdir python name cmd bpath =
     set_build_path bpath (set_shell_command cmd (set_tempdir outdir (set_basedir wd (set_cwd outdir
       (set_tmp_file_name '''' (set_display_name name
          (set_is_pyexample python (set_is_example (\<not> python) new_job))))))))"

fun example_jobs ::
  "(string \<Rightarrow> bool result) \<Rightarrow> options \<Rightarrow> string \<Rightarrow> string \<Rightarrow> (string, string) dict \<Rightarrow>
     (string \<times> string \<times> string \<times> string) list \<Rightarrow> job list result" where
  "example_jobs cond opts wd outdir programs [] = Inr []"
| "example_jobs cond opts wd outdir programs ((name, test, do_run, do_valgrind_run) # tests) =
     (let test_name = basename (hd (py_split1 (CHR '' '') test)) in
      res_bind (if dict_has programs test_name then cond do_run else Inr False) (\<lambda>run.
        if run then
          res_bind (if valgrind_opt opts then cond do_valgrind_run else Inr True) (\<lambda>vg.
            let j = example_job opts wd outdir False name test (buildpath opts);
                j = (if valgrind_opt opts \<and> \<not> vg
                     then set_skip_reason ''skip in valgrind runs'' (set_is_skip True j) else j)
            in res_bind (example_jobs cond opts wd outdir programs tests) (\<lambda>js. Inr (j # js)))
        else example_jobs cond opts wd outdir programs tests))"

fun python_jobs ::
  "(string \<Rightarrow> bool result) \<Rightarrow> config \<Rightarrow> options \<Rightarrow> string \<Rightarrow> string \<Rightarrow> string list \<Rightarrow>
     (string \<times> string) list \<Rightarrow> job list result" where
  "python_jobs cond g opts wd outdir scripts [] = Inr []"
| "python_jobs cond g opts wd outdir scripts ((test, do_run) # tests) =
     (let test_name = basename (hd (py_split1 (CHR '' '') test)) in
      res_bind (if test_name \<in> set scripts then cond do_run else Inr False) (\<lambda>run.
        if run then
          (let j = example_job opts wd outdir True test test '''';
               j = (if valgrind_opt opts then set_skip_reason ''skip in valgrind runs'' (set_is_skip True j) else j);
               j = (if \<not> ENABLE_PYTHON_BINDINGS g
                    then set_skip_reason ''requires Python bindings'' (set_is_skip True j) else j)
           in res_bind (python_jobs cond g opts wd outdir scripts tests) (\<lambda>js. Inr (j # js)))
        else python_jobs cond g opts wd outdir scripts tests))"

definition queued_examples ::
  "(string \<Rightarrow> bool result) \<Rightarrow> config \<Rightarrow> options \<Rightarrow> string \<Rightarrow> string \<Rightarrow> (string, string) dict \<Rightarrow> examples \<Rightarrow>
     job list result" where
  "queued_examples cond g opts wd outdir programs ex =
     (if suite opts = [] \<and> example_opt opts = [] \<and> pyexample opts = [] then
        if (constrain opts = [] \<or> constrain opts = ''example'') \<and> ENABLE_EXAMPLES g
        then example_jobs cond opts wd outdir programs (example_tests ex) else Inr []
      else if example_opt opts \<noteq> [] then
        (let name = APPNAME g @ VERSION g @ ''-'' @ example_opt opts @ BUILD_PROFILE_SUFFIX g in
         case map_of programs name of
           None \<Rightarrow> Inr []
         | Some p \<Rightarrow> Inr [example_job opts wd outdir False (abspath wd p) (abspath wd p) (buildpath opts)])
      else Inr [])"

definition queued_python ::
  "(string \<Rightarrow> bool result) \<Rightarrow> config \<Rightarrow> options \<Rightarrow> string \<Rightarrow> string \<Rightarrow> string list \<Rightarrow> examples \<Rightarrow> job list result" where
  "queued_python cond g opts wd outdir scripts ex =
     (if suite opts = [] \<and> example_opt opts = [] \<and> pyexample opts = [] then
        if (constrain opts = [] \<or> constrain opts = ''pyexample'') \<and> ENABLE_EXAMPLES g
        then python_jobs cond g opts wd outdir scripts (python_tests ex) else Inr []
      else if pyexample opts \<noteq> [] then
        if basename (pyexample opts) \<in> set scripts
        then Inr [example_job opts wd outdir True (pyexample opts) (pyexample opts) ''''] else Inr []
      else Inr [])"

subsection \<open>Collecting the results\<close>

text \<open>\<open>"%.3f" % x\<close>: round to the nearest thousandth, ties to even.\<close>

definition round_even :: "rat \<Rightarrow> int" where
  "round_even x =
     (let n = floor x; d = x - of_int n
      in if d < 1 / 2 then n else if d > 1 / 2 then n + 1 else if even n then n else n + 1)"

definition fixed3 :: "rat \<Rightarrow> string" where
  "fixed3 x =
     (let n = nat (round_even (\<bar>x\<bar> * 1000)); r = n mod 1000
      in (if x < 0 then ''-'' else '''') @ nat_str (n div 1000) @ ''.'' @
         (if r < 10 then ''00'' else if r < 100 then ''0'' else '''') @ nat_str r)"

datatype status = PASS | FAIL | VALGR | CRASH | SKIP

fun status_str :: "status \<Rightarrow> string" where
  "status_str PASS = ''PASS''"
| "status_str FAIL = ''FAIL''"
| "status_str VALGR = ''VALGR''"
| "status_str CRASH = ''CRASH''"
| "status_str SKIP = ''SKIP''"

record tally =
  passed_tests :: nat
  skipped_tests :: nat
  skipped_testnames :: "string list"
  failed_tests :: nat
  failed_testnames :: "string list"
  crashed_tests :: nat
  crashed_testnames :: "string list"
  valgrind_errors :: nat
  valgrind_testnames :: "string list"
  printed :: "string list"
  results_xml :: string

definition tally_init :: tally where
  "tally_init =
     \<lparr>passed_tests = 0, skipped_tests = 0, skipped_testnames = [], failed_tests = 0, failed_testnames = [],
      crashed_tests = 0, crashed_testnames = [], valgrind_errors = 0, valgrind_testnames = [],
      printed = [], results_xml = ''<?xml version=\"1.0\"?>'' @ nl @ ''<Results>'' @ nl\<rparr>"

definition job_status :: "job \<Rightarrow> status" where
  "job_status j =
     (if is_skip j then SKIP
      else if returncode j = 0 then PASS
      else if returncode j = 1 then FAIL
      else if returncode j = 2 then VALGR
      else CRASH)"

definition count_job :: "tally \<Rightarrow> job \<Rightarrow> tally" where
  "count_job t j =
     (case job_status j of
        SKIP \<Rightarrow> t\<lparr>skipped_tests := skipped_tests t + 1,
                  skipped_testnames := skipped_testnames t @ [display_name j @ '' ('' @ skip_reason j @ '')'']\<rparr>
      | PASS \<Rightarrow> t\<lparr>passed_tests := passed_tests t + 1\<rparr>
      | FAIL \<Rightarrow> t\<lparr>failed_tests := failed_tests t + 1, failed_testnames := failed_testnames t @ [display_name j]\<rparr>
      | VALGR \<Rightarrow> t\<lparr>valgrind_errors := valgrind_errors t + 1,
                   valgrind_testnames := valgrind_testnames t @ [display_name j]\<rparr>
      | CRASH \<Rightarrow> t\<lparr>crashed_tests := crashed_tests t + 1,
                   crashed_testnames := crashed_testnames t @ [display_name j]\<rparr>)"

definition status_line :: "options \<Rightarrow> job \<Rightarrow> string" where
  "status_line opts j =
     (let kind = (if is_example j \<or> is_pyexample j then ''Example'' else ''TestSuite'') in
      if duration opts \<or> constrain opts = ''performance''
      then status_str (job_status j) @ '' ('' @ fixed3 (elapsed_time j) @ ''): '' @ kind @ '' '' @ display_name j
      else status_str (job_status j) @ '': '' @ kind @ '' '' @ display_name j)"

definition example_xml :: "job \<Rightarrow> string" where
  "example_xml j =
     ''<Example>'' @ nl @ ''  <Name>'' @ display_name j @ ''</Name>'' @ nl @
     ''  <Result>'' @ status_str (job_status j) @ ''</Result>'' @ nl @
     ''  <Time real=\"'' @ fixed3 (elapsed_time j) @ ''\"/>'' @ nl @ ''</Example>'' @ nl"

definition suite_xml :: "(string \<Rightarrow> string option) \<Rightarrow> job \<Rightarrow> string result" where
  "suite_xml tmp_files j =
     (if is_skip j then
        Inr (''<Test>'' @ nl @ ''  <Name>'' @ display_name j @ ''</Name>'' @ nl @ ''  <Result>SKIP</Result>'' @ nl @
             ''  <Reason>'' @ skip_reason j @ ''</Reason>'' @ nl @ ''</Test>'' @ nl)
      else if returncode j = 0 \<or> returncode j = 1 \<or> returncode j = 2 then
        (case tmp_files (tmp_file_name j) of None \<Rightarrow> Inl OSError | Some s \<Rightarrow> Inr s)
      else
        Inr (''<Test>'' @ nl @ ''  <Name>'' @ display_name j @ ''</Name>'' @ nl @
             ''  <Result>CRASH</Result>'' @ nl @ ''</Test>'' @ nl))"

definition collect_job :: "options \<Rightarrow> (string \<Rightarrow> string option) \<Rightarrow> tally \<Rightarrow> job \<Rightarrow> tally result" where
  "collect_job opts tmp_files t j =
     (if is_break j then Inr t
      else
        let t = count_job t j;
            t = t\<lparr>printed := printed t @ [status_line opts j]\<rparr>
        in res_bind (if is_example j \<or> is_pyexample j then Inr (example_xml j) else suite_xml tmp_files j)
             (\<lambda>x. Inr (t\<lparr>results_xml := results_xml t @ x\<rparr>)))"

definition collect_jobs :: "options \<Rightarrow> (string \<Rightarrow> string option) \<Rightarrow> job list \<Rightarrow> tally result" where
  "collect_jobs opts tmp_files js =
     res_bind (res_fold (collect_job opts tmp_files) tally_init js)
       (\<lambda>t. Inr (t\<lparr>results_xml := results_xml t @ ''</Results>'' @ nl\<rparr>))"

subsection \<open>Summary and exit code\<close>

definition name_report :: "string \<Rightarrow> string list \<Rightarrow> string list" where
  "name_report header names =
     (if names \<noteq> [] then [header @ nl @ ''    '' @ py_join (nl @ ''    '') (sort names)] else [])"

definition summary :: "tally \<Rightarrow> nat \<Rightarrow> string list" where
  "summary t total_tests =
     [nat_str (passed_tests t) @ '' of '' @ nat_str total_tests @ '' tests passed ('' @ nat_str (passed_tests t) @
      '' passed, '' @ nat_str (skipped_tests t) @ '' skipped, '' @ nat_str (failed_tests t) @ '' failed, '' @
      nat_str (crashed_tests t) @ '' crashed, '' @ nat_str (valgrind_errors t) @ '' valgrind errors)''] @
     name_report ''List of SKIPped tests:'' (skipped_testnames t) @
     name_report ''List of FAILed tests:'' (failed_testnames t) @
     name_report ''List of CRASHed tests:'' (crashed_testnames t) @
     name_report ''List of VALGR failures:'' (valgrind_testnames t)"

definition exit_code :: "tally \<Rightarrow> nat \<Rightarrow> int" where
  "exit_code t total_tests = (if passed_tests t + skipped_tests t = total_tests then 0 else 1)"

subsection \<open>run_tests\<close>

text \<open>
  What \<open>run_tests\<close> does before the pool starts. \<open>Return\<close> is an early return (\<open>None\<close> for a bare
  \<open>return\<close>) with the lines printed; \<open>Queue\<close> are the jobs handed to the pool.
\<close>

datatype plan = Return "int option" "string list" | Queue "job list"

definition build_programs :: "world \<Rightarrow> config \<Rightarrow> (string list \<times> string list) result" where
  "build_programs w g =
     (let build_status_file = path_join (NS3_BUILDDIR g) [''build-status.py''] in
      if exists w build_status_file then
        res_bind (get_list_from_file (file_system w) (eval_names w) build_status_file ''ns3_runnable_programs'') (\<lambda>programs.
        res_bind (get_list_from_file (file_system w) (eval_names w) build_status_file ''ns3_runnable_scripts'') (\<lambda>scripts.
          Inr (programs, scripts)))
      else Inl (SystemExit 2))"

definition plan_tests ::
  "popen \<Rightarrow> world \<Rightarrow> (string \<Rightarrow> bool result) \<Rightarrow> config \<Rightarrow> options \<Rightarrow> string \<Rightarrow> string \<Rightarrow> plan result" where
  "plan_tests popen w cond g opts wd outdir =
     (let waf = (if nowaf opts then 0 else proc_returncode (popen (waf_command opts) wd)) in
      if waf \<noteq> 0 then Inr (Return (Some waf) [])
      else
        res_bind (build_programs w g) (\<lambda>(programs, scripts).
        res_bind (collect_examples w g) (\<lambda>ex.
        res_bind (if kinds opts then print_kinds popen g wd else Inr []) (\<lambda>kind_lines.
        res_bind (if list_opt opts then print_list popen g opts wd (example_names_original ex) else Inr []) (\<lambda>list_lines.
          if kinds opts \<or> list_opt opts then Inr (Return None (kind_lines @ list_lines))
          else
            res_bind (suite_list popen g opts wd) (\<lambda>suites.
            res_bind (queued_examples cond g opts wd outdir (runnable_programs_dictionary programs) ex) (\<lambda>exs.
            res_bind (queued_python cond g opts wd outdir scripts ex) (\<lambda>pys.
              Inr (Queue (suite_jobs g opts wd outdir suites @ exs @ pys))))))))))"

definition finish_tests ::
  "options \<Rightarrow> (string \<Rightarrow> string option) \<Rightarrow> nat \<Rightarrow> job list \<Rightarrow> (tally \<times> string list \<times> int) result" where
  "finish_tests opts tmp_files total_tests results =
     res_bind (collect_jobs opts tmp_files results) (\<lambda>t. Inr (t, summary t total_tests, exit_code t total_tests))"

subsection \<open>The counts\<close>

definition reported :: "status \<Rightarrow> job list \<Rightarrow> job list" where
  "reported st js = filter (\<lambda>j. \<not> is_break j \<and> job_status j = st) js"

definition has_results :: "(string \<Rightarrow> string option) \<Rightarrow> job \<Rightarrow> bool" where
  "has_results tmp_files j \<longleftrightarrow>
     is_break j \<or> is_example j \<or> is_pyexample j \<or> job_status j \<in> {SKIP, CRASH} \<or> tmp_files (tmp_file_name j) \<noteq> None"

definition job_xml :: "(string \<Rightarrow> string option) \<Rightarrow> job \<Rightarrow> string" where
  "job_xml tmp_files j =
     (if is_example j \<or> is_pyexample j then example_xml j
      else case suite_xml tmp_files j of Inr s \<Rightarrow> s | Inl _ \<Rightarrow> '''')"

definition tally_of :: "options \<Rightarrow> (string \<Rightarrow> string option) \<Rightarrow> tally \<Rightarrow> job list \<Rightarrow> tally" where
  "tally_of opts tmp_files t js =
     \<lparr>passed_tests = passed_tests t + length (reported PASS js),
      skipped_tests = skipped_tests t + length (reported SKIP js),
      skipped_testnames = skipped_testnames t @ map (\<lambda>j. display_name j @ '' ('' @ skip_reason j @ '')'') (reported SKIP js),
      failed_tests = failed_tests t + length (reported FAIL js),
      failed_testnames = failed_testnames t @ map display_name (reported FAIL js),
      crashed_tests = crashed_tests t + length (reported CRASH js),
      crashed_testnames = crashed_testnames t @ map display_name (reported CRASH js),
      valgrind_errors = valgrind_errors t + length (reported VALGR js),
      valgrind_testnames = valgrind_testnames t @ map display_name (reported VALGR js),
      printed = printed t @ map (status_line opts) (filter (\<lambda>j. \<not> is_break j) js),
      results_xml = results_xml t @ concat (map (job_xml tmp_files) (filter (\<lambda>j. \<not> is_break j) js))\<rparr>"

lemma suite_xml_total: "has_results tmp_files j \<Longrightarrow> \<not> is_break j \<Longrightarrow>
  (if is_example j \<or> is_pyexample j then Inr (example_xml j) else suite_xml tmp_files j) = Inr (job_xml tmp_files j)"
  by (auto simp: has_results_def suite_xml_def job_xml_def job_status_def split: if_splits option.splits)

lemma suite_xml_missing: "\<not> has_results tmp_files j \<Longrightarrow>
  \<not> is_break j \<and> \<not> is_example j \<and> \<not> is_pyexample j \<and> suite_xml tmp_files j = Inl OSError"
  by (auto simp: has_results_def suite_xml_def job_status_def split: if_splits)

lemma collect_job_spec:
  "has_results tmp_files j \<Longrightarrow> collect_job opts tmp_files t j = Inr (tally_of opts tmp_files t [j])"
  by (cases "is_break j"; cases "job_status j")
    (simp_all add: collect_job_def tally_of_def reported_def suite_xml_total count_job_def Let_def)

lemma tally_of_Cons: "tally_of opts tmp_files (tally_of opts tmp_files t [j]) js = tally_of opts tmp_files t (j # js)"
  by (simp add: tally_of_def reported_def)

lemma collect_jobs_fold:
  "\<forall>j \<in> set js. has_results tmp_files j \<Longrightarrow>
     res_fold (collect_job opts tmp_files) t js = Inr (tally_of opts tmp_files t js)"
proof (induction js arbitrary: t)
  case Nil
  show ?case by (simp add: tally_of_def reported_def)
next
  case (Cons j js)
  then show ?case by (simp add: collect_job_spec tally_of_Cons)
qed

lemma collect_jobs_missing:
  "\<not> (\<forall>j \<in> set js. has_results tmp_files j) \<Longrightarrow> res_fold (collect_job opts tmp_files) t js = Inl OSError"
proof (induction js arbitrary: t)
  case (Cons j js)
  show ?case
  proof (cases "has_results tmp_files j")
    case True
    then show ?thesis using Cons by (simp add: collect_job_spec)
  next
    case False
    then show ?thesis using suite_xml_missing [OF False] by (simp add: collect_job_def Let_def)
  qed
qed simp



lemma finish_tests_exit:
  assumes "finish_tests opts tmp_files total_tests results = Inr (t, lines, code)" "length results = total_tests"
  shows "code = 0 \<longleftrightarrow> (\<forall>j \<in> set results. \<not> is_break j \<and> job_status j \<in> {PASS, SKIP})"
proof -
  have ok: "\<forall>j \<in> set results. has_results tmp_files j"
  proof (rule ccontr)
    assume "\<not> (\<forall>j \<in> set results. has_results tmp_files j)"
    from collect_jobs_missing [OF this] assms(1) show False by (simp add: finish_tests_def collect_jobs_def)
  qed
  have "passed_tests t + skipped_tests t = length (reported PASS results) + length (reported SKIP results)"
    using assms(1) ok by (auto simp: finish_tests_def collect_jobs_def collect_jobs_fold tally_of_def tally_init_def)
  moreover have "length (reported PASS results) + length (reported SKIP results)
      = length (filter (\<lambda>j. \<not> is_break j \<and> job_status j \<in> {PASS, SKIP}) results)"
  proof (induction results)
    case (Cons j js)
    then show ?case by (cases "job_status j") (auto simp: reported_def)
  qed (simp add: reported_def)
  moreover have "length (filter P results) = length results \<longleftrightarrow> (\<forall>j \<in> set results. P j)" for P
    by (metis filter_True length_filter_less order_less_irrefl)
  moreover have "code = 0 \<longleftrightarrow> passed_tests t + skipped_tests t = length results"
  proof -
    have "code = exit_code t total_tests" using assms(1) by (auto simp: finish_tests_def res_bind_Inr_iff)
    then show ?thesis using assms(2) by (auto simp: exit_code_def)
  qed
  ultimately show ?thesis by simp
qed

subsection \<open>The queued jobs\<close>

lemma suite_job_plain: "\<not> is_break (suite_job g opts wd outdir t) \<and> \<not> is_pyexample (suite_job g opts wd outdir t)"
  by (simp add: suite_job_def Let_def job_setters new_job_def)

lemma example_job_plain [simp]:
  "is_break (example_job opts wd outdir py name cmd bp) = False"
  "is_pyexample (example_job opts wd outdir py name cmd bp) = py"
  "is_break (set_skip_reason r (set_is_skip b j)) = is_break j"
  "is_pyexample (set_skip_reason r (set_is_skip b j)) = is_pyexample j"
  by (simp_all add: example_job_def job_setters new_job_def)

lemma example_jobs_plain:
  "example_jobs cond opts wd outdir programs tests = Inr js \<Longrightarrow> \<forall>j \<in> set js. \<not> is_break j \<and> \<not> is_pyexample j"
proof (induction tests arbitrary: js)
  case (Cons e tests)
  obtain name test do_run do_vg where e: "e = (name, test, do_run, do_vg)" by (cases e)
  show ?case
  proof (cases "example_jobs cond opts wd outdir programs tests")
    case (Inl err)
    then show ?thesis using Cons.prems
      by (auto simp: e Let_def res_bind_Inr_iff split: if_splits)
  next
    case (Inr js')
    then show ?thesis using Cons.prems Cons.IH [OF Inr]
      by (auto simp: e Let_def res_bind_Inr_iff split: if_splits)
  qed
qed simp

lemma python_jobs_plain:
  "python_jobs cond g opts wd outdir scripts tests = Inr js \<Longrightarrow> \<forall>j \<in> set js. \<not> is_break j"
proof (induction tests arbitrary: js)
  case (Cons e tests)
  obtain test do_run where e: "e = (test, do_run)" by (cases e)
  show ?case
  proof (cases "python_jobs cond g opts wd outdir scripts tests")
    case (Inl err)
    then show ?thesis using Cons.prems
      by (auto simp: e Let_def res_bind_Inr_iff split: if_splits)
  next
    case (Inr js')
    then show ?thesis using Cons.prems Cons.IH [OF Inr]
      by (auto simp: e Let_def res_bind_Inr_iff split: if_splits)
  qed
qed simp

lemma plan_jobs_runnable:
  assumes "plan_tests popen w cond g opts wd outdir = Inr (Queue jobs)" "PYTHON g \<noteq> []"
  shows "\<forall>j \<in> set jobs. runnable g j"
proof -
  obtain suites programs scripts ex exs pys where q: "jobs = suite_jobs g opts wd outdir suites @ exs @ pys"
      "queued_examples cond g opts wd outdir programs ex = Inr exs" "queued_python cond g opts wd outdir scripts ex = Inr pys"
    using assms(1) by (auto simp: plan_tests_def Let_def res_bind_Inr_iff split: if_splits)
  have "\<forall>j \<in> set exs. \<not> is_break j"
    using q(2) example_jobs_plain [of cond opts wd outdir programs "example_tests ex" exs]
    by (auto simp: queued_examples_def Let_def example_job_def job_setters new_job_def split: if_splits option.splits)
  moreover have "\<forall>j \<in> set pys. \<not> is_break j"
    using q(3) python_jobs_plain [of cond g opts wd outdir scripts "python_tests ex" pys]
    by (auto simp: queued_python_def example_job_def job_setters new_job_def split: if_splits)
  ultimately show ?thesis using q(1) assms(2) suite_job_plain by (auto simp: runnable_def suite_jobs_def)
qed


subsection \<open>The suites that are run\<close>

lemma remove_tests_distinct:
  "distinct sl \<Longrightarrow> distinct (remove_tests sl ts) \<and> set (remove_tests sl ts) = set sl - set ts"
proof (induction ts arbitrary: sl)
  case (Cons t ts)
  have "remove_tests sl (t # ts) = remove_tests (remove1 t sl) ts"
    by (simp add: remove_tests_def remove1_idem)
  then show ?case using Cons.IH [of "remove1 t sl"] Cons.prems by auto
qed (simp add: remove_tests_def)

text \<open>
  Without \<open>--suite\<close>, \<open>--example\<close> or \<open>--pyexample\<close>, when the test runner lists its suites and its
  performance suites (each name once per list), the suites run are exactly the listed ones that are not performance
  suites, unless performance tests were asked for, in which case all listed ones are run.
\<close>
theorem suite_list_excludes_performance:
  assumes "suite opts = []" "example_opt opts = []" "pyexample opts = []"
    and "\<And>cmd. (\<exists>et. run_job_synchronously popen g cmd wd False False '''' = Inr (0, Str (out cmd), Str err, et))"
    and "distinct (py_split (CHR 0x0A) (out (if constrain opts \<noteq> [] then
           runner_cmd g ('' --print-test-name-list --test-type='' @ constrain opts)
         else runner_cmd g '' --print-test-name-list'')))"
  shows "\<exists>sl. suite_list popen g opts wd = Inr sl \<and> distinct sl \<and>
    set sl = set (py_split (CHR 0x0A) (out (if constrain opts \<noteq> [] then
           runner_cmd g ('' --print-test-name-list --test-type='' @ constrain opts)
         else runner_cmd g '' --print-test-name-list'')))
      - (if constrain opts = ''performance'' then {}
         else set (py_split (CHR 0x0A) (out (runner_cmd g '' --print-test-name-list --test-type=performance''))))"
proof -
  define all where "all = py_split (CHR 0x0A) (out (if constrain opts \<noteq> [] then
           runner_cmd g ('' --print-test-name-list --test-type='' @ constrain opts)
         else runner_cmd g '' --print-test-name-list''))"
  define perf where "perf = py_split (CHR 0x0A) (out (runner_cmd g '' --print-test-name-list --test-type=performance''))"
  have "requested_suites popen g opts wd = Inr (Str (out (if constrain opts \<noteq> [] then
           runner_cmd g ('' --print-test-name-list --test-type='' @ constrain opts)
         else runner_cmd g '' --print-test-name-list'')), False)"
    using assms(1-3) assms(4) [of "if constrain opts \<noteq> [] then
           runner_cmd g ('' --print-test-name-list --test-type='' @ constrain opts)
         else runner_cmd g '' --print-test-name-list''"] by (auto simp: requested_suites_def)
  then have sl: "suite_list popen g opts wd = Inr (if constrain opts \<noteq> ''performance'' then remove_tests all perf else all)"
    using assms(4) [of "runner_cmd g '' --print-test-name-list --test-type=performance''"]
    unfolding suite_list_def all_def perf_def by (auto simp: text_of_def Let_def)
  have d: "distinct all" using assms(5) by (simp add: all_def)
  show ?thesis using sl d remove_tests_distinct [OF d, of perf] unfolding all_def [symmetric] perf_def [symmetric] by auto
qed

definition runner_popen :: popen where
  "runner_popen cmd dir =
     \<lparr>proc_returncode = 0, proc_stdout = if py_endswith cmd ''performance'' then ''perf'' @ nl else ''core'' @ nl @ ''perf'' @ nl @ ''tcp'',
      proc_stderr = '''', proc_elapsed = 0\<rparr>"

theorem suite_list_excludes_performance_witness:
  "\<exists>sl. suite_list runner_popen sample_config default_options ''/ns3'' = Inr sl \<and> set sl = {''core'', ''tcp''}"
proof -
  define out where "out = (\<lambda>cmd. proc_stdout (runner_popen (path_join ''/ns3/build'' [cmd]) ''/ns3''))"
  have run: "\<exists>et. run_job_synchronously runner_popen sample_config cmd ''/ns3'' False False '''' = Inr (0, Str (out cmd), Str '''', et)" for cmd
    by (simp add: run_job_synchronously_def job_command_def sample_config_def decode_output_def py_decode_def Let_def runner_popen_def out_def)
  have all: "py_split (CHR 0x0A) (out (runner_cmd sample_config '' --print-test-name-list'')) = [''core'', ''perf'', ''tcp'']"
    unfolding out_def by code_simp
  have perf: "py_split (CHR 0x0A) (out (runner_cmd sample_config '' --print-test-name-list --test-type=performance'')) = [''perf'', '''']"
    unfolding out_def by code_simp
  have o: "suite default_options = []" "example_opt default_options = []" "pyexample default_options = []" "constrain default_options = []"
    by (simp_all add: default_options_def)
  have "\<exists>sl. suite_list runner_popen sample_config default_options ''/ns3'' = Inr sl \<and> distinct sl \<and>
      set sl = {''core'', ''perf'', ''tcp''} - {''perf'', ''''}"
    using suite_list_excludes_performance [OF o(1-3) run] by (simp add: o(4) all perf)
  then show ?thesis by auto
qed

text \<open>
  \<open>test.py --kinds\<close> never prints the kinds: \<open>run_job_synchronously\<close> has already decoded the output, so
  the call of \<open>decode\<close> on it raises \<open>AttributeError\<close> (or \<open>UnicodeDecodeError\<close> when it could not be
  decoded), and no plan of any kind is returned.
\<close>
theorem kinds_option_raises:
  assumes "kinds opts" "nowaf opts \<or> proc_returncode (popen (waf_command opts) wd) = 0"
    and "build_programs w g = Inr (programs, scripts)" "collect_examples w g = Inr ex"
  shows "plan_tests popen w cond g opts wd outdir \<in> {Inl AttributeError, Inl UnicodeDecodeError}"
proof -
  have "print_kinds popen g wd \<in> {Inl AttributeError, Inl UnicodeDecodeError}"
  proof -
    obtain c where c: "job_command g (runner_cmd g '' --print-test-type-list'') False False '''' = Inr c"
      using job_command_total [of False g "runner_cmd g '' --print-test-type-list''" False "''''"] by blast
    show ?thesis
      by (auto simp: print_kinds_def run_job_synchronously_def c decode_output_def py_decode_def decode_method_def Let_def)
  qed
  then show ?thesis using assms by (auto simp: plan_tests_def Let_def)
qed


definition built_world :: world where
  "built_world =
     \<lparr>file_system = (\<lambda>_. None)(''/ns3/build/build-status.py'' := Some [''ns3_runnable_programs = []'', ''ns3_runnable_scripts = []'']),
      exists = (\<lambda>p. p = ''/ns3/build/build-status.py''), curdir = ''/ns3'',
      eval_cpp = (\<lambda>_. Inr []), eval_py = (\<lambda>_. Inr []), eval_names = (\<lambda>_. Inr [''examples/udp'']) \<rparr>"

theorem kinds_option_raises_witness:
  "plan_tests sample_popen built_world (\<lambda>_. Inr True) sample_config (default_options\<lparr>kinds := True, nowaf := True\<rparr>) ''/ns3'' ''out''
     \<in> {Inl AttributeError, Inl UnicodeDecodeError}"
proof -
  have "build_programs built_world sample_config = Inr ([''examples/udp''], [''examples/udp''])" by code_simp
  moreover have "collect_examples built_world sample_config = Inr \<lparr>example_tests = [], example_names_original = [], python_tests = []\<rparr>"
    by code_simp
  ultimately show ?thesis
    by (intro kinds_option_raises [where programs = "[''examples/udp'']" and scripts = "[''examples/udp'']"]) simp_all
qed

end
