(* ===== verification/Test_Report.thy ===== *)
theory Test_Report
  imports Py_String
begin

text \<open>
  \<open>src/test.py\<close>, the reports: \<open>read_test\<close>, \<open>node_to_text\<close>, \<open>translate_to_text\<close> and
  \<open>translate_to_html\<close>. The results file is the element tree that \<open>xml.etree.ElementTree\<close> gives for it;
  a report is the list of strings written to the file, in order. A \<open>None\<close> text prints as \<open>None\<close>;
  a missing element raises \<open>AttributeError\<close>.
\<close>

subsection \<open>Element trees\<close>

datatype xml = Elem (tag: string) (attrs: "(string \<times> string) list") (etext: "string option") (kids: "xml list")

definition findall :: "string \<Rightarrow> xml \<Rightarrow> xml list" where
  "findall name e = filter (\<lambda>k. tag k = name) (kids e)"

definition find_text :: "string \<Rightarrow> xml \<Rightarrow> string option result" where
  "find_text name e = (case findall name e of [] \<Rightarrow> Inl AttributeError | k # _ \<Rightarrow> Inr (etext k))"

definition shown :: "string option \<Rightarrow> string" where
  "shown t = (case t of None \<Rightarrow> ''None'' | Some s \<Rightarrow> s)"

definition find_time :: "xml \<Rightarrow> string option" where
  "find_time e = (case findall ''Time'' e of [] \<Rightarrow> Some '''' | k # _ \<Rightarrow> map_of (attrs k) ''real'')"

definition read_test :: "xml \<Rightarrow> (string option \<times> string option \<times> string option \<times> string option) result" where
  "read_test test =
     res_bind (find_text ''Result'' test) (\<lambda>result.
     res_bind (find_text ''Name'' test) (\<lambda>name.
       Inr (result, name, (case findall ''Reason'' test of [] \<Rightarrow> Some '''' | k # _ \<Rightarrow> etext k), find_time test)))"

subsection \<open>The text report\<close>

abbreviation newline :: string where
  "newline \<equiv> [CHR 0x0A]"

definition failure_text :: "xml \<Rightarrow> string list result" where
  "failure_text details =
     res_bind (find_text ''Message'' details) (\<lambda>message.
     res_bind (find_text ''Condition'' details) (\<lambda>condition.
     res_bind (find_text ''Actual'' details) (\<lambda>actual.
     res_bind (find_text ''Limit'' details) (\<lambda>limit.
     res_bind (find_text ''File'' details) (\<lambda>file.
     res_bind (find_text ''Line'' details) (\<lambda>line.
       Inr [''    Details:'' @ newline, ''      Message:   '' @ shown message @ newline,
            ''      Condition: '' @ shown condition @ newline, ''      Actual:    '' @ shown actual @ newline,
            ''      Limit:     '' @ shown limit @ newline, ''      File:      '' @ shown file @ newline,
            ''      Line:      '' @ shown line @ newline]))))))"

definition test_header :: "xml \<Rightarrow> string list result" where
  "test_header test =
     res_bind (read_test test) (\<lambda>(result, name, reason, time_real).
       let reason = (if reason \<noteq> None \<and> reason \<noteq> Some '''' then '' ('' @ shown reason @ '')'' else shown reason) in
       Inr [shown result @ '': Test Suite \"'' @ shown name @ ''\" ('' @ shown time_real @ '')'' @ reason @ newline])"

definition test_entry :: "xml \<Rightarrow> string list result" where
  "test_entry test =
     res_bind (test_header test) (\<lambda>h.
     res_bind (res_list failure_text (findall ''FailureDetails'' test)) (\<lambda>ds. Inr (h @ concat ds)))"

lemma findall_size: "k \<in> set (findall name e) \<Longrightarrow> size k < size e"
  by (cases e) (auto simp: findall_def dest: size_list_estimation' [of _ _ _ size] intro: le_imp_less_Suc)

fun res_concat :: "string list result list \<Rightarrow> string list result" where
  "res_concat [] = Inr []"
| "res_concat (r # rs) = res_bind r (\<lambda>x. res_bind (res_concat rs) (\<lambda>y. Inr (x @ y)))"

function node_to_text :: "xml \<Rightarrow> string list result" where
  "node_to_text test =
     res_bind (test_entry test) (\<lambda>e.
     res_bind (res_concat (map node_to_text (findall ''Test'' test))) (\<lambda>cs. Inr (e @ cs)))"
  by pat_completeness auto
termination
  by (relation "measure size") (auto intro: findall_size)

declare node_to_text.simps [simp del]

definition example_text :: "xml \<Rightarrow> string list result" where
  "example_text example =
     res_bind (find_text ''Result'' example) (\<lambda>result.
     res_bind (find_text ''Name'' example) (\<lambda>name.
       Inr [shown result @ '': Example \"'' @ shown name @ ''\" ('' @ shown (find_time example) @ '')'' @ newline]))"

definition translate_to_text :: "xml \<Rightarrow> string list result" where
  "translate_to_text et =
     res_bind (res_concat (map node_to_text (findall ''Test'' et))) (\<lambda>tests.
     res_bind (res_concat (map example_text (findall ''Example'' et))) (\<lambda>examples. Inr (tests @ examples)))"

subsection \<open>The HTML report\<close>

definition row_open :: string where
  "row_open = ''<tr>'' @ newline"

definition row_close :: string where
  "row_close = ''</tr>'' @ newline"

definition cell :: "string option \<Rightarrow> string" where
  "cell t = ''<td>'' @ shown t @ ''</td>'' @ newline"

definition colour_cell :: "string \<Rightarrow> string option \<Rightarrow> string" where
  "colour_cell colour t = ''<td style=\"color:'' @ colour @ ''\">'' @ shown t @ ''</td>'' @ newline"

definition details_html :: "xml \<Rightarrow> string list result" where
  "details_html details =
     res_bind (find_text ''Message'' details) (\<lambda>message.
     res_bind (find_text ''Condition'' details) (\<lambda>condition.
     res_bind (find_text ''Actual'' details) (\<lambda>actual.
     res_bind (find_text ''Limit'' details) (\<lambda>limit.
     res_bind (find_text ''File'' details) (\<lambda>file.
     res_bind (find_text ''Line'' details) (\<lambda>line.
       Inr [''<td>'', ''<b>Message: </b>'' @ shown message @ '', '', ''<b>Condition: </b>'' @ shown condition @ '', '',
            ''<b>Actual: </b>'' @ shown actual @ '', '', ''<b>Limit: </b>'' @ shown limit @ '', '',
            ''<b>File: </b>'' @ shown file @ '', '', ''<b>Line: </b>'' @ shown line, ''</td>'' @ newline,
            ''</td>'' @ newline]))))))"

fun failure_rows :: "bool \<Rightarrow> string option \<Rightarrow> string option \<Rightarrow> string option \<Rightarrow> xml list \<Rightarrow> string list result" where
  "failure_rows first_row result name time [] = Inr []"
| "failure_rows first_row result name time (details # rest) =
     res_bind (details_html details) (\<lambda>d.
     res_bind (failure_rows False result name time rest) (\<lambda>rows.
       Inr ([row_open] @
            (if first_row then [colour_cell ''red'' result, cell name, cell time]
             else [cell (Some ''''), cell (Some ''''), cell (Some '''')]) @ d @ rows)))"

definition case_html :: "xml \<Rightarrow> string list result" where
  "case_html test_case =
     res_bind (read_test test_case) (\<lambda>(result, name, reason, time).
       if result = Some ''FAIL'' then failure_rows True result name time (findall ''FailureDetails'' test_case)
       else Inr [row_open, colour_cell ''green'' result, cell name, cell time, cell reason, row_close])"

definition suite_html :: "xml \<Rightarrow> string list result" where
  "suite_html suite =
     res_bind (read_test suite) (\<lambda>(result, name, reason, time).
       let heading =
             (if result = Some ''PASS'' then
                ''<h3 style=\"color:green\">'' @ shown result @ '': '' @ shown name @ '' ('' @ shown time @ '')</h3>'' @ newline
              else if result = Some ''SKIP'' then
                ''<h3 style=\"color:#ff6600\">'' @ shown result @ '': '' @ shown name @ '' ('' @ shown time @ '') ('' @
                shown reason @ '')</h3>'' @ newline
              else ''<h3 style=\"color:red\">'' @ shown result @ '': '' @ shown name @ '' ('' @ shown time @ '')</h3>'' @ newline);
           start = [heading, ''<table border=\"1\">'' @ newline, ''<th> Result </th>'' @ newline]
       in if result \<in> {Some ''CRASH'', Some ''SKIP'', Some ''VALGR''} then
            Inr (start @ [row_open,
              (if result = Some ''SKIP'' then colour_cell ''#ff6600'' result else colour_cell ''red'' result),
              row_close, ''</table>'' @ newline])
          else
            res_bind (res_concat (map case_html (findall ''Test'' suite))) (\<lambda>cases.
              Inr (start @ [''<th>Test Case Name</th>'' @ newline, ''<th> Time </th>'' @ newline] @
                   (if result = Some ''FAIL'' then [''<th>Failure Details</th>'' @ newline] else []) @
                   cases @ [''</table>'' @ newline])))"

definition example_html :: "xml \<Rightarrow> string list result" where
  "example_html example =
     res_bind (read_test example) (\<lambda>(result, name, reason, time).
       Inr [row_open,
            (if result = Some ''PASS'' then colour_cell ''green'' result
             else if result = Some ''SKIP'' then ''<td style=\"color:#ff6600\">'' @ shown result @ ''</fd>'' @ newline
             else colour_cell ''red'' result),
            cell name, cell time, cell reason, row_close])"

definition translate_to_html :: "xml \<Rightarrow> string list result" where
  "translate_to_html et =
     res_bind (res_concat (map suite_html (findall ''Test'' et))) (\<lambda>suites.
     res_bind (res_concat (map example_html (findall ''Example'' et))) (\<lambda>examples.
       Inr ([''<html>'' @ newline, ''<body>'' @ newline, ''<center><h1>ns-3 Test Results</h1></center>'' @ newline,
             ''<h2>Test Suites</h2>'' @ newline] @ suites @
            [''<h2>Examples</h2>'' @ newline, ''<table border=\"1\">'' @ newline, ''<th> Result </th>'' @ newline,
             ''<th>Example Name</th>'' @ newline, ''<th>Elapsed Time</th>'' @ newline, ''<th>Details</th>'' @ newline] @
            examples @ [''</table>'' @ newline, ''</body>'' @ newline, ''</html>'' @ newline])))"

subsection \<open>What the text report contains\<close>

lemma res_concat_append:
  "res_concat (xs @ ys) = res_bind (res_concat xs) (\<lambda>x. res_bind (res_concat ys) (\<lambda>y. Inr (x @ y)))"
proof (induction xs)
  case Nil
  then show ?case by (cases "res_concat ys") simp_all
next
  case (Cons x xs)
  then show ?case by (cases x; cases "res_concat xs"; cases "res_concat ys") simp_all
qed

lemma res_concat_concat: "res_concat (concat xss) = res_concat (map res_concat xss)"
  by (induction xss) (simp_all add: res_concat_append)

function nodes :: "xml \<Rightarrow> xml list" where
  "nodes e = e # concat (map nodes (findall ''Test'' e))"
  by pat_completeness auto
termination
  by (relation "measure size") (auto intro: findall_size)

declare nodes.simps [simp del]

lemma node_to_text_nodes: "node_to_text e = res_concat (map test_entry (nodes e))"
proof (induction e rule: nodes.induct)
  case (1 e)
  have "map node_to_text (findall ''Test'' e) = map (\<lambda>x. res_concat (map test_entry (nodes x))) (findall ''Test'' e)"
    using 1 by (intro map_cong) auto
  then have "res_concat (map node_to_text (findall ''Test'' e))
      = res_concat (map test_entry (concat (map nodes (findall ''Test'' e))))"
    by (simp only: map_concat res_concat_concat map_map comp_def)
  then show ?case by (subst node_to_text.simps, subst nodes.simps) (simp add: res_bind_def)
qed

text \<open>
  The text report has one entry for every test of the results tree, suites and nested test cases alike,
  in document order (each test before its own cases), each with all its failure details, and then one
  line for every example; it raises exactly when one of these entries does, with the error of the first one.
\<close>
theorem text_report_lists_every_test:
  "translate_to_text et =
     res_concat (map test_entry (concat (map nodes (findall ''Test'' et))) @ map example_text (findall ''Example'' et))"
proof -
  have "res_concat (map node_to_text (findall ''Test'' et))
      = res_concat (map test_entry (concat (map nodes (findall ''Test'' et))))"
    by (simp add: node_to_text_nodes [abs_def] map_concat res_concat_concat comp_def)
  then show ?thesis by (simp add: translate_to_text_def res_concat_append)
qed

subsection \<open>Rows of the HTML report\<close>

definition unclosed_case :: "xml \<Rightarrow> nat" where
  "unclosed_case c = (if find_text ''Result'' c = Inr (Some ''FAIL'') then length (findall ''FailureDetails'' c) else 0)"

definition unclosed_suite :: "xml \<Rightarrow> nat" where
  "unclosed_suite s =
     (if find_text ''Result'' s \<in> {Inr (Some ''CRASH''), Inr (Some ''SKIP''), Inr (Some ''VALGR'')} then 0
      else sum_list (map unclosed_case (findall ''Test'' s)))"

definition open_rows :: "string list \<Rightarrow> int" where
  "open_rows ps = int (count_list ps row_open) - int (count_list ps row_close)"

lemma open_rows_simps [simp]:
  "open_rows [] = 0"
  "open_rows (p # ps) = (if p = row_open then 1 else if p = row_close then -1 else 0) + open_rows ps"
  "open_rows (ps @ qs) = open_rows ps + open_rows qs"
  by (auto simp: open_rows_def row_open_def row_close_def)

lemmas row_texts = row_open_def row_close_def cell_def colour_cell_def

lemma open_rows_res_concat:
  assumes "\<And>x out. x \<in> set xs \<Longrightarrow> f x = Inr out \<Longrightarrow> open_rows out = int (n x)" "res_concat (map f xs) = Inr out"
  shows "open_rows out = int (sum_list (map n xs))"
  using assms
proof (induction xs arbitrary: out)
  case (Cons x xs)
  then show ?case by (fastforce simp: res_bind_Inr_iff)
qed simp

lemma details_rows: "details_html d = Inr out \<Longrightarrow> open_rows out = 0"
  by (auto simp: details_html_def res_bind_Inr_iff row_texts)

lemma failure_rows_open: "failure_rows b r n t ds = Inr out \<Longrightarrow> open_rows out = int (length ds)"
proof (induction b r n t ds arbitrary: out rule: failure_rows.induct)
  case (2 b r n t d ds)
  then show ?case using details_rows [of d] by (auto simp: res_bind_Inr_iff row_texts)
qed simp

lemma read_test_result: "read_test e = Inr (r, n, re, t) \<Longrightarrow> find_text ''Result'' e = Inr r"
  by (auto simp: read_test_def res_bind_Inr_iff)

lemma case_rows:
  assumes "case_html c = Inr out"
  shows "open_rows out = int (unclosed_case c)"
proof -
  obtain r n re t where rt: "read_test c = Inr (r, n, re, t)" using assms by (auto simp: case_html_def res_bind_Inr_iff)
  then have "case_html c = (if r = Some ''FAIL'' then failure_rows True r n t (findall ''FailureDetails'' c)
      else Inr [row_open, colour_cell ''green'' r, cell n, cell t, cell re, row_close])" by (simp add: case_html_def)
  then show ?thesis using assms read_test_result [OF rt] failure_rows_open
    by (auto simp: unclosed_case_def row_texts split: if_splits)
qed

lemma suite_rows:
  assumes "suite_html s = Inr out"
  shows "open_rows out = int (unclosed_suite s)"
proof -
  obtain r n re t where rt: "read_test s = Inr (r, n, re, t)" using assms by (auto simp: suite_html_def res_bind_Inr_iff)
  note res = read_test_result [OF rt]
  show ?thesis
  proof (cases "r \<in> {Some ''CRASH'', Some ''SKIP'', Some ''VALGR''}")
    case True
    then show ?thesis using assms rt res by (auto simp: suite_html_def Let_def unclosed_suite_def row_texts)
  next
    case False
    then obtain cases where c: "res_concat (map case_html (findall ''Test'' s)) = Inr cases"
      using assms rt by (auto simp: suite_html_def Let_def res_bind_Inr_iff)
    have "open_rows out = open_rows cases"
      using assms rt c False by (auto simp: suite_html_def Let_def row_texts)
    also have "\<dots> = int (sum_list (map unclosed_case (findall ''Test'' s)))"
      by (rule open_rows_res_concat [OF case_rows c])
    finally show ?thesis using False res by (auto simp: unclosed_suite_def)
  qed
qed

lemma example_rows:
  assumes "example_html e = Inr out"
  shows "open_rows out = int 0"
proof -
  obtain r n re t where "read_test e = Inr (r, n, re, t)" using assms by (auto simp: example_html_def res_bind_Inr_iff)
  then show ?thesis using assms by (auto simp: example_html_def row_texts)
qed

text \<open>
  The HTML report leaves table rows open: the number of \<open><tr>\<close> written exceeds the number of
  \<open></tr>\<close> by exactly the number of failure details reported (the code that should end such a row writes a
  second \<open></td>\<close>); without a failed test case rows are balanced.
\<close>
theorem html_report_open_rows:
  assumes "translate_to_html et = Inr out"
  shows "count_list out row_open = count_list out row_close + sum_list (map unclosed_suite (findall ''Test'' et))"
proof -
  obtain suites examples where parts: "res_concat (map suite_html (findall ''Test'' et)) = Inr suites"
      "res_concat (map example_html (findall ''Example'' et)) = Inr examples"
      "open_rows out = open_rows suites + open_rows examples"
    using assms by (auto simp: translate_to_html_def res_bind_Inr_iff row_texts)
  have "open_rows suites = int (sum_list (map unclosed_suite (findall ''Test'' et)))"
    by (rule open_rows_res_concat [OF suite_rows parts(1)])
  moreover have "open_rows examples = 0"
    using open_rows_res_concat [OF example_rows parts(2)] by (simp add: sum_list_triv)
  ultimately show ?thesis using parts(3) by (simp add: open_rows_def)
qed

theorem html_report_open_rows_witness:
  "\<exists>out. translate_to_html (Elem ''Results'' [] None [Elem ''Test'' [] None
     [Elem ''Name'' [] (Some ''t'') [], Elem ''Result'' [] (Some ''FAIL'') [], Elem ''Test'' [] None
       [Elem ''Name'' [] (Some ''c'') [], Elem ''Result'' [] (Some ''FAIL'') [], Elem ''FailureDetails'' [] None
         [Elem ''Message'' [] None [], Elem ''Condition'' [] None [], Elem ''Actual'' [] None [],
          Elem ''Limit'' [] None [], Elem ''File'' [] None [], Elem ''Line'' [] None []]]]]) = Inr out
     \<and> count_list out row_open = count_list out row_close + 1" (is "\<exists>out. translate_to_html ?et = Inr out \<and> _")
proof -
  have "(case translate_to_html ?et of Inr _ \<Rightarrow> True | Inl _ \<Rightarrow> False)" by code_simp
  then obtain out where o: "translate_to_html ?et = Inr out" by (auto split: sum.splits)
  have "sum_list (map unclosed_suite (findall ''Test'' ?et)) = 1" by code_simp
  then show ?thesis using html_report_open_rows [OF o] o by auto
qed

end
