(* ===== verification/Shellcmd.thy ===== *)
theory Shellcmd
  imports Py_Path
begin

text \<open>
  \<open>src/waf-tools/shellcmd.py\<close>: the small shell used by the build. \<open>shlex_split\<close> is the standard
  tokenizer (POSIX mode, no comments); \<open>parse\<close> is the state machine of \<open>Pipeline.parse\<close>, one step per
  token; \<open>run\<close> is the loop of \<open>Pipeline.run\<close>, which starts the commands and combines their exit
  codes.

  What the operating system does is a parameter of \<open>run\<close>: whether a file can be opened and what
  exit code a started command will have. The result of \<open>run\<close> comes with the list of the
  commands that were started. White space is ASCII white space. The text of the messages printed is not modelled, except that
  printing needs a value for \<open>retval\<close>.
\<close>

subsection \<open>Tokens\<close>

datatype lex_state = Blank | Word | Quote char | Escape lex_state

definition shlex_space :: "char \<Rightarrow> bool" where
  "shlex_space c \<longleftrightarrow> c \<in> {CHR '' '', CHR 0x09, CHR 0x0D, CHR 0x0A}"

definition shlex_quote :: "char \<Rightarrow> bool" where
  "shlex_quote c \<longleftrightarrow> c = CHR 0x27 \<or> c = CHR 0x22"

abbreviation backslash :: char where
  "backslash \<equiv> CHR 0x5C"

text \<open>The token being read, whether part of it was quoted, the tokens already read.\<close>

fun shlex :: "lex_state \<Rightarrow> string \<Rightarrow> bool \<Rightarrow> string list \<Rightarrow> string \<Rightarrow> string list result" where
  "shlex Blank tok quoted toks [] = Inr toks"
| "shlex Word tok quoted toks [] = Inr (if tok \<noteq> [] \<or> quoted then toks @ [tok] else toks)"
| "shlex (Quote q) tok quoted toks [] = Inl ValueError"
| "shlex (Escape st) tok quoted toks [] = Inl ValueError"
| "shlex Blank tok quoted toks (c # cs) =
     (if shlex_space c then shlex Blank tok quoted toks cs
      else if c = backslash then shlex (Escape Word) [] False toks cs
      else if shlex_quote c then shlex (Quote c) [] False toks cs
      else shlex Word [c] False toks cs)"
| "shlex (Quote q) tok quoted toks (c # cs) =
     (if c = q then shlex Word tok True toks cs
      else if c = backslash \<and> q = CHR 0x22 then shlex (Escape (Quote q)) tok True toks cs
      else shlex (Quote q) (tok @ [c]) True toks cs)"
| "shlex (Escape st) tok quoted toks (c # cs) =
     (case st of
        Quote q \<Rightarrow> shlex st (if c \<noteq> backslash \<and> c \<noteq> q then tok @ [backslash, c] else tok @ [c]) quoted toks cs
      | _ \<Rightarrow> shlex st (tok @ [c]) quoted toks cs)"
| "shlex Word tok quoted toks (c # cs) =
     (if shlex_space c then shlex Blank [] False (if tok \<noteq> [] \<or> quoted then toks @ [tok] else toks) cs
      else if shlex_quote c then shlex (Quote c) tok quoted toks cs
      else if c = backslash then shlex (Escape Word) tok quoted toks cs
      else shlex Word (tok @ [c]) quoted toks cs)"

definition shlex_split :: "string \<Rightarrow> string list result" where
  "shlex_split s = shlex Blank [] False [] s"

subsection \<open>Nodes\<close>

datatype target = PIPE | STDOUT | Path string

record command =
  argv :: "string list"
  stdin :: "string option"
  stdout :: "target option"
  stderr :: "target option"
  env_vars :: "(string, string) dict option"

definition new_command :: "string \<Rightarrow> command" where
  "new_command name = \<lparr>argv = [name], stdin = None, stdout = None, stderr = None, env_vars = None\<rparr>"

datatype node = Pipe | And | Or | Command command | Chdir "string option"

definition word_char :: "char \<Rightarrow> bool" where
  "word_char c \<longleftrightarrow> (let n = byte c in (97 \<le> n \<and> n \<le> 122) \<or> (65 \<le> n \<and> n \<le> 90) \<or> (48 \<le> n \<and> n \<le> 57) \<or> n = 95)"

text \<open>\<open>^([a-zA-Z0-9_]+)=(\S+)$\<close>, where \<open>$\<close> also matches before a newline that ends the token\<close>

definition env_var_match :: "string \<Rightarrow> (string \<times> string) option" where
  "env_var_match token =
     (let name = takeWhile (\<lambda>c. c \<noteq> CHR ''='') token;
          rest = dropWhile (\<lambda>c. c \<noteq> CHR ''='') token;
          val = tl rest;
          val' = (if val \<noteq> [] \<and> last val = CHR 0x0A then butlast val else val)
      in if rest \<noteq> [] \<and> name \<noteq> [] \<and> list_all word_char name \<and> val' \<noteq> [] \<and> list_all (\<lambda>c. \<not> py_space c) val'
         then Some (name, val') else None)"

subsection \<open>parse\<close>

datatype parse_state = BEGIN | COMMAND | CHDIR | STDERR_S | STDOUT_S | STDIN_S

record parser =
  state :: parse_state
  current_command :: "node option"
  pipeline :: "node list"
  pending_env :: "(string, string) dict"

definition commit_command :: "parser \<Rightarrow> parser result" where
  "commit_command p =
     (case current_command p of
        None \<Rightarrow> Inl AssertionError
      | Some n \<Rightarrow> Inr (p\<lparr>pipeline := pipeline p @ [n], current_command := None\<rparr>))"

definition commit_op :: "node \<Rightarrow> parser \<Rightarrow> parser result" where
  "commit_op op p =
     res_bind (commit_command p) (\<lambda>p. Inr (p\<lparr>pipeline := pipeline p @ [op], state := BEGIN\<rparr>))"

definition begin_token :: "parser \<Rightarrow> string \<Rightarrow> parser result" where
  "begin_token p token =
     (case env_var_match token of
        Some (k, v) \<Rightarrow> Inr (p\<lparr>pending_env := dict_set k v (pending_env p)\<rparr>)
      | None \<Rightarrow>
          if current_command p \<noteq> None then Inl AssertionError
          else if token = ''cd'' then
            if pending_env p \<noteq> [] then Inl AssertionError
            else Inr (p\<lparr>current_command := Some (Chdir None), state := CHDIR\<rparr>)
          else
            Inr (p\<lparr>current_command := Some (Command ((new_command token)
                     \<lparr>env_vars := if pending_env p \<noteq> [] then Some (pending_env p) else None\<rparr>)),
                   pending_env := [], state := COMMAND\<rparr>))"

definition command_token :: "parser \<Rightarrow> command \<Rightarrow> string \<Rightarrow> parser result" where
  "command_token p c token =
     (if token = ''>'' then Inr (p\<lparr>state := STDOUT_S\<rparr>)
      else if token = ''2>'' then Inr (p\<lparr>state := STDERR_S\<rparr>)
      else if token = ''2>&1'' then
        if stderr c \<noteq> None then Inl AssertionError
        else Inr (p\<lparr>current_command := Some (Command (c\<lparr>stderr := Some STDOUT\<rparr>))\<rparr>)
      else if token = ''<'' then Inr (p\<lparr>state := STDIN_S\<rparr>)
      else if token = ''|'' then
        if stdout c \<noteq> None then Inl AssertionError
        else commit_op Pipe (p\<lparr>current_command := Some (Command (c\<lparr>stdout := Some PIPE\<rparr>))\<rparr>)
      else if token = ''&&'' then commit_op And p
      else if token = ''||'' then commit_op Or p
      else Inr (p\<lparr>current_command := Some (Command (c\<lparr>argv := argv c @ [token]\<rparr>))\<rparr>))"

text \<open>
  The current node's class is fixed by the state; the last cases, where an attribute of the other
  class (or of \<open>None\<close>) would be read, are unreachable.
\<close>

definition parse_token :: "parser \<Rightarrow> string \<Rightarrow> parser result" where
  "parse_token p token =
     (case (state p, current_command p) of
        (BEGIN, _) \<Rightarrow> begin_token p token
      | (COMMAND, Some (Command c)) \<Rightarrow> command_token p c token
      | (CHDIR, Some (Chdir d)) \<Rightarrow>
          if token = ''&&'' then commit_op And p
          else if d \<noteq> None then Inl AssertionError
          else Inr (p\<lparr>current_command := Some (Chdir (Some token))\<rparr>)
      | (STDOUT_S, Some (Command c)) \<Rightarrow>
          if stdout c \<noteq> None then Inl AssertionError
          else Inr (p\<lparr>current_command := Some (Command (c\<lparr>stdout := Some (Path token)\<rparr>)), state := COMMAND\<rparr>)
      | (STDERR_S, Some (Command c)) \<Rightarrow>
          if stderr c \<noteq> None then Inl AssertionError
          else Inr (p\<lparr>current_command := Some (Command (c\<lparr>stderr := Some (Path token)\<rparr>)), state := COMMAND\<rparr>)
      | (STDIN_S, Some (Command c)) \<Rightarrow>
          if stdin c \<noteq> None then Inl AssertionError
          else Inr (p\<lparr>current_command := Some (Command (c\<lparr>stdin := Some token\<rparr>)), state := COMMAND\<rparr>)
      | _ \<Rightarrow> Inl AttributeError)"

definition parser_init :: parser where
  "parser_init = \<lparr>state = BEGIN, current_command = None, pipeline = [], pending_env = []\<rparr>"

definition parse_tokens :: "string list \<Rightarrow> node list result" where
  "parse_tokens tokens =
     res_bind (res_fold parse_token parser_init tokens) (\<lambda>p.
     res_bind (commit_command p) (\<lambda>p. Inr (pipeline p)))"

definition parse :: "string \<Rightarrow> node list result" where
  "parse s = res_bind (shlex_split s) parse_tokens"

subsection \<open>get_abbreviated_command\<close>

definition abbreviated_node :: "node \<Rightarrow> string list" where
  "abbreviated_node n =
     (case n of
        Command c \<Rightarrow> [hd (argv c)]
      | Chdir d \<Rightarrow> [''cd '' @ (case d of None \<Rightarrow> ''None'' | Some s \<Rightarrow> s)]
      | Pipe \<Rightarrow> [''|'']
      | And \<Rightarrow> [''&&'']
      | Or \<Rightarrow> [])"

definition get_abbreviated_command :: "node list \<Rightarrow> string" where
  "get_abbreviated_command p = py_join '' '' (concat (map abbreviated_node p))"

subsection \<open>run\<close>

datatype input = Inherited | From_file string | From_pipe

record started =
  s_argv :: "string list"
  s_stdin :: input
  s_stdout :: "target option"
  s_stderr :: "target option"
  s_env :: "(string, string) dict option"
  s_cwd :: "string option"

record system =
  can_read :: "string \<Rightarrow> bool"
  can_write :: "string \<Rightarrow> bool"
  exit_of :: "started \<Rightarrow> int result"

definition exec_piped_commands :: "int list \<Rightarrow> int" where
  "exec_piped_commands retvals = (if list_ex (\<lambda>r. r \<noteq> 0) retvals then last retvals else 0)"

definition out_ok :: "system \<Rightarrow> target option \<Rightarrow> bool" where
  "out_ok sys t =
     (case t of Some (Path f) \<Rightarrow> f \<in> {''NUL:'', ''/dev/null''} \<or> can_write sys f | _ \<Rightarrow> True)"

definition start_command :: "system \<Rightarrow> bool \<Rightarrow> string \<Rightarrow> command \<Rightarrow> (started \<times> int) result" where
  "start_command sys piped cwd c =
     (if \<not> piped \<and> stdin c \<noteq> None \<and> \<not> can_read sys (the (stdin c)) then Inl OSError
      else if \<not> out_ok sys (stdout c) \<or> \<not> out_ok sys (stderr c) then Inl OSError
      else
        let s = \<lparr>s_argv = argv c,
                 s_stdin = (if piped then From_pipe
                            else case stdin c of None \<Rightarrow> Inherited | Some f \<Rightarrow> From_file f),
                 s_stdout = stdout c, s_stderr = stderr c,
                 s_env = (case env_vars c of Some [] \<Rightarrow> None | e \<Rightarrow> e),
                 s_cwd = (if cwd = ''.'' then None else Some cwd)\<rparr>
        in res_bind (exit_of sys s) (\<lambda>r. Inr (s, r)))"

text \<open>
  The loop: \<open>piped\<close> is \<open>state == PIPE\<close>, \<open>retvals\<close> are the exit codes of \<open>piped_commands\<close>. The result is
  \<open>None\<close> when the loop ends without a \<open>return\<close>.
\<close>

fun run_loop ::
  "system \<Rightarrow> bool \<Rightarrow> bool \<Rightarrow> string \<Rightarrow> int list \<Rightarrow> started list \<Rightarrow> node list \<Rightarrow> started list \<times> int option result" where
  "run_loop sys verbose piped cwd retvals hist [] = (hist, Inr None)"
| "run_loop sys verbose piped cwd retvals hist (Chdir d # rest) =
     (case rest of
        [] \<Rightarrow> (hist, Inl IndexError)
      | next_op # rest' \<Rightarrow>
          if next_op \<noteq> And then (hist, Inl AssertionError)
          else case d of
            None \<Rightarrow> (hist, Inl TypeError)
          | Some dir \<Rightarrow> run_loop sys verbose piped (path_join2 cwd dir) retvals hist rest')"
| "run_loop sys verbose piped cwd retvals hist (Command c # rest) =
     (case start_command sys piped cwd c of
        Inl e \<Rightarrow> (hist, Inl e)
      | Inr (s, r) \<Rightarrow>
          let hist' = hist @ [s]; retvals' = retvals @ [r]; this_retval = exec_piped_commands retvals' in
          (case rest of
             [] \<Rightarrow> (hist', Inr (Some this_retval))
           | next_node # rest' \<Rightarrow>
               (case next_node of
                  Pipe \<Rightarrow> run_loop sys verbose True cwd retvals' hist' rest'
                | Or \<Rightarrow>
                    if verbose then (hist', Inl UnboundLocalError)
                    else if this_retval = 0 then (hist', Inr (Some this_retval))
                    else run_loop sys verbose False cwd [] hist' rest'
                | And \<Rightarrow>
                    if verbose then (hist', Inl UnboundLocalError)
                    else if this_retval \<noteq> 0 then (hist', Inr (Some this_retval))
                    else run_loop sys verbose False cwd [] hist' rest'
                | _ \<Rightarrow> run_loop sys verbose piped cwd retvals' hist' rest')))"
| "run_loop sys verbose piped cwd retvals hist (_ # rest) = (hist, Inl AssertionError)"

definition run :: "system \<Rightarrow> bool \<Rightarrow> node list \<Rightarrow> started list \<times> int option result" where
  "run sys verbose p = run_loop sys verbose False ''.'' [] [] p"

subsection \<open>Well-formed pipelines\<close>

fun well_formed :: "node list \<Rightarrow> bool" where
  "well_formed [Command c] \<longleftrightarrow> stdout c \<noteq> Some PIPE"
| "well_formed [Chdir d] \<longleftrightarrow> True"
| "well_formed (Command c # op # p) \<longleftrightarrow>
     (op = Pipe \<and> stdout c = Some PIPE \<or> op \<in> {And, Or} \<and> stdout c \<noteq> Some PIPE) \<and> well_formed p"
| "well_formed (Chdir d # op # p) \<longleftrightarrow> op = And \<and> well_formed p"
| "well_formed _ \<longleftrightarrow> False"








subsection \<open>Printing a pipeline\<close>

definition specials :: "string set" where
  "specials = {''>'', ''2>'', ''2>&1'', ''<'', ''|'', ''&&'', ''||''}"

definition render_command :: "command \<Rightarrow> string list" where
  "render_command c =
     (case env_vars c of None \<Rightarrow> [] | Some e \<Rightarrow> map (\<lambda>(k, v). k @ ''='' @ v) e) @ argv c @
     (case stdin c of None \<Rightarrow> [] | Some f \<Rightarrow> [''<'', f]) @
     (case stdout c of Some (Path f) \<Rightarrow> [''>'', f] | _ \<Rightarrow> []) @
     (case stderr c of Some STDOUT \<Rightarrow> [''2>&1''] | Some (Path f) \<Rightarrow> [''2>'', f] | _ \<Rightarrow> [])"

fun render_node :: "node \<Rightarrow> string list" where
  "render_node Pipe = [''|'']"
| "render_node And = [''&&'']"
| "render_node Or = [''||'']"
| "render_node (Command c) = render_command c"
| "render_node (Chdir d) = ''cd'' # (case d of None \<Rightarrow> [] | Some s \<Rightarrow> [s])"

definition render :: "node list \<Rightarrow> string list" where
  "render p = concat (map render_node p)"

definition printable_env :: "(string, string) dict option \<Rightarrow> bool" where
  "printable_env e \<longleftrightarrow>
     (case e of
        None \<Rightarrow> True
      | Some d \<Rightarrow> d \<noteq> [] \<and> distinct (map fst d) \<and> list_all (\<lambda>(k, v). env_var_match (k @ ''='' @ v) = Some (k, v)) d)"

fun printable :: "node \<Rightarrow> bool" where
  "printable (Command c) \<longleftrightarrow> argv c \<noteq> [] \<and> hd (argv c) \<noteq> ''cd'' \<and> env_var_match (hd (argv c)) = None
     \<and> set (tl (argv c)) \<inter> specials = {} \<and> stdout c \<noteq> Some STDOUT \<and> stderr c \<noteq> Some PIPE \<and> printable_env (env_vars c)"
| "printable (Chdir d) \<longleftrightarrow> d \<noteq> Some ''&&''"
| "printable _ \<longleftrightarrow> True"

definition at_begin :: "node list \<Rightarrow> (string, string) dict \<Rightarrow> parser" where
  "at_begin pl e = \<lparr>state = BEGIN, current_command = None, pipeline = pl, pending_env = e\<rparr>"

definition in_command :: "node list \<Rightarrow> command \<Rightarrow> parser" where
  "in_command pl c = \<lparr>state = COMMAND, current_command = Some (Command c), pipeline = pl, pending_env = []\<rparr>"

lemma parse_env:
  assumes "list_all (\<lambda>(k, v). env_var_match (k @ ''='' @ v) = Some (k, v)) d" "distinct (map fst (e @ d))"
  shows "res_fold parse_token (at_begin pl e) (map (\<lambda>(k, v). k @ ''='' @ v) d) = Inr (at_begin pl (e @ d))"
  using assms
proof (induction d arbitrary: e)
  case (Cons kv d)
  obtain k v where kv: "kv = (k, v)" by (cases kv)
  have "dict_set k v e = e @ [(k, v)]"
    using Cons.prems(2) kv unfolding dict_set_def by (induction e) auto
  then have "parse_token (at_begin pl e) (k @ ''='' @ v) = Inr (at_begin pl (e @ [(k, v)]))"
    using Cons.prems(1) by (simp add: parse_token_def begin_token_def at_begin_def kv)
  then show ?case using Cons.IH [of "e @ [(k, v)]"] Cons.prems by (simp add: kv)
qed simp

lemma parse_args:
  "set ts \<inter> specials = {} \<Longrightarrow>
     res_fold parse_token (in_command pl c) ts = Inr (in_command pl (c\<lparr>argv := argv c @ ts\<rparr>))"
proof (induction ts arbitrary: c)
  case (Cons t ts)
  then have "parse_token (in_command pl c) t = Inr (in_command pl (c\<lparr>argv := argv c @ [t]\<rparr>))"
    by (auto simp: parse_token_def in_command_def command_token_def specials_def)
  then show ?case using Cons.IH [of "c\<lparr>argv := argv c @ [t]\<rparr>"] Cons.prems by simp
qed simp

lemma parse_redirections:
  assumes "stdin c0 = None" "stdout c0 = None" "stderr c0 = None" "so \<noteq> Some STDOUT" "so \<noteq> Some PIPE" "se \<noteq> Some PIPE"
  shows "res_fold parse_token (in_command pl c0)
     ((case si of None \<Rightarrow> [] | Some f \<Rightarrow> [''<'', f]) @ (case so of Some (Path f) \<Rightarrow> [''>'', f] | _ \<Rightarrow> []) @
      (case se of Some STDOUT \<Rightarrow> [''2>&1''] | Some (Path f) \<Rightarrow> [''2>'', f] | _ \<Rightarrow> []))
   = Inr (in_command pl (c0\<lparr>stdin := si, stdout := so, stderr := se\<rparr>))"
  using assms
  by (auto simp: parse_token_def command_token_def in_command_def res_fold_append split: option.splits target.splits)

lemma parse_command:
  assumes "printable (Command c)"
  shows "res_fold parse_token (at_begin pl []) (render_command c)
    = Inr (in_command pl (c\<lparr>stdout := if stdout c = Some PIPE then None else stdout c\<rparr>))"
proof -
  let ?e = "case env_vars c of None \<Rightarrow> [] | Some e \<Rightarrow> e"
  let ?so = "if stdout c = Some PIPE then None else stdout c"
  obtain name args where argv: "argv c = name # args" using assms by (cases "argv c") auto
  let ?c0 = "(new_command name)\<lparr>env_vars := env_vars c\<rparr>"
  have env: "res_fold parse_token (at_begin pl []) (case env_vars c of None \<Rightarrow> [] | Some e \<Rightarrow> map (\<lambda>(k, v). k @ ''='' @ v) e)
      = Inr (at_begin pl ?e)"
    using assms parse_env [of ?e "[]" pl] by (auto simp: printable_env_def split: option.splits)
  have name: "parse_token (at_begin pl ?e) name = Inr (in_command pl ?c0)"
    using assms argv by (auto simp: parse_token_def begin_token_def at_begin_def in_command_def printable_env_def new_command_def
        split: option.splits)
  have args: "res_fold parse_token (in_command pl ?c0) args = Inr (in_command pl (?c0\<lparr>argv := name # args\<rparr>))"
    using assms argv parse_args [of args pl ?c0] by (simp add: new_command_def)
  have so: "(case stdout c of Some (Path f) \<Rightarrow> [''>'', f] | _ \<Rightarrow> []) = (case ?so of Some (Path f) \<Rightarrow> [''>'', f] | _ \<Rightarrow> [])"
    by auto
  have redir: "res_fold parse_token (in_command pl (?c0\<lparr>argv := name # args\<rparr>))
     ((case stdin c of None \<Rightarrow> [] | Some f \<Rightarrow> [''<'', f]) @ (case ?so of Some (Path f) \<Rightarrow> [''>'', f] | _ \<Rightarrow> []) @
      (case stderr c of Some STDOUT \<Rightarrow> [''2>&1''] | Some (Path f) \<Rightarrow> [''2>'', f] | _ \<Rightarrow> []))
     = Inr (in_command pl (?c0\<lparr>argv := name # args, stdin := stdin c, stdout := ?so, stderr := stderr c\<rparr>))"
    using assms by (subst parse_redirections) (auto simp: new_command_def)
  have "?c0\<lparr>argv := name # args, stdin := stdin c, stdout := ?so, stderr := stderr c\<rparr> = c\<lparr>stdout := ?so\<rparr>"
    using argv by (simp add: new_command_def)
  then show ?thesis using env name args redir unfolding render_command_def so argv
    by (simp add: res_fold_append)
qed

lemma parse_rendered:
  "well_formed p \<Longrightarrow> \<forall>n \<in> set p. printable n \<Longrightarrow>
     \<exists>q. res_fold parse_token (at_begin pl []) (render p) = Inr q \<and> commit_command q = Inr (at_begin (pl @ p) []\<lparr>state := state q\<rparr>)"
proof (induction p arbitrary: pl rule: well_formed.induct)
  case (1 c)
  then show ?case using parse_command [of c pl]
    by (auto simp: render_def in_command_def commit_command_def at_begin_def)
next
  case (2 d)
  then show ?case
    by (auto simp: render_def parse_token_def begin_token_def at_begin_def commit_command_def env_var_match_def split: option.splits)
next
  case (3 c op p)
  have op: "parse_token (in_command pl (c\<lparr>stdout := if stdout c = Some PIPE then None else stdout c\<rparr>)) (hd (render_node op))
      = Inr (at_begin (pl @ [Command c, op]) [])"
    using 3 by (auto simp: parse_token_def command_token_def in_command_def at_begin_def commit_op_def commit_command_def)
  have "render (Command c # op # p) = render_command c @ hd (render_node op) # render p"
    using 3 by (auto simp: render_def)
  then show ?case using 3 op parse_command [of c pl] 3(1) [of "pl @ [Command c, op]"]
    by (simp add: res_fold_append)
next
  case (4 d op p)
  have "res_fold parse_token (at_begin pl []) (render (Chdir d # op # p))
      = res_fold parse_token (at_begin (pl @ [Chdir d, And]) []) (render p)"
    using 4 by (cases d) (auto simp: render_def parse_token_def begin_token_def at_begin_def env_var_match_def
        commit_op_def commit_command_def)
  then show ?case using 4(1) [of "pl @ [Chdir d, And]"] 4(2,3) by auto
qed auto

text \<open>
  C9. Parsing inverts printing: the tokens of a well-formed pipeline whose words are not themselves operators
  (environment assignments first, then the words, then the redirections) parse back to exactly that
  pipeline.
\<close>
theorem parse_render_roundtrip:
  assumes "well_formed p" "list_all printable p"
  shows "parse_tokens (render p) = Inr p"
proof -
  obtain q where "res_fold parse_token (at_begin [] []) (render p) = Inr q"
      "commit_command q = Inr (at_begin p []\<lparr>state := state q\<rparr>)"
    using parse_rendered [of p "[]"] assms by (auto simp: list_all_iff)
  then show ?thesis by (simp add: parse_tokens_def parser_init_def at_begin_def)
qed

theorem parse_render_roundtrip_witness:
  "parse_tokens [''A=1'', ''ls'', ''-l'', ''>'', ''f'', ''2>&1'', ''&&'', ''cd'', ''d'', ''&&'', ''x'', ''|'', ''y'']
   = Inr [Command \<lparr>argv = [''ls'', ''-l''], stdin = None, stdout = Some (Path ''f''), stderr = Some STDOUT, env_vars = Some [(''A'', ''1'')]\<rparr>,
          And, Chdir (Some ''d''), And,
          Command \<lparr>argv = [''x''], stdin = None, stdout = Some PIPE, stderr = None, env_vars = None\<rparr>, Pipe,
          Command \<lparr>argv = [''y''], stdin = None, stdout = None, stderr = None, env_vars = None\<rparr>]" (is "parse_tokens ?ts = Inr ?p")
proof -
  have "well_formed ?p" by simp
  moreover have "list_all printable ?p"
    by (simp add: specials_def printable_env_def env_var_match_def word_char_def py_space_def)
  moreover have "render ?p = ?ts" by (simp add: render_def render_command_def)
  ultimately show ?thesis using parse_render_roundtrip [of ?p] by simp
qed

subsection \<open>Running a pipeline\<close>

text \<open>A list of pipes joined by \<open>&&\<close> and \<open>||\<close>, grouped to the right.\<close>

datatype and_or = Last "command list" | AndThen "command list" and_or | OrElse "command list" and_or

fun pipe_nodes :: "command list \<Rightarrow> node list" where
  "pipe_nodes [] = []"
| "pipe_nodes [c] = [Command c]"
| "pipe_nodes (c # cs) = Command c # Pipe # pipe_nodes cs"

fun and_or_nodes :: "and_or \<Rightarrow> node list" where
  "and_or_nodes (Last cs) = pipe_nodes cs"
| "and_or_nodes (AndThen cs t) = pipe_nodes cs @ And # and_or_nodes t"
| "and_or_nodes (OrElse cs t) = pipe_nodes cs @ Or # and_or_nodes t"

fun no_empty_pipe :: "and_or \<Rightarrow> bool" where
  "no_empty_pipe (Last cs) \<longleftrightarrow> cs \<noteq> []"
| "no_empty_pipe (AndThen cs t) \<longleftrightarrow> cs \<noteq> [] \<and> no_empty_pipe t"
| "no_empty_pipe (OrElse cs t) \<longleftrightarrow> cs \<noteq> [] \<and> no_empty_pipe t"

fun starts :: "(bool \<Rightarrow> command \<Rightarrow> started) \<Rightarrow> bool \<Rightarrow> command list \<Rightarrow> started list" where
  "starts f piped [] = []"
| "starts f piped (c # cs) = f piped c # starts f True cs"

text \<open>The reference: what is started and the exit code, from the exit code \<open>code\<close> of each start.\<close>

fun eval_and_or :: "(bool \<Rightarrow> command \<Rightarrow> started) \<Rightarrow> (started \<Rightarrow> int) \<Rightarrow> and_or \<Rightarrow> started list \<times> int" where
  "eval_and_or f code (Last cs) = (let ss = starts f False cs in (ss, code (last ss)))"
| "eval_and_or f code (AndThen cs t) =
     (let ss = starts f False cs in
      if code (last ss) = 0 then (case eval_and_or f code t of (ts, r) \<Rightarrow> (ss @ ts, r)) else (ss, code (last ss)))"
| "eval_and_or f code (OrElse cs t) =
     (let ss = starts f False cs in
      if code (last ss) = 0 then (ss, 0) else (case eval_and_or f code t of (ts, r) \<Rightarrow> (ss @ ts, r)))"

lemma exec_piped_last: "retvals \<noteq> [] \<Longrightarrow> exec_piped_commands retvals = last retvals"
  using last_in_set [of retvals] by (auto simp: exec_piped_commands_def list_ex_iff)

definition start_record :: "bool \<Rightarrow> command \<Rightarrow> started" where
  "start_record piped c =
     \<lparr>s_argv = argv c, s_stdin = (if piped then From_pipe else case stdin c of None \<Rightarrow> Inherited | Some f \<Rightarrow> From_file f),
      s_stdout = stdout c, s_stderr = stderr c, s_env = (case env_vars c of Some [] \<Rightarrow> None | e \<Rightarrow> e), s_cwd = None\<rparr>"

definition works :: "system \<Rightarrow> (started \<Rightarrow> int) \<Rightarrow> bool" where
  "works sys code \<longleftrightarrow> (\<forall>f. can_read sys f \<and> can_write sys f) \<and> exit_of sys = (\<lambda>s. Inr (code s))"

lemma start_command_works:
  "works sys code \<Longrightarrow> start_command sys piped ''.'' c = Inr (start_record piped c, code (start_record piped c))"
  by (auto simp: works_def start_command_def start_record_def out_ok_def Let_def split: option.splits target.splits)

lemma run_pipe:
  assumes "works sys code" "cs \<noteq> []" "rest = [] \<or> hd rest \<in> {And, Or}"
  shows "run_loop sys v piped ''.'' retvals hist (pipe_nodes cs @ rest) =
    (let hist' = hist @ starts start_record piped cs; r = code (last (starts start_record piped cs)) in
     case rest of
       [] \<Rightarrow> (hist', Inr (Some r))
     | op # rest' \<Rightarrow>
         if v then (hist', Inl UnboundLocalError)
         else if (r = 0) = (op = Or) then (hist', Inr (Some r))
         else run_loop sys v False ''.'' [] hist' rest')"
  using assms(2)
proof (induction cs arbitrary: piped retvals hist rule: pipe_nodes.induct)
  case (2 c)
  show ?case using assms(3)
    by (cases rest) (auto simp: start_command_works [OF assms(1)] exec_piped_last Let_def)
next
  case (3 c d cs)
  have "run_loop sys v piped ''.'' retvals hist (pipe_nodes (c # d # cs) @ rest) =
      run_loop sys v True ''.'' (retvals @ [code (start_record piped c)]) (hist @ [start_record piped c])
        (pipe_nodes (d # cs) @ rest)"
    by (simp add: start_command_works [OF assms(1)] Let_def)
  then show ?case using 3(1) [of True "retvals @ [code (start_record piped c)]" "hist @ [start_record piped c]"]
    by (simp add: Let_def)
qed simp

lemma run_and_or:
  assumes "works sys code" "no_empty_pipe t"
  shows "run_loop sys False False ''.'' [] hist (and_or_nodes t) =
    (case eval_and_or start_record code t of (ss, r) \<Rightarrow> (hist @ ss, Inr (Some r)))"
  using assms(2)
proof (induction t arbitrary: hist)
  case (Last cs)
  then show ?case using run_pipe [OF assms(1), of cs "[]" False False "[]" hist] by (auto simp: Let_def)
next
  case (AndThen cs t)
  then show ?case using run_pipe [OF assms(1), of cs "And # and_or_nodes t" False False "[]" hist]
    by (auto simp: Let_def split: prod.splits)
next
  case (OrElse cs t)
  then show ?case using run_pipe [OF assms(1), of cs "Or # and_or_nodes t" False False "[]" hist]
    by (auto simp: Let_def split: prod.splits)
qed

text \<open>
  C30. \<open>Pipeline.run\<close> on a system where files open and commands start: a pipe's exit code is that of its last
  command, and a list of pipes joined by \<open>&&\<close> and \<open>||\<close> is evaluated with short circuits and
  grouping to the right, so that a failing \<open>a\<close> in \<open>a && b || c\<close> (or a succeeding one in \<open>a || b && c\<close>)
  ends the whole list without starting \<open>c\<close>. Exactly the commands so evaluated are started, in order.
\<close>
theorem run_right_grouping:
  assumes "works sys code" "no_empty_pipe t"
  shows "run sys False (and_or_nodes t) = map_prod id (\<lambda>r. Inr (Some r)) (eval_and_or start_record code t)"
  using run_and_or [OF assms, of "[]"] by (simp add: run_def split: prod.splits)

definition test_system :: system where
  "test_system = \<lparr>can_read = (\<lambda>_. True), can_write = (\<lambda>_. True), exit_of = (\<lambda>s. Inr (if s_argv s = [''false''] then 1 else 0))\<rparr>"

theorem run_right_grouping_witness:
  "run test_system False (and_or_nodes (AndThen [new_command ''false''] (OrElse [new_command ''a''] (Last [new_command ''b'']))))
     = ([start_record False (new_command ''false'')], Inr (Some 1))"
proof -
  have "works test_system (\<lambda>s. if s_argv s = [''false''] then 1 else 0)" by (simp add: works_def test_system_def)
  from run_right_grouping [OF this, of "AndThen [new_command ''false''] (OrElse [new_command ''a''] (Last [new_command ''b'']))"]
  show ?thesis by (simp add: start_record_def new_command_def Let_def)
qed

text \<open>
  In verbose mode \<open>run\<close> fails as soon as a pipe is followed by \<open>&&\<close> or \<open>||\<close>: the message is
  formatted with \<open>retval\<close>, which is only assigned for the last pipe, so \<open>UnboundLocalError\<close> is
  raised after that first pipe has run, whatever its exit code.
\<close>
theorem run_verbose_unbound:
  assumes "works sys code" "cs \<noteq> []" "op \<in> {And, Or}"
  shows "run sys True (pipe_nodes cs @ op # rest) = (starts start_record False cs, Inl UnboundLocalError)"
  using assms(3) run_pipe [OF assms(1,2), of "op # rest" True False "[]" "[]"] by (auto simp: run_def Let_def)

theorem run_verbose_unbound_witness:
  "run test_system True [Command (new_command ''true''), And, Command (new_command ''b'')]
     = ([start_record False (new_command ''true'')], Inl UnboundLocalError)"
proof -
  have "works test_system (\<lambda>s. if s_argv s = [''false''] then 1 else 0)" by (simp add: works_def test_system_def)
  from run_verbose_unbound [OF this, of "[new_command ''true'']" And "[Command (new_command ''b'')]"] show ?thesis by simp
qed


subsection \<open>Tokenizing and abbreviating\<close>

definition plain_char :: "char \<Rightarrow> bool" where
  "plain_char c \<longleftrightarrow> \<not> shlex_space c \<and> \<not> shlex_quote c \<and> c \<noteq> backslash"

lemma shlex_word:
  "list_all plain_char w \<Longrightarrow> shlex Word tok q toks (w @ rest) = shlex Word (tok @ w) q toks rest"
  by (induction w arbitrary: tok) (auto simp: plain_char_def)

lemma shlex_word_start:
  assumes "w \<noteq> []" "list_all plain_char w"
  shows "shlex Blank [] False toks (w @ rest) = shlex Word w False toks rest"
proof -
  obtain c w' where w: "w = c # w'" using assms(1) by (cases w) auto
  then show ?thesis using assms(2) shlex_word [of w' "[c]" False toks rest] by (auto simp: plain_char_def)
qed

lemma shlex_words:
  "list_all (\<lambda>w. w \<noteq> [] \<and> list_all plain_char w) ts \<Longrightarrow>
     shlex Blank [] False toks (py_join '' '' ts) = Inr (toks @ ts)"
proof (induction "'' ''" ts arbitrary: toks rule: py_join.induct)
  case (2 w)
  then show ?case using shlex_word_start [of w toks "[]"] by simp
next
  case (3 w v ws)
  then have "shlex Blank [] False toks (w @ '' '' @ py_join '' '' (v # ws))
      = shlex Blank [] False (toks @ [w]) (py_join '' '' (v # ws))"
    using shlex_word_start [of w toks "'' '' @ py_join '' '' (v # ws)"] by (simp add: shlex_space_def)
  then show ?case using 3 by simp
qed simp

lemma parse_command_line:
  assumes "well_formed p" "list_all printable p" "list_all (\<lambda>w. w \<noteq> [] \<and> list_all plain_char w) (render p)"
  shows "shlex_split (py_join '' '' (render p)) = Inr (render p) \<and> parse (py_join '' '' (render p)) = Inr p"
proof -
  obtain q where "res_fold parse_token (at_begin [] []) (render p) = Inr q"
      "commit_command q = Inr (at_begin p []\<lparr>state := state q\<rparr>)"
    using parse_rendered [of p "[]"] assms(1,2) by (auto simp: list_all_iff)
  then have "parse_tokens (render p) = Inr p" by (simp add: parse_tokens_def parser_init_def at_begin_def)
  then show ?thesis using shlex_words [OF assms(3), of "[]"] by (simp add: parse_def shlex_split_def)
qed

text \<open>
  A pipeline written as words separated by blanks, none of them holding a blank, quote or
  backslash, is tokenized into those words, so that parsing the printed command line of a
  printable pipeline gives the pipeline back.
\<close>
theorem parse_command_line_roundtrip:
  assumes "well_formed p" "list_all printable p" "list_all (\<lambda>w. w \<noteq> [] \<and> list_all plain_char w) (render p)"
  shows "shlex_split (py_join '' '' (render p)) = Inr (render p) \<and> parse (py_join '' '' (render p)) = Inr p"
  by (rule parse_command_line [OF assms])

theorem parse_command_line_roundtrip_witness:
  "parse ''ls -l | wc > out'' = Inr
     [Command \<lparr>argv = [''ls'', ''-l''], stdin = None, stdout = Some PIPE, stderr = None, env_vars = None\<rparr>, Pipe,
      Command \<lparr>argv = [''wc''], stdin = None, stdout = Some (Path ''out''), stderr = None, env_vars = None\<rparr>]"
  (is "_ = Inr ?p")
proof -
  have "well_formed ?p" by simp
  moreover have "list_all printable ?p" by (simp add: specials_def printable_env_def env_var_match_def)
  moreover have r: "render ?p = [''ls'', ''-l'', ''|'', ''wc'', ''>'', ''out'']" by (simp add: render_def render_command_def)
  moreover have "list_all (\<lambda>w. w \<noteq> [] \<and> list_all plain_char w) (render ?p)"
    unfolding r by (simp add: plain_char_def shlex_space_def shlex_quote_def)
  ultimately show ?thesis using parse_command_line_roundtrip [of ?p] by simp
qed

text \<open>
  \<open>get_abbreviated_command\<close> never shows \<open>||\<close>: the test for it repeats the class \<open>And\<close>, so an abbreviated
  pipeline looks the same with and without its \<open>||\<close> operators.
\<close>
theorem abbreviation_drops_or:
  "get_abbreviated_command p = get_abbreviated_command (filter (\<lambda>n. n \<noteq> Or) p)"
proof -
  have "concat (map abbreviated_node p) = concat (map abbreviated_node (filter (\<lambda>n. n \<noteq> Or) p))"
    by (induction p) (auto simp: abbreviated_node_def)
  then show ?thesis by (simp add: get_abbreviated_command_def)
qed

end
