(* ===== verification/Check_Style.thy ===== *)
theory Check_Style
  imports Py_String
begin

text \<open>
  \<open>src/utils/check-style.py\<close>: patches as objects (\<open>PatchChunkLine\<close>, \<open>PatchChunk\<close>, \<open>Patch\<close>), writing
  and parsing them, taking trailing-blank changes out of a patch, and the driver \<open>indent\<close> / \<open>indent_files\<close>.

  The list of lines of a chunk is the store of its line objects: \<open>src()\<close> and \<open>dst()\<close> return
  references to them, here their indices, because a context line is in both lists and is
  changed through either. The programs \<open>uncrustify\<close> and \<open>patch\<close> and the function
  \<open>difflib.unified_diff\<close> are parameters. A generator that has been read once is the empty list.
\<close>

subsection \<open>The configuration\<close>

definition level0 :: "string list" where
  "level0 =
     ['''', ''sp_func_proto_paren=Add'', ''sp_func_def_paren=Add'', ''sp_func_call_paren=Add'',
      ''sp_after_semi_for=Ignore'', ''sp_before_sparen=Ignore'', ''sp_type_func=Ignore'',
      ''sp_after_type=Ignore'', ''nl_class_leave_one_liners=True'', ''nl_enum_leave_one_liners=True'',
      ''nl_func_leave_one_liners=True'', ''nl_assign_leave_one_liners=True'',
      ''#nl_collapse_empty_body=False'', ''nl_getset_leave_one_liners=True'',
      ''nl_if_leave_one_liners=True'', ''nl_fdef_brace=Ignore'', ''# finally, indentation configuration'',
      ''indent_with_tabs=0'', ''indent_namespace=false'', ''indent_columns=2'', ''indent_brace=2'',
      ''indent_case_brace=2'', ''indent_class=true'', ''indent_class_colon=True'', ''# alignment'',
      ''indent_align_assign=False'', ''align_left_shift=True'', ''# comment reformating disabled'',
      ''cmt_reflow_mode=1 # do not touch comments at all'',
      ''cmt_indent_multi=False # really, do not touch them'']"

definition level1 :: "string list" where
  "level1 =
     ['''', ''# extra spaces here and there'', ''sp_brace_typedef=Add'', ''sp_enum_assign=Add'',
      ''sp_before_sparen=Add'', ''sp_after_semi_for=Add'', ''sp_arith=Add'', ''sp_assign=Add'',
      ''sp_compare=Add'', ''sp_func_class_paren=Add'', ''sp_after_type=Add'', ''sp_type_func=Add'',
      ''sp_angle_paren=Add'']"

definition level2 :: "string list" where
  "level2 =
     ['''', ''nl_collapse_empty_body=False'', ''nl_if_brace=Add'', ''nl_brace_else=Add'',
      ''nl_elseif_brace=Add'', ''nl_else_brace=Add'', ''nl_while_brace=Add'', ''nl_do_brace=Add'',
      ''nl_for_brace=Add'', ''nl_brace_while=Add'', ''nl_switch_brace=Add'', ''nl_after_case=True'',
      ''nl_namespace_brace=Remove'', ''nl_after_brace_open=True'', ''nl_class_leave_one_liners=False'',
      ''nl_enum_leave_one_liners=False'', ''nl_func_leave_one_liners=False'',
      ''nl_if_leave_one_liners=False'', ''nl_class_colon=Ignore'', ''nl_after_access_spec=1'',
      ''nl_after_semicolon=True'', ''pos_class_colon=Lead'', ''pos_class_comma=Trail'', ''pos_bool=Lead'',
      ''nl_class_init_args=Add'', ''nl_template_class=Add'', ''nl_class_brace=Add'',
      ''# does not work very well'', ''nl_func_type_name=Ignore'', ''nl_func_scope_name=Ignore'',
      ''nl_func_type_name_class=Ignore'', ''nl_func_proto_type_name=Ignore'',
      ''# function'' @ [CHR 0x5C] @ ''n('', ''nl_func_paren=Remove'', ''nl_fdef_brace=Add'',
      ''nl_struct_brace=Add'', ''nl_enum_brace=Add'', ''nl_union_brace=Add'', ''mod_full_brace_do=Add'',
      ''mod_full_brace_for=Add'', ''mod_full_brace_if=Add'', ''mod_full_brace_while=Add'',
      ''mod_full_brace_for=Add'', ''mod_remove_extra_semicolon=True'', ''# max code width'',
      ''#code_width=128'', ''#ls_for_split_full=True'', ''#ls_func_split_full=True'']"

definition config_text :: "string list \<Rightarrow> string" where
  "config_text ls = concat (map (\<lambda>l. l @ [CHR 0x0A]) ls)"

definition uncrustify_config_file :: "int \<Rightarrow> string" where
  "uncrustify_config_file level =
     config_text level0 @ (if level \<ge> 1 then config_text level1 else '''') @
     (if level \<ge> 2 then config_text level2 else '''')"

subsection \<open>Patches\<close>

datatype line_type = NONE | SRC | DST | BOTH

record chunk_line =
  ltype :: line_type
  ltext :: string

definition new_line :: chunk_line where
  "new_line = \<lparr>ltype = NONE, ltext = ''''\<rparr>"

definition set_src :: "string \<Rightarrow> chunk_line \<Rightarrow> chunk_line" where
  "set_src line l = l\<lparr>ltype := SRC, ltext := line\<rparr>"

definition set_dst :: "string \<Rightarrow> chunk_line \<Rightarrow> chunk_line" where
  "set_dst line l = l\<lparr>ltype := DST, ltext := line\<rparr>"

definition set_both :: "string \<Rightarrow> chunk_line \<Rightarrow> chunk_line" where
  "set_both line l = l\<lparr>ltype := BOTH, ltext := line\<rparr>"

definition append_to_line :: "string \<Rightarrow> chunk_line \<Rightarrow> chunk_line" where
  "append_to_line s l = l\<lparr>ltext := ltext l @ s\<rparr>"

definition is_src :: "chunk_line \<Rightarrow> bool" where
  "is_src l \<longleftrightarrow> ltype l = SRC \<or> ltype l = BOTH"

definition is_dst :: "chunk_line \<Rightarrow> bool" where
  "is_dst l \<longleftrightarrow> ltype l = DST \<or> ltype l = BOTH"

definition write_line :: "chunk_line \<Rightarrow> string result" where
  "write_line l =
     (case ltype l of
        SRC \<Rightarrow> Inr (''-'' @ ltext l @ [CHR 0x0A])
      | DST \<Rightarrow> Inr (''+'' @ ltext l @ [CHR 0x0A])
      | BOTH \<Rightarrow> Inr ('' '' @ ltext l @ [CHR 0x0A])
      | NONE \<Rightarrow> Inl PyException)"

record chunk =
  clines :: "chunk_line list"
  src_pos :: int
  dst_pos :: int

definition chunk_src :: "chunk \<Rightarrow> nat list" where
  "chunk_src c = filter (\<lambda>i. is_src (clines c ! i)) [0..<length (clines c)]"

definition chunk_dst :: "chunk \<Rightarrow> nat list" where
  "chunk_dst c = filter (\<lambda>i. is_dst (clines c ! i)) [0..<length (clines c)]"

definition add_line :: "chunk_line \<Rightarrow> chunk \<Rightarrow> chunk" where
  "add_line l c = c\<lparr>clines := clines c @ [l]\<rparr>"

definition write_chunk :: "chunk \<Rightarrow> string list result" where
  "write_chunk c =
     res_bind (res_list write_line (clines c)) (\<lambda>ls. Inr
       ((''@@ -'' @ int_str (src_pos c) @ '','' @ nat_str (length (chunk_src c)) @ '' +'' @ int_str (dst_pos c) @ '','' @
         nat_str (length (chunk_dst c)) @ '' @@'' @ [CHR 0x0A]) # ls))"

record patch =
  psrc :: string
  pdst :: string
  chunks :: "chunk list"

definition new_patch :: patch where
  "new_patch = \<lparr>psrc = '''', pdst = '''', chunks = []\<rparr>"

definition write_patch :: "patch \<Rightarrow> string list result" where
  "write_patch p =
     res_bind (res_list write_chunk (chunks p)) (\<lambda>cs. Inr
       ([''--- '' @ psrc p @ [CHR 0x0A], ''+++ '' @ pdst p @ [CHR 0x0A]] @ concat cs))"

subsection \<open>parse_patchset\<close>

text \<open>\<open>^<prefix>(.*)$\<close>: the rest of the line without a final newline, if it has no other newline\<close>

definition match_prefix :: "string \<Rightarrow> string \<Rightarrow> string option" where
  "match_prefix pre line =
     (if py_startswith line pre then
        (let r = drop (length pre) line;
             b = (if r \<noteq> [] \<and> last r = CHR 0x0A then butlast r else r)
         in if CHR 0x0A \<in> set b then None else Some b)
      else None)"

text \<open>\<open>^@@ -([0-9]+),([0-9]+) \+([0-9]+),([0-9]+) @@\<close>: the first and the third group\<close>

definition chunk_start :: "string \<Rightarrow> (string \<times> string) option" where
  "chunk_start line =
     Option.bind (expect ''@@ -'' line) (\<lambda>s.
     Option.bind (digits s) (\<lambda>(a, s).
     Option.bind (expect '','' s) (\<lambda>s.
     Option.bind (digits s) (\<lambda>(_, s).
     Option.bind (expect '' +'' s) (\<lambda>s.
     Option.bind (digits s) (\<lambda>(b, s).
     Option.bind (expect '','' s) (\<lambda>s.
     Option.bind (digits s) (\<lambda>(_, s).
     Option.bind (expect '' @@'' s) (\<lambda>_. Some (a, b))))))))))"

text \<open>
  The patches read so far, the last one being \<open>current_patch\<close>, and the place of
  \<open>current_chunk\<close>: a chunk keeps receiving lines until the next chunk starts, even after a new
  file header.
\<close>

record patch_parser =
  patchset :: "patch list"
  current_chunk :: "(nat \<times> nat) option"

definition add_to_chunk :: "chunk_line \<Rightarrow> patch_parser \<Rightarrow> patch_parser result" where
  "add_to_chunk l st =
     (case current_chunk st of
        None \<Rightarrow> Inl UnboundLocalError
      | Some (i, j) \<Rightarrow>
          let p = patchset st ! i in
          Inr (st\<lparr>patchset := (patchset st)[i := p\<lparr>chunks := (chunks p)[j := add_line l (chunks p ! j)]\<rparr>]\<rparr>))"

definition on_current_patch :: "(patch \<Rightarrow> patch) \<Rightarrow> patch_parser \<Rightarrow> patch_parser result" where
  "on_current_patch f st =
     (if patchset st = [] then Inl AttributeError
      else Inr (st\<lparr>patchset := butlast (patchset st) @ [f (last (patchset st))]\<rparr>))"

definition start_chunk :: "string \<Rightarrow> string \<Rightarrow> patch_parser \<Rightarrow> patch_parser result" where
  "start_chunk a b st =
     res_bind (py_int 10 a) (\<lambda>sp. res_bind (py_int 10 b) (\<lambda>dp.
     res_bind (on_current_patch (\<lambda>p. p\<lparr>chunks := chunks p @ [\<lparr>clines = [], src_pos = sp, dst_pos = dp\<rparr>]\<rparr>) st) (\<lambda>st.
       Inr (st\<lparr>current_chunk := Some (length (patchset st) - 1, length (chunks (last (patchset st))) - 1)\<rparr>))))"

definition parse_patch_line :: "patch_parser \<Rightarrow> string \<Rightarrow> patch_parser result" where
  "parse_patch_line st line =
     (case match_prefix ''--- '' line of
        Some src \<Rightarrow> Inr (st\<lparr>patchset := patchset st @ [new_patch\<lparr>psrc := src\<rparr>]\<rparr>)
      | None \<Rightarrow>
     (case match_prefix ''+++ '' line of
        Some dst \<Rightarrow> on_current_patch (\<lambda>p. p\<lparr>pdst := dst\<rparr>) st
      | None \<Rightarrow>
     (case chunk_start line of
        Some (a, b) \<Rightarrow> start_chunk a b st
      | None \<Rightarrow>
     (case match_prefix ''-'' line of
        Some t \<Rightarrow> add_to_chunk (set_src t new_line) st
      | None \<Rightarrow>
     (case match_prefix ''+'' line of
        Some t \<Rightarrow> add_to_chunk (set_dst t new_line) st
      | None \<Rightarrow>
     (case match_prefix '' '' line of
        Some t \<Rightarrow> add_to_chunk (set_both t new_line) st
      | None \<Rightarrow> Inl PyException))))))"

definition parse_patchset :: "string list \<Rightarrow> patch list result" where
  "parse_patchset ls =
     res_bind (res_fold parse_patch_line \<lparr>patchset = [], current_chunk = None\<rparr> ls) (\<lambda>st. Inr (patchset st))"

subsection \<open>remove_trailing_whitespace_changes\<close>

text \<open>\<open>^(.*)([ \t]+)$\<close>: the first group is greedy, so the second is the last blank alone\<close>

definition whitespace :: "string \<Rightarrow> (string \<times> string) option" where
  "whitespace s =
     (if s \<noteq> [] \<and> (last s = CHR '' '' \<or> last s = CHR 0x09) then Some (butlast s, [last s]) else None)"

definition fix_pair :: "chunk_line list \<Rightarrow> nat \<Rightarrow> nat \<Rightarrow> chunk_line list" where
  "fix_pair ls si di =
     (case whitespace (ltext (ls ! si)) of
        Some (g1, g2) \<Rightarrow> if g1 = ltext (ls ! di) then ls[di := append_to_line g2 (ls ! di)] else ls
      | None \<Rightarrow> ls)"

text \<open>The loop over the source lines; \<open>False\<close> when \<open>dst[i]\<close> does not exist (the \<open>IndexError\<close> is caught)\<close>

fun fix_pairs :: "nat list \<Rightarrow> nat list \<Rightarrow> chunk_line list \<Rightarrow> chunk_line list \<times> bool" where
  "fix_pairs [] dst ls = (ls, True)"
| "fix_pairs (s # src) [] ls = (ls, False)"
| "fix_pairs (s # src) (d # dst) ls = fix_pairs src dst (fix_pair ls s d)"

definition fix_chunk :: "chunk \<Rightarrow> chunk \<times> bool" where
  "fix_chunk c = (case fix_pairs (chunk_src c) (chunk_dst c) (clines c) of (ls, ok) \<Rightarrow> (c\<lparr>clines := ls\<rparr>, ok))"

fun fix_chunks :: "chunk list \<Rightarrow> chunk list \<times> bool" where
  "fix_chunks [] = ([], True)"
| "fix_chunks (c # cs) =
     (case fix_chunk c of (c', ok) \<Rightarrow>
        if ok then (case fix_chunks cs of (cs', ok') \<Rightarrow> (c' # cs', ok')) else (c' # cs, False))"

fun fix_patches :: "patch list \<Rightarrow> patch list" where
  "fix_patches [] = []"
| "fix_patches (p # ps) =
     (case fix_chunks (chunks p) of (cs, ok) \<Rightarrow>
        if ok then p\<lparr>chunks := cs\<rparr> # fix_patches ps else p\<lparr>chunks := cs\<rparr> # ps)"

definition remove_trailing_whitespace_changes :: "string list \<Rightarrow> patch list result" where
  "remove_trailing_whitespace_changes ls = res_bind (parse_patchset ls) (\<lambda>ps. Inr (fix_patches ps))"

subsection \<open>indent and indent_files\<close>

record tools =
  uncrustify :: "string \<Rightarrow> string list \<Rightarrow> string list result"
  unified_diff :: "string list \<Rightarrow> string list \<Rightarrow> string list"
  patch_program :: "string list \<Rightarrow> string list \<Rightarrow> string list"

definition final_diff :: "int \<Rightarrow> string list \<Rightarrow> string list result" where
  "final_diff level diff =
     (if level < 3 then
        res_bind (remove_trailing_whitespace_changes diff) (\<lambda>ps.
          case ps of [] \<Rightarrow> Inr [] | p # _ \<Rightarrow> write_patch p)
      else Inr diff)"

text \<open>
  In debug mode the messages of \<open>uncrustify\<close>, a byte string, are written to the text stream
  \<open>sys.stderr\<close>, which raises \<open>TypeError\<close>.
\<close>

definition indent :: "tools \<Rightarrow> bool \<Rightarrow> int \<Rightarrow> string list \<Rightarrow> string list result" where
  "indent t debug level source =
     (case uncrustify t (uncrustify_config_file level) source of
        Inl _ \<Rightarrow> Inl PyException
      | Inr out \<Rightarrow>
          if debug then Inl TypeError
          else
            res_bind (final_diff level (unified_diff t source out)) (\<lambda>d. Inr (patch_program t source d)))"

type_synonym file_store = "string \<Rightarrow> string list"

definition indent_files ::
  "tools \<Rightarrow> bool \<Rightarrow> int \<Rightarrow> bool \<Rightarrow> string list \<Rightarrow> file_store \<Rightarrow> (file_store \<times> string list \<times> bool) result" where
  "indent_files t debug level inplace files fs =
     res_bind (res_list (\<lambda>f. indent t debug level (fs f)) files) (\<lambda>outs.
       if inplace then Inr (foldl (\<lambda>fs (f, out). fs(f := out)) fs (zip files outs), [], True)
       else
         (let failed = map fst (filter (\<lambda>(f, out). fs f \<noteq> out) (zip files outs))
          in Inr (fs, failed, failed = [])))"

subsection \<open>Writing and parsing are inverse\<close>

definition good_line :: "chunk_line \<Rightarrow> bool" where
  "good_line l \<longleftrightarrow> ltype l \<noteq> NONE \<and> CHR 0x0A \<notin> set (ltext l)
     \<and> (ltype l = SRC \<longrightarrow> \<not> py_startswith (ltext l) ''-- '') \<and> (ltype l = DST \<longrightarrow> \<not> py_startswith (ltext l) ''++ '')"

definition good_chunk :: "chunk \<Rightarrow> bool" where
  "good_chunk c \<longleftrightarrow> 0 \<le> src_pos c \<and> 0 \<le> dst_pos c \<and> list_all good_line (clines c)"

definition good_patch :: "patch \<Rightarrow> bool" where
  "good_patch p \<longleftrightarrow> CHR 0x0A \<notin> set (psrc p) \<and> CHR 0x0A \<notin> set (pdst p) \<and> list_all good_chunk (chunks p)"

definition line_text :: "chunk_line \<Rightarrow> string" where
  "line_text l = (case ltype l of SRC \<Rightarrow> ''-'' | DST \<Rightarrow> ''+'' | _ \<Rightarrow> '' '') @ ltext l @ [CHR 0x0A]"

definition chunk_header :: "chunk \<Rightarrow> string" where
  "chunk_header c = ''@@ -'' @ int_str (src_pos c) @ '','' @ nat_str (length (chunk_src c)) @ '' +'' @ int_str (dst_pos c) @ '','' @
         nat_str (length (chunk_dst c)) @ '' @@'' @ [CHR 0x0A]"

definition chunk_text :: "chunk \<Rightarrow> string list" where
  "chunk_text c = chunk_header c # map line_text (clines c)"

definition patch_text :: "patch \<Rightarrow> string list" where
  "patch_text p = [''--- '' @ psrc p @ [CHR 0x0A], ''+++ '' @ pdst p @ [CHR 0x0A]] @ concat (map chunk_text (chunks p))"

lemma write_line_text: "good_line l \<Longrightarrow> write_line l = Inr (line_text l)"
  by (cases "ltype l") (auto simp: good_line_def write_line_def line_text_def)

lemma write_chunk_text: "good_chunk c \<Longrightarrow> write_chunk c = Inr (chunk_text c)"
  by (simp add: good_chunk_def write_chunk_def chunk_text_def chunk_header_def list_all_iff res_list_total [of _ _ line_text] write_line_text)

lemma write_patch_text: "good_patch p \<Longrightarrow> write_patch p = Inr (patch_text p)"
  by (simp add: good_patch_def write_patch_def patch_text_def list_all_iff res_list_total [of _ _ chunk_text] write_chunk_text)

lemma match_prefix_text: "CHR 0x0A \<notin> set t \<Longrightarrow> match_prefix pre (pre @ t @ [CHR 0x0A]) = Some t"
  by (simp add: match_prefix_def)

lemma startswith_newline: "CHR 0x0A \<notin> set pre \<Longrightarrow> py_startswith (t @ [CHR 0x0A]) pre = py_startswith t pre"
  by (auto simp: py_startswith_def take_Cons' split: if_splits)

lemma match_other:
  "\<not> py_startswith s pre \<Longrightarrow> match_prefix pre s = None"
  by (simp add: match_prefix_def)

lemma parse_good_line:
  assumes "good_line l"
  shows "parse_patch_line st (line_text l) = add_to_chunk l st"
proof -
  obtain t where l: "l = \<lparr>ltype = ltype l, ltext = t\<rparr>" "t = ltext l" by (cases l) simp
  have nl: "CHR 0x0A \<notin> set t" using assms l by (simp add: good_line_def)
  have st: "py_startswith (t @ [CHR 0x0A]) ''-- '' = py_startswith t ''-- ''" "py_startswith (t @ [CHR 0x0A]) ''++ '' = py_startswith t ''++ ''"
    by (simp_all add: startswith_newline)
  have m: "match_prefix ''-'' (''-'' @ t @ [CHR 0x0A]) = Some t" "match_prefix ''+'' (''+'' @ t @ [CHR 0x0A]) = Some t"
      "match_prefix '' '' ('' '' @ t @ [CHR 0x0A]) = Some t"
    using match_prefix_text [OF nl] by blast+
  consider "ltype l = SRC" | "ltype l = DST" | "ltype l = BOTH" using assms by (cases "ltype l") (auto simp: good_line_def)
  then show ?thesis
  proof cases
    case 1
    then have "\<not> py_startswith (''-'' @ t @ [CHR 0x0A]) ''--- ''"
      using assms st l(2) by (auto simp: good_line_def py_startswith_def)
    moreover have "set_src t new_line = l" using 1 l by (cases l) (simp add: set_src_def new_line_def)
    ultimately show ?thesis using 1 m(1) l(2)
      by (simp add: line_text_def parse_patch_line_def match_other py_startswith_def chunk_start_def expect_def)
  next
    case 2
    then have "\<not> py_startswith (''+'' @ t @ [CHR 0x0A]) ''+++ ''"
      using assms st l(2) by (auto simp: good_line_def py_startswith_def)
    moreover have "set_dst t new_line = l" using 2 l by (cases l) (simp add: set_dst_def new_line_def)
    ultimately show ?thesis using 2 m(2) l(2)
      by (simp add: line_text_def parse_patch_line_def match_other py_startswith_def chunk_start_def expect_def)
  next
    case 3
    have "set_both t new_line = l" using 3 l by (cases l) (simp add: set_both_def new_line_def)
    then show ?thesis using 3 m(3) l(2)
      by (simp add: line_text_def parse_patch_line_def match_other py_startswith_def chunk_start_def expect_def)
  qed
qed

lemma chunk_start_header:
  assumes "0 \<le> src_pos c" "0 \<le> dst_pos c"
  shows "chunk_start (chunk_header c) = Some (nat_str (nat (src_pos c)), nat_str (nat (dst_pos c)))"
proof -
  have i: "int_str (src_pos c) = nat_str (nat (src_pos c))" "int_str (dst_pos c) = nat_str (nat (dst_pos c))"
    using assms by (simp_all add: int_str_def)
  have nd: "\<not> is_decimal (CHR '','')" "\<not> is_decimal (CHR '' '')" by (simp_all add: is_decimal_def)
  show ?thesis
    by (simp add: chunk_start_def chunk_header_def i expect_def py_startswith_def digits_nat_str nd)
qed


lemma parse_good_lines:
  assumes "list_all good_line ls"
  shows "res_fold parse_patch_line
      \<lparr>patchset = ps @ [p\<lparr>chunks := cs @ [c]\<rparr>], current_chunk = Some (length ps, length cs)\<rparr> (map line_text ls)
    = Inr \<lparr>patchset = ps @ [p\<lparr>chunks := cs @ [c\<lparr>clines := clines c @ ls\<rparr>]\<rparr>], current_chunk = Some (length ps, length cs)\<rparr>"
  using assms
proof (induction ls arbitrary: c)
  case (Cons l ls)
  have "parse_patch_line \<lparr>patchset = ps @ [p\<lparr>chunks := cs @ [c]\<rparr>], current_chunk = Some (length ps, length cs)\<rparr> (line_text l)
      = Inr \<lparr>patchset = ps @ [p\<lparr>chunks := cs @ [c\<lparr>clines := clines c @ [l]\<rparr>]\<rparr>], current_chunk = Some (length ps, length cs)\<rparr>"
    using Cons.prems by (simp add: parse_good_line add_to_chunk_def add_line_def)
  then show ?case using Cons.IH [of "c\<lparr>clines := clines c @ [l]\<rparr>"] Cons.prems by simp
qed simp

lemma parse_good_chunk:
  assumes "good_chunk c"
  shows "res_fold parse_patch_line \<lparr>patchset = ps @ [p], current_chunk = cc\<rparr> (chunk_text c)
    = Inr \<lparr>patchset = ps @ [p\<lparr>chunks := chunks p @ [c]\<rparr>], current_chunk = Some (length ps, length (chunks p))\<rparr>"
proof -
  let ?e = "\<lparr>clines = [], src_pos = src_pos c, dst_pos = dst_pos c\<rparr>"
  have h: "chunk_start (chunk_header c) = Some (nat_str (nat (src_pos c)), nat_str (nat (dst_pos c)))"
    using assms by (intro chunk_start_header) (auto simp: good_chunk_def)
  have "match_prefix ''--- '' (chunk_header c) = None" "match_prefix ''+++ '' (chunk_header c) = None"
    by (simp_all add: match_prefix_def chunk_header_def py_startswith_def)
  then have "parse_patch_line \<lparr>patchset = ps @ [p], current_chunk = cc\<rparr> (chunk_header c)
      = Inr \<lparr>patchset = ps @ [p\<lparr>chunks := chunks p @ [?e]\<rparr>], current_chunk = Some (length ps, length (chunks p))\<rparr>"
    using h assms by (simp add: parse_patch_line_def start_chunk_def on_current_patch_def good_chunk_def)
  moreover have "?e\<lparr>clines := clines ?e @ clines c\<rparr> = c" by simp
  ultimately show ?thesis
    using parse_good_lines [where ls = "clines c" and ps = ps and p = p and cs = "chunks p" and c = ?e] assms by (simp add: chunk_text_def good_chunk_def)
qed

lemma parse_good_chunks:
  assumes "list_all good_chunk cs"
  shows "\<exists>cc'. res_fold parse_patch_line \<lparr>patchset = ps @ [p], current_chunk = cc\<rparr> (concat (map chunk_text cs))
    = Inr \<lparr>patchset = ps @ [p\<lparr>chunks := chunks p @ cs\<rparr>], current_chunk = cc'\<rparr>"
  using assms
proof (induction cs arbitrary: p cc)
  case (Cons c cs)
  then show ?case
    using parse_good_chunk [of c ps p cc] Cons.IH [of "p\<lparr>chunks := chunks p @ [c]\<rparr>" "Some (length ps, length (chunks p))"]
    by (simp add: res_fold_append)
qed simp

lemma parse_good_patches:
  assumes "list_all good_patch qs"
  shows "\<exists>cc'. res_fold parse_patch_line \<lparr>patchset = ps, current_chunk = cc\<rparr> (concat (map patch_text qs))
    = Inr \<lparr>patchset = ps @ qs, current_chunk = cc'\<rparr>"
  using assms
proof (induction qs arbitrary: ps cc)
  case (Cons q qs)
  have nl: "CHR 0x0A \<notin> set (psrc q)" "CHR 0x0A \<notin> set (pdst q)" "list_all good_chunk (chunks q)"
    using Cons.prems by (auto simp: good_patch_def)
  let ?q1 = "new_patch\<lparr>psrc := psrc q\<rparr>" and ?q2 = "new_patch\<lparr>psrc := psrc q, pdst := pdst q\<rparr>"
  have "parse_patch_line \<lparr>patchset = ps, current_chunk = cc\<rparr> (''--- '' @ psrc q @ [CHR 0x0A])
      = Inr \<lparr>patchset = ps @ [?q1], current_chunk = cc\<rparr>"
    using match_prefix_text [OF nl(1), of "''--- ''"] by (simp add: parse_patch_line_def)
  moreover have "match_prefix ''--- '' (''+++ '' @ pdst q @ [CHR 0x0A]) = None"
    by (simp add: match_prefix_def py_startswith_def)
  then have "parse_patch_line \<lparr>patchset = ps @ [?q1], current_chunk = cc\<rparr> (''+++ '' @ pdst q @ [CHR 0x0A])
      = Inr \<lparr>patchset = ps @ [?q2], current_chunk = cc\<rparr>"
    using match_prefix_text [OF nl(2), of "''+++ ''"] by (simp add: parse_patch_line_def on_current_patch_def)
  moreover obtain cc1 where "res_fold parse_patch_line \<lparr>patchset = ps @ [?q2], current_chunk = cc\<rparr> (concat (map chunk_text (chunks q)))
      = Inr \<lparr>patchset = ps @ [q], current_chunk = cc1\<rparr>"
  proof -
    have "?q2\<lparr>chunks := chunks ?q2 @ chunks q\<rparr> = q" by (simp add: new_patch_def)
    then show ?thesis using parse_good_chunks [OF nl(3), of ps ?q2 cc] that by auto
  qed
  ultimately have "res_fold parse_patch_line \<lparr>patchset = ps, current_chunk = cc\<rparr> (patch_text q)
      = Inr \<lparr>patchset = ps @ [q], current_chunk = cc1\<rparr>"
    by (simp add: patch_text_def)
  then show ?case using Cons.IH [of "ps @ [q]" cc1] Cons.prems by (simp add: res_fold_append)
qed simp

text \<open>
  C35. Parsing inverts writing: the lines written for any list of patches parse back to exactly those
  patches, provided that no text holds a newline, positions are not negative, and no removed line
  starts with two dashes and a blank and no added line with two pluses and a blank (such a line is
  taken for a file header).
\<close>
theorem patch_write_parse_roundtrip:
  assumes "list_all good_patch ps"
  shows "\<exists>texts. res_list write_patch ps = Inr texts \<and> parse_patchset (concat texts) = Inr ps"
proof -
  have "res_list write_patch ps = Inr (map patch_text ps)"
    using assms by (intro res_list_total) (simp add: list_all_iff write_patch_text)
  then show ?thesis using parse_good_patches [OF assms, of "[]" None] by (auto simp: parse_patchset_def)
qed

theorem patch_write_parse_roundtrip_witness:
  "parse_patchset [''--- a'' @ [CHR 0x0A], ''+++ b'' @ [CHR 0x0A], ''@@ -1,2 +1,2 @@'' @ [CHR 0x0A], '' x'' @ [CHR 0x0A],
      ''-y'' @ [CHR 0x0A], ''+z'' @ [CHR 0x0A]]
   = Inr [\<lparr>psrc = ''a'', pdst = ''b'', chunks = [\<lparr>clines = [\<lparr>ltype = BOTH, ltext = ''x''\<rparr>, \<lparr>ltype = SRC, ltext = ''y''\<rparr>,
       \<lparr>ltype = DST, ltext = ''z''\<rparr>], src_pos = 1, dst_pos = 1\<rparr>]\<rparr>]" (is "parse_patchset ?ls = Inr ?ps")
proof -
  have "list_all good_patch ?ps" by code_simp
  moreover have "res_list write_patch ?ps = Inr [?ls]" by code_simp
  ultimately show ?thesis using patch_write_parse_roundtrip [of ?ps] by auto
qed

text \<open>
  A hunk header without counts is refused: \<open>difflib.unified_diff\<close> leaves out a count of one, so the
  diff of a file with a single line has the header \<open>@@ -a +b @@\<close>, for which \<open>parse_patchset\<close>
  raises an exception in any state.
\<close>
theorem one_line_hunk_raises:
  "parse_patch_line st (''@@ -'' @ nat_str a @ '' +'' @ nat_str b @ '' @@'' @ [CHR 0x0A]) = Inl PyException"
proof -
  have d: "digits (nat_str a @ '' +'' @ r) = Some (nat_str a, '' +'' @ r)" for r
    using digits_nat_str [of "CHR '' ''" a] by (simp add: is_decimal_def)
  have "chunk_start (''@@ -'' @ nat_str a @ '' +'' @ nat_str b @ '' @@'' @ [CHR 0x0A]) = None"
    using d [of "nat_str b @ '' @@'' @ [CHR 0x0A]"] by (simp add: chunk_start_def expect_def py_startswith_def)
  then show ?thesis by (simp add: parse_patch_line_def match_prefix_def py_startswith_def)
qed

subsection \<open>Trailing blanks\<close>

definition blank_end :: "string \<Rightarrow> string \<Rightarrow> bool" where
  "blank_end s t \<longleftrightarrow> t = s \<or> t = s @ '' '' \<or> t = s @ [CHR 0x09]"

lemma fix_pair_frame:
  "length (fix_pair ls si di) = length ls"
  "k \<noteq> di \<Longrightarrow> fix_pair ls si di ! k = ls ! k"
  "di < length ls \<Longrightarrow> ltype (fix_pair ls si di ! di) = ltype (ls ! di) \<and> blank_end (ltext (ls ! di)) (ltext (fix_pair ls si di ! di))"
  by (auto simp: fix_pair_def append_to_line_def whitespace_def blank_end_def split: option.splits if_splits)

lemma fix_pairs_frame:
  assumes "fix_pairs src dst ls = (ls', ok)" "distinct dst" "\<forall>d \<in> set dst. d < length ls"
  shows "length ls' = length ls \<and> (\<forall>k < length ls. ltype (ls' ! k) = ltype (ls ! k) \<and>
    (if k \<in> set dst then blank_end (ltext (ls ! k)) (ltext (ls' ! k)) else ls' ! k = ls ! k))"
  using assms
proof (induction src dst ls rule: fix_pairs.induct)
  case (3 s src d dst ls)
  let ?m = "fix_pair ls s d"
  have IH: "length ls' = length ?m \<and> (\<forall>k < length ?m. ltype (ls' ! k) = ltype (?m ! k) \<and>
      (if k \<in> set dst then blank_end (ltext (?m ! k)) (ltext (ls' ! k)) else ls' ! k = ?m ! k))"
    using 3 by (simp add: fix_pair_frame(1))
  show ?case
  proof (intro conjI allI impI)
    show "length ls' = length ls" using IH by (simp add: fix_pair_frame(1))
    fix k assume k: "k < length ls"
    have I: "ltype (ls' ! k) = ltype (?m ! k)" "if k \<in> set dst then blank_end (ltext (?m ! k)) (ltext (ls' ! k)) else ls' ! k = ?m ! k"
      using IH k by (auto simp: fix_pair_frame(1))
    show "ltype (ls' ! k) = ltype (ls ! k)"
      using I(1) fix_pair_frame(2) [of k d ls s] fix_pair_frame(3) [of d ls s] k by (cases "k = d") auto
    show "if k \<in> set (d # dst) then blank_end (ltext (ls ! k)) (ltext (ls' ! k)) else ls' ! k = ls ! k"
      using I(2) fix_pair_frame(2) [of k d ls s] fix_pair_frame(3) [of d ls s] k 3(3) by (cases "k = d") auto
  qed
qed (auto simp: blank_end_def)

text \<open>
  \<open>remove_trailing_whitespace_changes\<close> can only give blanks back: in every chunk it keeps the
  number, the order and the kinds of the lines and all removed lines, and the text of a line of the
  new side stays as it is or gets one blank or tab appended.
\<close>
theorem fix_chunk_frame:
  "case fix_chunk c of (c', ok) \<Rightarrow>
     src_pos c' = src_pos c \<and> dst_pos c' = dst_pos c \<and> length (clines c') = length (clines c) \<and>
     list_all2 (\<lambda>l l'. ltype l' = ltype l \<and> (if is_dst l then blank_end (ltext l) (ltext l') else l' = l))
       (clines c) (clines c')"
proof -
  obtain ls ok where f: "fix_pairs (chunk_src c) (chunk_dst c) (clines c) = (ls, ok)" by fastforce
  have d: "distinct (chunk_dst c)" "\<forall>d \<in> set (chunk_dst c). d < length (clines c)"
      "\<And>k. k < length (clines c) \<Longrightarrow> k \<in> set (chunk_dst c) \<longleftrightarrow> is_dst (clines c ! k)"
    by (auto simp: chunk_dst_def)
  from fix_pairs_frame [OF f d(1,2)] d(3) f show ?thesis
    by (auto simp: fix_chunk_def list_all2_conv_all_nth)
qed

text \<open>
  For a single replaced line the change is undone exactly if the new text lacks one trailing blank of
  the old text: since the first group of the pattern is greedy, a line that lost two or more
  trailing blanks keeps its change, although the options promise that trailing space is only
  removed at level 3.
\<close>
theorem fix_single_replacement:
  "fix_chunk \<lparr>clines = [\<lparr>ltype = SRC, ltext = s\<rparr>, \<lparr>ltype = DST, ltext = d\<rparr>], src_pos = a, dst_pos = b\<rparr> =
     (\<lparr>clines = [\<lparr>ltype = SRC, ltext = s\<rparr>, \<lparr>ltype = DST, ltext = if s = d @ '' '' \<or> s = d @ [CHR 0x09] then s else d\<rparr>],
       src_pos = a, dst_pos = b\<rparr>, True)"
proof -
  have "[0..<2] = [0, Suc 0]" by (simp add: upt_rec)
  then have idx: "chunk_src \<lparr>clines = [\<lparr>ltype = SRC, ltext = s\<rparr>, \<lparr>ltype = DST, ltext = d\<rparr>], src_pos = a, dst_pos = b\<rparr> = [0]"
      "chunk_dst \<lparr>clines = [\<lparr>ltype = SRC, ltext = s\<rparr>, \<lparr>ltype = DST, ltext = d\<rparr>], src_pos = a, dst_pos = b\<rparr> = [1]"
    by (simp_all add: chunk_src_def chunk_dst_def is_src_def is_dst_def numeral_2_eq_2)
  have f: "fix_chunk \<lparr>clines = [\<lparr>ltype = SRC, ltext = s\<rparr>, \<lparr>ltype = DST, ltext = d\<rparr>], src_pos = a, dst_pos = b\<rparr> =
     (\<lparr>clines = fix_pair [\<lparr>ltype = SRC, ltext = s\<rparr>, \<lparr>ltype = DST, ltext = d\<rparr>] 0 1, src_pos = a, dst_pos = b\<rparr>, True)"
    by (simp add: fix_chunk_def idx)
  show ?thesis unfolding f
    by (cases s rule: rev_exhaust) (auto simp: fix_pair_def whitespace_def append_to_line_def)
qed

subsection \<open>indent_files\<close>

lemma fold_store:
  "distinct (map fst kvs) \<Longrightarrow> foldl (\<lambda>fs (f, out). fs(f := out)) fs kvs f = (case map_of kvs f of None \<Rightarrow> fs f | Some v \<Rightarrow> v)"
proof (induction kvs arbitrary: fs)
  case (Cons kv kvs)
  then show ?case by (cases kv) (auto simp: dom_map_of_conv_image_fst [symmetric] split: option.splits)
qed simp

text \<open>
  \<open>indent_files\<close> on files the tools can process: without \<open>--in-place\<close> it changes no file and returns
  true exactly if every file equals its indented form, reporting the others in order; with it, every listed
  file gets its indented form, computed from the original, no other file changes, and the result is true.
\<close>
theorem indent_files_verdict:
  assumes "\<And>f. f \<in> set files \<Longrightarrow> indent t debug level (fs f) = Inr (out f)" "distinct files"
  shows "indent_files t debug level inplace files fs = Inr
    (if inplace then (\<lambda>f. if f \<in> set files then out f else fs f, [], True)
     else (fs, filter (\<lambda>f. fs f \<noteq> out f) files, list_all (\<lambda>f. fs f = out f) files))"
proof -
  have r: "res_list (\<lambda>f. indent t debug level (fs f)) files = Inr (map out files)"
    using assms(1) by (rule res_list_total)
  have z: "zip files (map out files) = map (\<lambda>f. (f, out f)) files" by (simp add: zip_map2 zip_same_conv_map)
  have "foldl (\<lambda>fs (f, out). fs(f := out)) fs (map (\<lambda>f. (f, out f)) files) = (\<lambda>f. if f \<in> set files then out f else fs f)"
    using assms(2) by (intro ext) (simp add: fold_store map_of_map_restrict restrict_map_def comp_def)
  moreover have "map fst (filter (\<lambda>(f, out). fs f \<noteq> out) (map (\<lambda>f. (f, out f)) files)) = filter (\<lambda>f. fs f \<noteq> out f) files"
    by (simp add: filter_map comp_def)
  ultimately show ?thesis
    unfolding indent_files_def r res_bind_simps z by (auto simp: Let_def filter_empty_conv list_all_iff)
qed

definition sample_tools :: tools where
  "sample_tools = \<lparr>uncrustify = (\<lambda>_ ls. Inr ls), unified_diff = (\<lambda>_ _. []), patch_program = (\<lambda>ls _. ls)\<rparr>"

theorem indent_files_verdict_witness:
  "indent_files sample_tools False 0 False [''a.cc''] (\<lambda>_. [''x'']) = Inr (\<lambda>_. [''x''], [], True)"
proof -
  have "indent sample_tools False 0 [''x''] = Inr [''x'']"
    by (simp add: indent_def sample_tools_def final_diff_def remove_trailing_whitespace_changes_def parse_patchset_def)
  then show ?thesis using indent_files_verdict [of "[''a.cc'']" sample_tools False 0 "\<lambda>_. [''x'']" "\<lambda>_. [''x'']" False] by simp
qed

subsection \<open>The command line and the Mercurial hook\<close>

text \<open>
  \<open>hg\<close> are the lines \<open>hg st -nma\<close> prints. The parsing of the options is \<open>optparse\<close>'s. The result is the contents of the files,
  the files reported and the exit status.
\<close>

record style_options =
  so_debug :: bool
  so_level :: int
  so_hg_hook :: bool
  so_hg :: bool
  so_file :: string
  so_in_place :: bool

definition hg_modified_files :: "string list \<Rightarrow> string list" where
  "hg_modified_files hg = map py_strip hg"

definition copy_file :: "string \<Rightarrow> string \<Rightarrow> file_store \<Rightarrow> file_store" where
  "copy_file pathname filename fs = fs(pathname := fs filename)"

definition run_as_hg_hook :: "tools \<Rightarrow> string list \<Rightarrow> file_store \<Rightarrow> bool result" where
  "run_as_hg_hook t hg fs =
     res_bind (indent_files t False 0 False (hg_modified_files hg) fs) (\<lambda>(_, _, ok). Inr (\<not> ok))"

definition run_as_main ::
  "tools \<Rightarrow> (string \<Rightarrow> bool) \<Rightarrow> string list \<Rightarrow> style_options \<Rightarrow> file_store \<Rightarrow> (file_store \<times> string list \<times> int) result" where
  "run_as_main t is_file hg opts fs =
     (if so_hg_hook opts then
        res_bind (indent_files t (so_debug opts) (so_level opts) False (hg_modified_files hg) fs) (\<lambda>(fs, failed, ok).
          Inr (fs, failed, if ok then 0 else 1))
      else if so_hg opts then
        res_bind (indent_files t (so_debug opts) (so_level opts) (so_in_place opts) (hg_modified_files hg) fs) (\<lambda>(fs, failed, ok).
          Inr (fs, failed, 0))
      else if so_file opts \<noteq> '''' then
        if \<not> is_file (so_file opts) then Inr (fs, [], 1)
        else
          res_bind (indent_files t (so_debug opts) (so_level opts) (so_in_place opts) [so_file opts] fs) (\<lambda>(fs, failed, ok).
            Inr (fs, failed, 0))
      else Inr (fs, [], 0))"

text \<open>
  The exit status, for files the tools can process: as a commit hook 0 exactly if every modified file equals its indented form,
  and no file is changed; with \<open>--check-hg\<close> and \<open>--check-file\<close> it does not depend on the formatting, only on whether the
  file exists.
\<close>

lemma run_as_main_status:
  assumes out: "\<And>f. f \<in> set (hg_modified_files hg) \<or> f = so_file opts \<Longrightarrow> indent t (so_debug opts) (so_level opts) (fs f) = Inr (out f)"
    and "distinct (hg_modified_files hg)"
  shows "\<exists>fs' failed status. run_as_main t is_file hg opts fs = Inr (fs', failed, status)
    \<and> (so_hg_hook opts \<longrightarrow> fs' = fs \<and> (status = 0 \<longleftrightarrow> (\<forall>f \<in> set (hg_modified_files hg). fs f = out f)))
    \<and> (\<not> so_hg_hook opts \<longrightarrow> status = (if \<not> so_hg opts \<and> so_file opts \<noteq> '''' \<and> \<not> is_file (so_file opts) then 1 else 0))
    \<and> (\<not> so_in_place opts \<longrightarrow> fs' = fs)"
proof -
  have hg: "\<And>b. indent_files t (so_debug opts) (so_level opts) b (hg_modified_files hg) fs = Inr
      (if b then (\<lambda>f. if f \<in> set (hg_modified_files hg) then out f else fs f, [], True)
       else (fs, filter (\<lambda>f. fs f \<noteq> out f) (hg_modified_files hg), list_all (\<lambda>f. fs f = out f) (hg_modified_files hg)))"
    and one: "\<And>b. indent_files t (so_debug opts) (so_level opts) b [so_file opts] fs = Inr
      (if b then (\<lambda>f. if f \<in> set [so_file opts] then out f else fs f, [], True)
       else (fs, filter (\<lambda>f. fs f \<noteq> out f) [so_file opts], list_all (\<lambda>f. fs f = out f) [so_file opts]))"
    using assms by (intro indent_files_verdict; simp)+
  show ?thesis
    unfolding run_as_main_def hg one by (auto simp: list_all_iff)
qed

lemma run_as_hg_hook_verdict:
  assumes "\<And>f. f \<in> set (hg_modified_files hg) \<Longrightarrow> indent t False 0 (fs f) = Inr (out f)" "distinct (hg_modified_files hg)"
  shows "run_as_hg_hook t hg fs = Inr (\<exists>f \<in> set (hg_modified_files hg). fs f \<noteq> out f)"
  using indent_files_verdict [OF assms, where inplace = False] by (simp add: run_as_hg_hook_def list_all_iff)

end
