(* ===== verification/Rad_Util.thy ===== *)
theory Rad_Util
  imports Py_String "HOL-Library.Word"
begin

unbundle bit_operations_syntax

text \<open>
  \<open>src/bindings/python/rad_util.py\<close>: the helper functions of the bindings generator, in the
  order of the source. The file is Python 2, so \<open>/\<close> on integers is floor division and integers
  are unbounded (\<open>int\<close>). Functions whose result is a float (\<open>quantile\<close>, \<open>trim\<close>,
  \<open>nice_units\<close>, \<open>float_range\<close>, the final scaling of \<open>polygon_area\<close>) and the reflection helper
  \<open>getmodule\<close> are not modelled.
\<close>

subsection \<open>Binary strings: int2bin and bin2int\<close>

fun hex_digits :: "nat \<Rightarrow> string" where
  "hex_digits n =
     (let c = (\<lambda>d. if d < 10 then digit_char d else char_of (87 + d))
      in if n < 16 then [c n] else hex_digits (n div 16) @ [c (n mod 16)])"

declare hex_digits.simps [simp del]

definition py_hex :: "int \<Rightarrow> string" where
  "py_hex i = (if i < 0 then ''-0x'' @ hex_digits (nat (- i)) else ''0x'' @ hex_digits (nat i))"

definition hex2bin :: "(char, string) dict" where
  "hex2bin =
     [(CHR ''0'', ''0000''), (CHR ''1'', ''0001''), (CHR ''2'', ''0010''), (CHR ''3'', ''0011''),
      (CHR ''4'', ''0100''), (CHR ''5'', ''0101''), (CHR ''6'', ''0110''), (CHR ''7'', ''0111''),
      (CHR ''8'', ''1000''), (CHR ''9'', ''1001''), (CHR ''a'', ''1010''), (CHR ''b'', ''1011''),
      (CHR ''c'', ''1100''), (CHR ''d'', ''1101''), (CHR ''e'', ''1110''), (CHR ''f'', ''1111'')]"

definition int2bin :: "int \<Rightarrow> int \<Rightarrow> string result" where
  "int2bin i n =
     res_bind (res_list (dict_get hex2bin) (drop 2 (py_hex i))) (\<lambda>parts.
       let result = concat parts in
       if CHR ''1'' \<in> set (py_slice_to result (- n)) then Inl ValueError
       else let result = py_slice_from result (- n)
            in Inr (replicate (nat (n - int (length result))) (CHR ''0'') @ result))"


definition reverse :: "string \<Rightarrow> string" where
  "reverse input_string = rev input_string"

subsection \<open>transpose: zip(*matrix) stops at the shortest row\<close>

function transpose_rows :: "'a list list \<Rightarrow> 'a list list" where
  "transpose_rows matrix =
     (if matrix = [] \<or> [] \<in> set matrix then []
      else map hd matrix # transpose_rows (map tl matrix))"
  by pat_completeness auto
termination
  by (relation "measure (\<lambda>m. length (hd m))") (auto simp: hd_map neq_Nil_conv)

declare transpose_rows.simps [simp del]

subsection \<open>polygon_area: the integer part (scaled coordinates, shoelace sum)\<close>

type_synonym point = "int \<times> int"

fun shoelace :: "point list \<Rightarrow> int" where
  "shoelace ((x0, y0) # (x1, y1) # ps) = x1 * y0 - y1 * x0 + shoelace ((x1, y1) # ps)"
| "shoelace _ = 0"

text \<open>
  The loop scales the caller's list in place and the closing point is appended to it; the model
  returns the list as it is left, with the value of \<open>area\<close> before the division by
  \<open>precision ** 2\<close>.
\<close>

definition polygon_area_scaled :: "point list \<Rightarrow> int \<Rightarrow> (point list \<times> int) result" where
  "polygon_area_scaled points_list precision =
     (let pts = map (\<lambda>(x, y). (x * precision, y * precision)) points_list in
      if pts = [] then Inl IndexError
      else let pts = (if last pts \<noteq> hd pts then pts @ [hd pts] else pts)
           in Inr (pts, \<bar>shoelace pts div 2\<bar>))"

subsection \<open>gcf, lcm and reduce_fraction\<close>

function gcf_loop :: "int \<Rightarrow> int \<Rightarrow> int" where
  "gcf_loop result remainder =
     (if remainder \<noteq> 0 then gcf_loop remainder (result mod remainder) else \<bar>result\<bar>)"
  by pat_completeness auto
termination
  by (relation "measure (\<lambda>(_, r). nat \<bar>r\<bar>)") (auto simp: abs_mod_less)

declare gcf_loop.simps [simp del]

definition gcf :: "int \<Rightarrow> int \<Rightarrow> int" where
  "gcf a b = gcf_loop (max a b) (min a b)"

definition lcm_py :: "int \<Rightarrow> int \<Rightarrow> int" where
  "lcm_py a b = (let denom = gcf a b in if denom = 0 then 0 else a * (b div denom))"

definition reduce_fraction :: "int \<times> int \<Rightarrow> (int \<times> int) result" where
  "reduce_fraction fraction =
     (case fraction of (numerator, denominator) \<Rightarrow>
        let common_factor = \<bar>gcf numerator denominator\<bar> in
        if common_factor = 0 then Inl ZeroDivisionError
        else Inr (numerator div common_factor, denominator div common_factor))"

subsection \<open>permutations\<close>

fun permutations :: "'a list \<Rightarrow> 'a list list" where
  "permutations [] = [[]]"
| "permutations [x] = [[x]]"
| "permutations (item # y # ys) =
     concat (map (\<lambda>sub_list. map (\<lambda>i. take i sub_list @ [item] @ drop i sub_list)
                               [0..<length (item # y # ys)])
                 (permutations (y # ys)))"

subsection \<open>uniquify and reverse_dict\<close>

fun uniq_loop :: "'a list \<Rightarrow> 'a list \<Rightarrow> 'a list" where
  "uniq_loop result [] = result"
| "uniq_loop result (x # xs) =
     (if x \<notin> set result then uniq_loop (result @ [x]) xs else uniq_loop result xs)"

fun uniq_dict :: "('a, int) dict \<Rightarrow> 'a list \<Rightarrow> 'a list" where
  "uniq_dict d [] = []"
| "uniq_dict d (x # xs) =
     (if \<not> dict_has d x then x # uniq_dict (dict_set x 0 d) xs else uniq_dict d xs)"

text \<open>
  \<open>key_order\<close> is the iteration order of the dictionary's keys, which the language does not fix;
  \<open>hashable\<close> tells whether the \<open>try\<close> block runs to its end or raises \<open>TypeError\<close>.
\<close>

definition uniquify :: "('a list \<Rightarrow> 'a list) \<Rightarrow> bool \<Rightarrow> 'a list \<Rightarrow> bool \<Rightarrow> 'a list" where
  "uniquify key_order hashable seq preserve_order =
     (if hashable \<or> seq = [] then
        (if preserve_order then uniq_dict [] seq
         else key_order (dict_keys (foldl (\<lambda>d x. dict_set x (0::int) d) [] seq)))
      else uniq_loop [] seq)"

definition reverse_dict :: "('k, 'v) dict \<Rightarrow> ('v, 'k) dict" where
  "reverse_dict d = foldl (\<lambda>result (key, value). dict_set value key result) [] d"

subsection \<open>Bit tricks\<close>

definition lsb :: "int \<Rightarrow> nat \<Rightarrow> int" where
  "lsb x n = x AND (2 ^ n - 1)"

definition gray_encode :: "int \<Rightarrow> int" where
  "gray_encode i = i XOR drop_bit 1 i"

text \<open>
  \<open>random_vec\<close>: \<open>rand\<close> gives the successive values of \<open>int((2**10) * random.random())\<close>.
  \<open>max_value\<close> is \<open>None\<close> or an integer; \<open>None\<close> and \<open>0\<close> both skip the rescaling.
\<close>

definition random_vec :: "(nat \<Rightarrow> int) \<Rightarrow> nat \<Rightarrow> int option \<Rightarrow> string result" where
  "random_vec rand bits max_value =
     res_bind (res_list (\<lambda>k. int2bin (rand k) 10) [0..<bits div 10 + 1]) (\<lambda>vs.
       let vector = concat vs in
       case max_value of
         None \<Rightarrow> Inr (take bits vector)
       | Some m \<Rightarrow>
           if m \<noteq> 0 \<and> m < 2 ^ bits - 1 then
             res_bind (py_int 2 vector) (\<lambda>v.
               if (2::int) ^ bits - 1 = 0 then Inl ZeroDivisionError
               else res_bind (int2bin ((v div (2 ^ bits - 1)) * m) (int bits)) (\<lambda>w. Inr (take bits w)))
           else Inr (take bits vector))"

text \<open>
  \<open>binary_range\<close>: \<open>v\<close> holds the bits least significant first; the inner loop ripples the carry
  kept in \<open>toggle\<close>.
\<close>

function ripple :: "nat \<Rightarrow> nat \<Rightarrow> char list \<Rightarrow> int list \<Rightarrow> char list \<times> int list" where
  "ripple bits i v toggle =
     (if i < bits \<and> toggle ! i = 1 then
        (if v ! i = CHR ''0'' then ripple bits (Suc i) (v[i := CHR ''1'']) (toggle[Suc i := 0])
         else ripple bits (Suc i) (v[i := CHR ''0'']) (toggle[Suc i := 1]))
      else (v, toggle))"
  by pat_completeness auto
termination
  by (relation "measure (\<lambda>(bits, i, _, _). bits - i)") auto

declare ripple.simps [simp del]

partial_function (option) binary_range_loop ::
  "nat \<Rightarrow> char list \<Rightarrow> int list \<Rightarrow> string list \<Rightarrow> string list option" where
  "binary_range_loop bits v toggle l =
     (if toggle ! bits \<noteq> 1 then
        (let l' = l @ [rev v];
             (v', toggle') = ripple bits 0 v (1 # replicate bits 0)
         in binary_range_loop bits v' toggle' l')
      else Some l)"

definition binary_range :: "nat \<Rightarrow> string list option" where
  "binary_range bits =
     binary_range_loop bits (replicate bits (CHR ''0'')) (1 # replicate bits 0) []"

subsection \<open>find_common_fixes and is_rotated\<close>

function common_prefix_loop :: "string \<Rightarrow> string \<Rightarrow> nat \<Rightarrow> nat \<Rightarrow> string \<Rightarrow> string" where
  "common_prefix_loop s1 s2 common_len i prefix =
     (if i < common_len then
        (if s1 ! i \<noteq> s2 ! i then prefix
         else common_prefix_loop s1 s2 common_len (Suc i) (prefix @ [s1 ! i]))
      else prefix)"
  by pat_completeness auto
termination
  by (relation "measure (\<lambda>(_, _, n, i, _). n - i)") auto

declare common_prefix_loop.simps [simp del]

function common_suffix_loop :: "string \<Rightarrow> string \<Rightarrow> nat \<Rightarrow> nat \<Rightarrow> string \<Rightarrow> string" where
  "common_suffix_loop s1 s2 common_len i suffix =
     (if i < common_len + 1 then
        (if s1 ! (length s1 - i) \<noteq> s2 ! (length s2 - i) then suffix
         else common_suffix_loop s1 s2 common_len (Suc i) (suffix @ [s1 ! (length s1 - i)]))
      else suffix)"
  by pat_completeness auto
termination
  by (relation "measure (\<lambda>(_, _, n, i, _). Suc n - i)") auto

declare common_suffix_loop.simps [simp del]

definition find_common_fixes :: "string \<Rightarrow> string \<Rightarrow> string \<times> string" where
  "find_common_fixes s1 s2 =
     (let common_len = min (length s1) (length s2)
      in (common_prefix_loop s1 s2 common_len 0 [],
          rev (common_suffix_loop s1 s2 common_len 1 [])))"

definition is_rotated :: "'a list \<Rightarrow> 'a list \<Rightarrow> bool result" where
  "is_rotated seq1 seq2 =
     (if length seq1 \<noteq> length seq2 then Inr False
      else case seq2 of
        [] \<Rightarrow> Inl IndexError
      | head_item # _ \<Rightarrow>
          (let start_indexes = filter (\<lambda>index1. seq1 ! index1 = head_item) [0..<length seq1];
               double_seq1 = seq1 @ seq1
           in Inr (list_ex (\<lambda>index1. take (length seq1) (drop index1 double_seq1) = seq2)
                     start_indexes)))"

subsection \<open>round_grid and get_args\<close>

text \<open>
  \<open>round_grid\<close> on integers. The test \<open>off_grid >= grid / 2.0\<close> is written without the division.
  \<open>add_one\<close> stays unbound when the mode is 1 or -1 and the value is on the grid, or the mode is
  none of the three.
\<close>

definition round_grid :: "int \<Rightarrow> int \<Rightarrow> int \<Rightarrow> int result" where
  "round_grid v grid mode =
     (if grid = 0 then Inl ZeroDivisionError
      else
        let off_grid = v mod grid;
            add_one = (if mode = 0 then Some (if 2 * off_grid \<ge> grid then 1 else 0)
                       else if mode = 1 \<and> off_grid \<noteq> 0 then Some 1
                       else if mode = -1 \<and> off_grid \<noteq> 0 then Some 0
                       else None)
        in case add_one of
             None \<Rightarrow> Inl UnboundLocalError
           | Some a \<Rightarrow> Inr ((v div grid + a) * grid))"

datatype argval = NoVal | StrVal string | ListVal "string list"

fun get_args_loop :: "(string, argval) dict \<Rightarrow> string list \<Rightarrow> string list \<Rightarrow> (string, argval) dict" where
  "get_args_loop d args [] = dict_set ''args'' (ListVal args) d"
| "get_args_loop d args (arg # argv) =
     (if py_startswith arg ''-'' then
        (case py_split (CHR ''='') (dropWhile (\<lambda>c. c = CHR ''-'') arg) of
           [p0, p1] \<Rightarrow> get_args_loop (dict_set p0 (StrVal p1) d) args argv
         | p0 # _ \<Rightarrow> get_args_loop (dict_set p0 NoVal d) args argv
         | [] \<Rightarrow> get_args_loop d args argv)
      else get_args_loop d (args @ [arg]) argv)"

definition get_args :: "string list \<Rightarrow> (string, argval) dict" where
  "get_args argv = get_args_loop [] [] argv"

subsection \<open>Reference definitions used in the statements\<close>

text \<open>
  \<open>binstr\<close>: only the characters 0 and 1. \<open>first_occ\<close>: the items of a list at their first
  occurrence. \<open>close_polygon\<close>: the closing point appended where it is missing.
  \<open>option_of\<close>: the dictionary entry of one command-line option. The others restate loop bodies
  as structural recursions.
\<close>

definition binstr :: "string \<Rightarrow> bool" where
  "binstr s \<longleftrightarrow> set s \<subseteq> {CHR ''0'', CHR ''1''}"

definition hex_char :: "nat \<Rightarrow> char" where
  "hex_char d = (if d < 10 then digit_char d else char_of (87 + d))"

text \<open>The carry propagation, as a structural recursion over the remaining bits.\<close>

fun inc_bits :: "char list \<Rightarrow> char list \<times> bool" where
  "inc_bits [] = ([], True)"
| "inc_bits (c # v) =
     (if c = CHR ''0'' then (CHR ''1'' # v, False)
      else (CHR ''0'' # fst (inc_bits v), snd (inc_bits v)))"

definition lsb_value :: "char list \<Rightarrow> nat" where
  "lsb_value v = digits_value 2 (rev v)"

text \<open>The reference: keep the first occurrence of every item.\<close>

fun first_occ :: "'a list \<Rightarrow> 'a list" where
  "first_occ [] = []"
| "first_occ (x # xs) = x # filter (\<lambda>y. y \<noteq> x) (first_occ xs)"

definition close_polygon :: "point list \<Rightarrow> point list" where
  "close_polygon ps = (if last ps \<noteq> hd ps then ps @ [hd ps] else ps)"

text \<open>The entry an option argument stands for.\<close>

definition option_of :: "string \<Rightarrow> (string \<times> argval) option" where
  "option_of arg =
     (if \<not> py_startswith arg ''-'' then None
      else case py_split (CHR ''='') (dropWhile (\<lambda>c. c = CHR ''-'') arg) of
        [p0, p1] \<Rightarrow> Some (p0, StrVal p1)
      | p0 # _ \<Rightarrow> Some (p0, NoVal)
      | [] \<Rightarrow> None)"

subsection \<open>Binary strings\<close>

lemma digits_value_Cons:
  "digits_value b (c # s) = the (digit_val c) * b ^ length s + digits_value b s"
proof (induction s rule: rev_induct)
  case Nil
  then show ?case by (simp add: digits_value_def)
next
  case (snoc x s)
  have "digits_value b (c # s @ [x]) = digits_value b ((c # s) @ [x])" by simp
  also have "\<dots> = digits_value b (c # s) * b + the (digit_val x)"
    by (simp only: digits_value_append)
  finally show ?case using snoc by (simp add: digits_value_append algebra_simps)
qed

lemma digits_value_append_str:
  "digits_value b (s @ t) = digits_value b s * b ^ length t + digits_value b t"
proof (induction s)
  case Nil
  then show ?case by (simp add: digits_value_def)
next
  case (Cons c s)
  then show ?case by (simp add: digits_value_Cons power_add algebra_simps)
qed

lemma digit_val_01 [simp]: "digit_val (CHR ''0'') = Some 0" "digit_val (CHR ''1'') = Some 1"
  by (simp_all add: digit_val_def)

lemma binstr_simps [simp]:
  "binstr []" "binstr (c # s) \<longleftrightarrow> (c = CHR ''0'' \<or> c = CHR ''1'') \<and> binstr s"
  "binstr (s @ t) \<longleftrightarrow> binstr s \<and> binstr t"
  "binstr (replicate n (CHR ''0''))"
  by (auto simp: binstr_def)

lemma binstr_value_bound: "binstr s \<Longrightarrow> digits_value 2 s < 2 ^ length s"
proof (induction s)
  case Nil
  then show ?case by (simp add: digits_value_def)
qed (auto simp: digits_value_Cons)

lemma binstr_value_zero: "binstr s \<Longrightarrow> digits_value 2 s = 0 \<longleftrightarrow> CHR ''1'' \<notin> set s"
proof (induction s)
  case Nil
  then show ?case by (simp add: digits_value_def)
qed (auto simp: digits_value_Cons)

lemma value_zeros [simp]: "digits_value 2 (replicate n (CHR ''0'')) = 0"
  by (subst binstr_value_zero) auto

text \<open>A binary string is determined by its length and value.\<close>

lemma binstr_eqI:
  "binstr s \<Longrightarrow> binstr t \<Longrightarrow> length s = length t \<Longrightarrow> digits_value 2 s = digits_value 2 t \<Longrightarrow> s = t"
proof (induction s arbitrary: t)
  case Nil
  then show ?case by simp
next
  case (Cons c s)
  then obtain d t' where t: "t = d # t'" "length s = length t'" by (cases t) auto
  have bounds: "digits_value 2 s < 2 ^ length t'" "digits_value 2 t' < 2 ^ length t'"
    using Cons.prems t binstr_value_bound [of s] binstr_value_bound [of t'] by auto
  have "c = d"
    using Cons.prems bounds unfolding t by (auto simp: digits_value_Cons)
  with Cons.prems Cons.IH [of t'] t show ?case by (auto simp: digits_value_Cons)
qed

lemma hex_digits_rec:
  "hex_digits n = (if n < 16 then [hex_char n] else hex_digits (n div 16) @ [hex_char (n mod 16)])"
  by (subst hex_digits.simps) (simp add: hex_char_def)

lemma hex2bin_table:
  "list_all (\<lambda>d. case dict_get hex2bin (hex_char d) of
      Inl _ \<Rightarrow> False
    | Inr s \<Rightarrow> binstr s \<and> length s = 4 \<and> digits_value 2 s = d) [0..<16]"
  by code_simp

lemma hex2bin_nibble:
  assumes "d < 16"
  shows "\<exists>s. dict_get hex2bin (hex_char d) = Inr s \<and> binstr s \<and> length s = 4 \<and> digits_value 2 s = d"
proof -
  have "case dict_get hex2bin (hex_char d) of
      Inl _ \<Rightarrow> False
    | Inr s \<Rightarrow> binstr s \<and> length s = 4 \<and> digits_value 2 s = d"
    using hex2bin_table assms by (simp add: list_all_iff)
  then show ?thesis by (auto split: sum.splits)
qed

lemma res_list_snoc:
  "res_list f (xs @ [x]) =
     res_bind (res_list f xs) (\<lambda>ys. res_bind (f x) (\<lambda>y. Inr (ys @ [y])))"
  by (induction xs) (auto split: sum.splits simp: res_bind_def)

lemma hex2bin_digits:
  "\<exists>parts. res_list (dict_get hex2bin) (hex_digits n) = Inr parts
     \<and> binstr (concat parts) \<and> digits_value 2 (concat parts) = n"
proof (induction n rule: less_induct)
  case (less n)
  show ?case
  proof (cases "n < 16")
    case True
    with hex2bin_nibble [OF True] show ?thesis
      by (auto simp: hex_digits_rec [of n])
  next
    case False
    then obtain ps where ps: "res_list (dict_get hex2bin) (hex_digits (n div 16)) = Inr ps"
        "binstr (concat ps)" "digits_value 2 (concat ps) = n div 16"
      using less [of "n div 16"] by auto
    obtain s where s: "dict_get hex2bin (hex_char (n mod 16)) = Inr s" "binstr s" "length s = 4"
        "digits_value 2 s = n mod 16"
      using hex2bin_nibble [of "n mod 16"] by auto
    have "digits_value 2 (concat (ps @ [s])) = n"
      using ps s by (simp add: digits_value_append_str)
    moreover have "res_list (dict_get hex2bin) (hex_digits n) = Inr (ps @ [s])"
      using False ps s by (simp add: hex_digits_rec [of n] res_list_snoc)
    ultimately show ?thesis using ps s by (intro exI [of _ "ps @ [s]"]) simp
  qed
qed

lemma py_slice_neg:
  assumes "0 < n"
  shows "py_slice_to xs (- int n) = take (length xs - n) xs"
    and "py_slice_from xs (- int n) = drop (length xs - n) xs"
  using assms by (auto simp: py_slice_to_def py_slice_from_def py_bound_def nat_diff_distrib' minus_int_code)

text \<open>What \<open>int2bin\<close> returns for a non-negative integer and a positive width.\<close>

lemma int2bin_nonneg:
  assumes "0 \<le> i" and n: "0 < n"
  shows "(i < 2 ^ n \<longrightarrow> (\<exists>s. int2bin i (int n) = Inr s \<and> binstr s \<and> length s = n \<and> int (digits_value 2 s) = i))
    \<and> (\<not> i < 2 ^ n \<longrightarrow> int2bin i (int n) = Inl ValueError)"
proof -
  obtain parts where p: "res_list (dict_get hex2bin) (hex_digits (nat i)) = Inr parts"
      and b: "binstr (concat parts)" and v: "digits_value 2 (concat parts) = nat i"
    using hex2bin_digits by blast
  define r where "r = concat parts"
  define lo where "lo = drop (length r - n) r"
  define hi where "hi = take (length r - n) r"
  have r: "r = hi @ lo" by (simp add: hi_def lo_def)
  have bb: "binstr hi" "binstr lo" using b r by (auto simp: r_def [symmetric])
  have lolen: "length lo = min n (length r)" by (auto simp: lo_def)
  have lov: "digits_value 2 lo < 2 ^ n"
    using binstr_value_bound [OF bb(2)] lolen
    by (metis linorder_not_less min.cobounded1 one_le_numeral order_less_le_trans power_increasing)
  have val: "nat i = digits_value 2 hi * 2 ^ length lo + digits_value 2 lo"
    using v r by (simp add: r_def [symmetric] digits_value_append_str)
  have small: "CHR ''1'' \<notin> set hi \<longleftrightarrow> i < 2 ^ n"
  proof (cases "length r \<le> n")
    case True
    then have "hi = []" by (simp add: hi_def)
    with val lov assms show ?thesis
      by (simp add: digits_value_def) (metis nat_less_numeral_power_cancel_iff nat_0_le)
  next
    case False
    then have ll: "length lo = n" using lolen by simp
    have "digits_value 2 hi = 0 \<longleftrightarrow> nat i < 2 ^ n"
      using val lov ll by (cases "digits_value 2 hi") auto
    also have "\<dots> \<longleftrightarrow> i < 2 ^ n" using assms(1) by (simp add: nat_less_numeral_power_cancel_iff)
    finally show ?thesis using binstr_value_zero [OF bb(1)] by simp
  qed
  have eq: "int2bin i (int n) = (if CHR ''1'' \<in> set hi then Inl ValueError
      else Inr (replicate (n - length lo) (CHR ''0'') @ lo))"
    using assms(1) p py_slice_neg [OF n, of r]
    by (simp add: int2bin_def py_hex_def r_def [symmetric] hi_def lo_def nat_diff_distrib' Let_def)
  show ?thesis
  proof (cases "i < 2 ^ n")
    case True
    then have nz: "CHR ''1'' \<notin> set hi" using small by simp
    then have "digits_value 2 hi = 0" using binstr_value_zero [OF bb(1)] by simp
    then have "int (digits_value 2 lo) = i" using val assms(1) by simp
    then have "int2bin i (int n) = Inr (replicate (n - length lo) (CHR ''0'') @ lo)
        \<and> binstr (replicate (n - length lo) (CHR ''0'') @ lo)
        \<and> length (replicate (n - length lo) (CHR ''0'') @ lo) = n
        \<and> int (digits_value 2 (replicate (n - length lo) (CHR ''0'') @ lo)) = i"
      using eq nz bb lolen by (simp add: digits_value_append_str)
    with True show ?thesis by blast
  next
    case False
    with eq small show ?thesis by simp
  qed
qed

subsection \<open>gcf, lcm, fractions\<close>

lemma gcf_loop_gcd: "gcf_loop a b = gcd a b"
proof (induction a b rule: gcf_loop.induct)
  case (1 a b)
  show ?case
  proof (cases "b = 0")
    case True
    then show ?thesis by (simp add: gcf_loop.simps [of a 0])
  next
    case False
    have "gcf_loop a b = gcd b (a mod b)"
      using False 1 by (simp add: gcf_loop.simps [of a b])
    also have "\<dots> = gcd a b"
      using False by (metis gcd_red_int gcd.commute)
    finally show ?thesis .
  qed
qed

lemma gcf_gcd: "gcf a b = gcd a b"
  by (simp add: gcf_def gcf_loop_gcd max_def min_def gcd.commute)

lemma lcm_py_sign: "\<bar>lcm_py a b\<bar> = lcm a b \<and> (lcm_py a b \<noteq> 0 \<longrightarrow> sgn (lcm_py a b) = sgn a * sgn b)"
proof (cases "gcd a b = 0")
  case True
  then show ?thesis by (simp add: lcm_py_def gcf_gcd)
next
  case False
  obtain k where k: "b = gcd a b * k" by (meson dvdE gcd_dvd2)
  have g: "0 < gcd a b" using False by (metis gcd_ge_0_int le_less)
  have div: "b div gcd a b = k" using k False by (metis nonzero_mult_div_cancel_left)
  have val: "lcm_py a b = a * k" by (simp add: lcm_py_def gcf_gcd False div Let_def)
  have "\<bar>b\<bar> = gcd a b * \<bar>k\<bar>"
    by (metis k abs_mult abs_of_pos g)
  then have "gcd a b * (\<bar>a\<bar> * \<bar>k\<bar>) = gcd a b * lcm a b"
    by (metis abs_mult prod_gcd_lcm_int mult.left_commute)
  then have "\<bar>a * k\<bar> = lcm a b" using False by (simp only: mult_cancel_left abs_mult) simp
  moreover have "sgn b = sgn k" using g by (subst k) (simp add: sgn_mult)
  ultimately show ?thesis by (simp add: val sgn_mult)
qed

lemma reduce_fraction_spec:
  "(a = 0 \<and> b = 0 \<longrightarrow> reduce_fraction (a, b) = Inl ZeroDivisionError) \<and>
   (\<not> (a = 0 \<and> b = 0) \<longrightarrow>
      (\<exists>p q. reduce_fraction (a, b) = Inr (p, q) \<and> coprime p q \<and> a * q = b * p
         \<and> a = p * gcd a b \<and> b = q * gcd a b))"
proof (cases "a = 0 \<and> b = 0")
  case True
  then show ?thesis by (simp add: reduce_fraction_def gcf_gcd)
next
  case False
  then have g: "gcd a b \<noteq> 0" by simp
  have cop: "coprime (a div gcd a b) (b div gcd a b)"
    using False by (intro div_gcd_coprime) auto
  have a: "a = a div gcd a b * gcd a b" and b: "b = b div gcd a b * gcd a b" by simp_all
  have "a * (b div gcd a b) = b * (a div gcd a b)"
    by (metis a b mult.assoc mult.commute)
  with a b cop g False show ?thesis
    by (auto simp: reduce_fraction_def gcf_gcd Let_def)
qed

subsection \<open>permutations\<close>

lemma mset_insert_at: "mset (take i xs @ [x] @ drop i xs) = add_mset x (mset xs)"
  by (metis append_take_drop_id append_Cons append_Nil mset.simps(2) mset_append union_mset_add_mset_right)

lemma insert_at_cover:
  assumes "mset ys = add_mset x M"
  shows "\<exists>i zs. i \<le> length zs \<and> mset zs = M \<and> ys = take i zs @ [x] @ drop i zs"
proof -
  have "x \<in> set ys" using assms by (metis set_mset_mset union_single_eq_member)
  then obtain as bs where ys: "ys = as @ x # bs" by (meson split_list)
  have "mset (as @ bs) = M" using assms ys by simp
  moreover have "ys = take (length as) (as @ bs) @ [x] @ drop (length as) (as @ bs)" using ys by simp
  ultimately show ?thesis by (metis le_add1 length_append)
qed

lemma set_permutations: "set (permutations xs) = {ys. mset ys = mset xs}"
proof (induction xs rule: permutations.induct)
  case (3 x y ys)
  let ?zs = "y # ys"
  show ?case
  proof (intro set_eqI iffI)
    fix l
    assume "l \<in> set (permutations (x # y # ys))"
    then obtain s i where "s \<in> set (permutations ?zs)" "l = take i s @ [x] @ drop i s" by auto
    then show "l \<in> {l. mset l = mset (x # y # ys)}"
      using 3 mset_insert_at [of i s x] by simp
  next
    fix l
    assume "l \<in> {l. mset l = mset (x # y # ys)}"
    then have "mset l = add_mset x (mset ?zs)" by simp
    from insert_at_cover [OF this]
    obtain i s where i: "i \<le> length s" "mset s = mset ?zs" "l = take i s @ [x] @ drop i s"
      by blast
    then have "s \<in> set (permutations ?zs)" using 3 by simp
    moreover have "i < length (x # y # ys)"
      using i(1) mset_eq_length [OF i(2)] by simp
    then have "l \<in> set (map (\<lambda>i. take i s @ [x] @ drop i s) [0..<length (x # y # ys)])"
      by (simp only: i(3) set_map set_upt) (rule imageI, simp)
    ultimately show "l \<in> set (permutations (x # y # ys))"
      by (simp only: permutations.simps set_concat set_map [of _ "permutations (y # ys)"]) blast
  qed
qed auto

lemma length_permutations: "length (permutations xs) = fact (length xs)"
proof (induction xs rule: permutations.induct)
  case (3 x y ys)
  have "length (permutations (x # y # ys))
      = sum_list (map (\<lambda>s. length (x # y # ys)) (permutations (y # ys)))"
    by (simp add: length_concat comp_def)
  also have "\<dots> = length (permutations (y # ys)) * length (x # y # ys)"
    by (simp add: sum_list_triv)
  finally show ?case using 3 by (simp add: algebra_simps)
qed auto

subsection \<open>is_rotated\<close>

lemma take_drop_double: "i < length xs \<Longrightarrow> take (length xs) (drop i (xs @ xs)) = rotate i xs"
  by (simp add: rotate_drop_take)

lemma is_rotated_iff:
  assumes "length xs = length ys" and "ys \<noteq> []"
  shows "is_rotated xs ys = Inr (\<exists>n. rotate n xs = ys)"
proof -
  obtain h t where ys: "ys = h # t" using assms by (cases ys) auto
  have ne: "xs \<noteq> []" using assms by auto
  have "(\<exists>i<length xs. xs ! i = h \<and> take (length xs) (drop i (xs @ xs)) = ys) \<longleftrightarrow> (\<exists>n. rotate n xs = ys)"
  proof
    assume "\<exists>n. rotate n xs = ys"
    then obtain n where n: "rotate n xs = ys" by blast
    let ?i = "n mod length xs"
    have i: "?i < length xs" using ne by simp
    have r: "rotate ?i xs = ys" using n rotate_conv_mod [of n xs] by simp
    have "hd (rotate ?i xs) = xs ! ?i" using hd_rotate_conv_nth [OF ne, of ?i] by simp
    then have "xs ! ?i = h" using r ys by simp
    with i r show "\<exists>i<length xs. xs ! i = h \<and> take (length xs) (drop i (xs @ xs)) = ys"
      using take_drop_double [OF i] by auto
  qed (use take_drop_double in metis)
  moreover have "is_rotated xs ys = Inr (list_ex (\<lambda>i. take (length xs) (drop i (xs @ xs)) = ys)
      (filter (\<lambda>i. xs ! i = h) [0..<length xs]))"
    using assms(1) unfolding is_rotated_def ys by (simp only: list.case Let_def) simp
  ultimately show ?thesis by (auto simp: list_ex_iff simp del: upt_Suc)
qed

subsection \<open>Bit tricks\<close>

lemma lsb_mod: "lsb x n = x mod 2 ^ n"
  by (simp add: lsb_def mask_eq_exp_minus_1 [symmetric] take_bit_eq_mask [symmetric] take_bit_eq_mod)

lemma bit_gray: "bit (gray_encode i) k \<longleftrightarrow> bit i k \<noteq> bit i (Suc k)"
  by (simp add: gray_encode_def bit_xor_iff bit_drop_bit_eq)

lemma bit_double_simps:
  "\<not> bit (2 * j :: int) 0" "bit (2 * j :: int) (Suc n) \<longleftrightarrow> bit j n"
  "bit (2 * j + 1 :: int) 0" "bit (2 * j + 1 :: int) (Suc n) \<longleftrightarrow> bit j n"
  by (simp_all add: bit_Suc bit_0)

lemma gray_even: "gray_encode (2 * j) XOR gray_encode (2 * j + 1) = 1"
proof (rule bit_eqI)
  fix n
  show "bit (gray_encode (2 * j) XOR gray_encode (2 * j + 1)) n \<longleftrightarrow> bit (1::int) n"
    by (cases n) (simp_all add: bit_xor_iff bit_gray bit_1_iff bit_double_simps)
qed

lemma gray_odd:
  "gray_encode (2 * j + 1) XOR gray_encode (2 * (j + 1))
     = 2 * (gray_encode j XOR gray_encode (j + 1))"
proof (rule bit_eqI)
  fix n
  have parity: "bit (j + 1) 0 \<longleftrightarrow> \<not> bit j 0" by (simp add: bit_0)
  show "bit (gray_encode (2 * j + 1) XOR gray_encode (2 * (j + 1))) n
      \<longleftrightarrow> bit (2 * (gray_encode j XOR gray_encode (j + 1))) n"
    by (cases n) (simp_all only: bit_xor_iff bit_gray bit_double_simps parity, auto)
qed

text \<open>Successive Gray codes differ in exactly one bit.\<close>

lemma gray_step: "\<exists>k. gray_encode (int n) XOR gray_encode (int n + 1) = 2 ^ k"
proof (induction n rule: less_induct)
  case (less n)
  show ?case
  proof (cases "even n")
    case True
    then obtain m where m: "n = 2 * m" by blast
    have "gray_encode (int n) XOR gray_encode (int n + 1) = 2 ^ 0"
      using gray_even [of "int m"] m by simp
    then show ?thesis by blast
  next
    case False
    then obtain m where m: "n = 2 * m + 1" by (meson oddE)
    then obtain k where "gray_encode (int m) XOR gray_encode (int m + 1) = 2 ^ k"
      using less [of m] by auto
    then have "gray_encode (int n) XOR gray_encode (int n + 1) = 2 ^ Suc k"
      using gray_odd [of "int m"] m by (simp add: algebra_simps)
    then show ?thesis by blast
  qed
qed

subsection \<open>binary_range\<close>

lemma ripple_inc:
  assumes "toggle ! i = 1" "\<forall>j. i < j \<and> j \<le> bits \<longrightarrow> toggle ! j = 0"
    and "i \<le> bits" "length v = bits" "length toggle = Suc bits"
  shows "fst (ripple bits i v toggle) = take i v @ fst (inc_bits (drop i v))
    \<and> (snd (ripple bits i v toggle) ! bits = 1 \<longleftrightarrow> snd (inc_bits (drop i v)))"
  using assms
proof (induction bits i v toggle rule: ripple.induct)
  case (1 bits i v toggle)
  show ?case
  proof (cases "i < bits")
    case False
    with 1 show ?thesis by (simp add: ripple.simps [of bits bits])
  next
    case True
    then have dr: "drop i v = v ! i # drop (Suc i) v" using 1 by (simp add: Cons_nth_drop_Suc)
    show ?thesis
    proof (cases "v ! i = CHR ''0''")
      case zero: True
      have "(toggle[Suc i := 0]) ! Suc i \<noteq> 1" using True 1 by simp
      then have "ripple bits (Suc i) (v[i := CHR ''1'']) (toggle[Suc i := 0])
          = (v[i := CHR ''1''], toggle[Suc i := 0])"
        by (simp add: ripple.simps [of bits "Suc i"])
      moreover have "(toggle[Suc i := 0]) ! bits \<noteq> 1"
        using True 1 by (auto simp: nth_list_update)
      ultimately show ?thesis
        using 1 zero True dr by (simp add: ripple.simps [of bits i] upd_conv_take_nth_drop)
    next
      case one: False
      let ?v = "v[i := CHR ''0'']" and ?t = "toggle[Suc i := 1]"
      have "fst (ripple bits (Suc i) ?v ?t) = take (Suc i) ?v @ fst (inc_bits (drop (Suc i) ?v))
          \<and> (snd (ripple bits (Suc i) ?v ?t) ! bits = 1 \<longleftrightarrow> snd (inc_bits (drop (Suc i) ?v)))"
        using 1(2)[OF _ one] 1(3-) True by simp
      moreover have "take (Suc i) ?v = take i v @ [CHR ''0'']"
        using True 1 by (simp add: take_Suc_conv_app_nth)
      moreover have "drop (Suc i) ?v = drop (Suc i) v" by simp
      ultimately show ?thesis
        using True one dr 1(3) by (simp add: ripple.simps [of bits i])
    qed
  qed
qed

lemma lsb_value_simps [simp]:
  "lsb_value [] = 0"
  "lsb_value (c # v) = the (digit_val c) + 2 * lsb_value v"
  by (simp_all add: lsb_value_def digits_value_append) (simp add: digits_value_def)

lemma inc_bits_spec:
  "binstr v \<Longrightarrow> binstr (fst (inc_bits v)) \<and> length (fst (inc_bits v)) = length v
     \<and> (if snd (inc_bits v) then Suc (lsb_value v) = 2 ^ length v
        else lsb_value (fst (inc_bits v)) = Suc (lsb_value v))"
  by (induction v) auto

lemma binstr_rev [simp]: "binstr (rev s) \<longleftrightarrow> binstr s"
  by (simp add: binstr_def)

lemma binary_range_loop_spec:
  assumes "binstr v" "length v = bits" "0 < bits" "toggle ! bits \<noteq> 1"
  shows "\<exists>l'. binary_range_loop bits v toggle l = Some (l @ l')
    \<and> list_all2 (\<lambda>k s. binstr s \<and> length s = bits \<and> digits_value 2 s = k) [lsb_value v..<2 ^ bits] l'"
  using assms
proof (induction "2 ^ bits - lsb_value v" arbitrary: v toggle l rule: less_induct)
  case less
  let ?t = "1 # replicate bits (0::int)"
  define v' where "v' = fst (inc_bits v)"
  obtain w t' where rip: "ripple bits 0 v ?t = (w, t')" by (cases "ripple bits 0 v ?t")
  have "\<forall>j. 0 < j \<and> j \<le> bits \<longrightarrow> ?t ! j = 0" by (auto simp: nth_Cons')
  then have "w = v' \<and> (t' ! bits = 1 \<longleftrightarrow> snd (inc_bits v))"
    using ripple_inc [of ?t 0 bits v] less.prems rip by (simp add: v'_def)
  then have w: "w = v'" and t': "t' ! bits = 1 \<longleftrightarrow> snd (inc_bits v)" by auto
  have v': "binstr v'" "length v' = bits"
    and step: "if snd (inc_bits v) then Suc (lsb_value v) = 2 ^ bits else lsb_value v' = Suc (lsb_value v)"
    using inc_bits_spec [OF less.prems(1)] less.prems(2) by (auto simp: v'_def)
  have lt: "lsb_value v < 2 ^ bits"
    using binstr_value_bound [of "rev v"] less.prems by (simp add: lsb_value_def)
  have unfold: "binary_range_loop bits v toggle l = binary_range_loop bits v' t' (l @ [rev v])"
    using less.prems(4) rip w by (simp add: binary_range_loop.simps [of bits v])
  have upt: "[lsb_value v..<2 ^ bits] = lsb_value v # [Suc (lsb_value v)..<2 ^ bits]"
    using lt by (simp add: upt_conv_Cons)
  have first: "binstr (rev v) \<and> length (rev v) = bits \<and> digits_value 2 (rev v) = lsb_value v"
    using less.prems by (simp add: lsb_value_def)
  show ?case
  proof (cases "snd (inc_bits v)")
    case True
    then have "binary_range_loop bits v toggle l = Some (l @ [rev v])"
      using unfold t' by (simp add: binary_range_loop.simps [of bits v'])
    moreover have "[Suc (lsb_value v)..<2 ^ bits] = []" using True step by simp
    ultimately show ?thesis using upt first by simp
  next
    case False
    then have sv: "lsb_value v' = Suc (lsb_value v)" using step by simp
    have "2 ^ bits - lsb_value v' < 2 ^ bits - lsb_value v" using sv lt by simp
    from less.hyps [OF this v' less.prems(3), of t' "l @ [rev v]"] False t'
    obtain l' where "binary_range_loop bits v' t' (l @ [rev v]) = Some ((l @ [rev v]) @ l')"
        "list_all2 (\<lambda>k s. binstr s \<and> length s = bits \<and> digits_value 2 s = k) [lsb_value v'..<2 ^ bits] l'"
      by auto
    then show ?thesis using unfold upt first sv by (intro exI [of _ "rev v # l'"]) simp
  qed
qed

lemma int2bin_unique:
  assumes "binstr s" "length s = n" "0 < n"
  shows "int2bin (int (digits_value 2 s)) (int n) = Inr s"
proof -
  have lt: "int (digits_value 2 s) < 2 ^ n"
    using binstr_value_bound [OF assms(1)] assms(2)
    by (metis of_nat_less_iff of_nat_numeral of_nat_power)
  from mp [OF conjunct1 [OF int2bin_nonneg [OF of_nat_0_le_iff assms(3)]] lt]
  obtain t where t: "int2bin (int (digits_value 2 s)) (int n) = Inr t" "binstr t" "length t = n"
      "int (digits_value 2 t) = int (digits_value 2 s)"
    by blast
  have "length s = length t" and "digits_value 2 s = digits_value 2 t"
    using t(3,4) assms(2) by simp_all
  then have "s = t" by (rule binstr_eqI [OF assms(1) t(2)])
  with t(1) show ?thesis by simp
qed

lemma lsb_value_zeros: "lsb_value (replicate n (CHR ''0'')) = 0"
  by (simp add: lsb_value_def)

lemma binary_range_spec:
  assumes "0 < bits"
  shows "\<exists>l. binary_range bits = Some l \<and> res_list (\<lambda>k. int2bin (int k) (int bits)) [0..<2 ^ bits] = Inr l"
proof -
  obtain l where l: "binary_range bits = Some l"
      "list_all2 (\<lambda>k s. binstr s \<and> length s = bits \<and> digits_value 2 s = k) [0..<2 ^ bits] l"
    using binary_range_loop_spec [of "replicate bits (CHR ''0'')" bits "1 # replicate bits 0" "[]"] assms
    by (auto simp: binary_range_def lsb_value_zeros nth_Cons')
  have "list_all2 (\<lambda>k s. int2bin (int k) (int bits) = Inr s) [0..<2 ^ bits] l"
    by (rule list_all2_mono [OF l(2)]) (use int2bin_unique assms in auto)
  with l(1) show ?thesis by (simp add: res_list_Inr_iff)
qed

subsection \<open>find_common_fixes\<close>

lemma common_prefix_loop_spec:
  assumes "n \<le> length s1" "n \<le> length s2" "i \<le> n" "take i s1 = take i s2" "prefix = take i s1"
  shows "\<exists>k. common_prefix_loop s1 s2 n i prefix = take k s1 \<and> i \<le> k \<and> k \<le> n \<and> take k s1 = take k s2
     \<and> (k < n \<longrightarrow> s1 ! k \<noteq> s2 ! k)"
  using assms
proof (induction s1 s2 n i prefix rule: common_prefix_loop.induct)
  case (1 s1 s2 n i prefix)
  show ?case
  proof (cases "i < n \<and> s1 ! i = s2 ! i")
    case True
    then have "common_prefix_loop s1 s2 n i prefix = common_prefix_loop s1 s2 n (Suc i) (prefix @ [s1 ! i])"
      by (simp add: common_prefix_loop.simps [of s1 s2 n i])
    moreover have "\<exists>k. common_prefix_loop s1 s2 n (Suc i) (prefix @ [s1 ! i]) = take k s1 \<and> Suc i \<le> k \<and> k \<le> n
        \<and> take k s1 = take k s2 \<and> (k < n \<longrightarrow> s1 ! k \<noteq> s2 ! k)"
      by (rule 1(1)) (use True 1(2-) in \<open>auto simp: take_Suc_conv_app_nth\<close>)
    ultimately show ?thesis by (metis Suc_leD)
  next
    case False
    then have "common_prefix_loop s1 s2 n i prefix = prefix"
      by (auto simp: common_prefix_loop.simps [of s1 s2 n i])
    with False 1(2-) show ?thesis by (intro exI [of _ i]) auto
  qed
qed

lemma common_suffix_loop_prefix:
  assumes "1 \<le> i" "i \<le> Suc n" "n \<le> length s1" "n \<le> length s2"
  shows "common_suffix_loop s1 s2 n i suffix = common_prefix_loop (rev s1) (rev s2) n (i - 1) suffix"
  using assms
proof (induction s1 s2 n i suffix rule: common_suffix_loop.induct)
  case (1 s1 s2 n i suffix)
  have nth: "i < n + 1 \<Longrightarrow> rev s1 ! (i - 1) = s1 ! (length s1 - i) \<and> rev s2 ! (i - 1) = s2 ! (length s2 - i)"
    using 1(2-) by (simp add: rev_nth)
  show ?case
  proof (cases "i < n + 1 \<and> s1 ! (length s1 - i) = s2 ! (length s2 - i)")
    case True
    then have "common_suffix_loop s1 s2 n i suffix
        = common_suffix_loop s1 s2 n (Suc i) (suffix @ [s1 ! (length s1 - i)])"
      by (simp add: common_suffix_loop.simps [of s1 s2 n i])
    also have "\<dots> = common_prefix_loop (rev s1) (rev s2) n i (suffix @ [s1 ! (length s1 - i)])"
      using 1(1) True 1(2-) by simp
    also have "\<dots> = common_prefix_loop (rev s1) (rev s2) n (i - 1) suffix"
      using True nth 1(2) by (subst (2) common_prefix_loop.simps) auto
    finally show ?thesis .
  next
    case False
    then show ?thesis
      using nth 1(2-) by (subst common_suffix_loop.simps, subst common_prefix_loop.simps) auto
  qed
qed

lemma longest_common:
  assumes "take k s1 = take k s2" "k \<le> min (length s1) (length s2)"
    "k < min (length s1) (length s2) \<longrightarrow> s1 ! k \<noteq> s2 ! k" "s1 = q @ a" "s2 = q @ b"
  shows "length q \<le> k"
proof (rule ccontr)
  assume "\<not> length q \<le> k"
  then have "k < length q" by simp
  moreover from this have "s1 ! k = s2 ! k" using assms(4,5) by (simp add: nth_append)
  ultimately show False using assms(3-5) by auto
qed

subsection \<open>uniquify\<close>

lemma set_first_occ [simp]: "set (first_occ xs) = set xs"
  by (induction xs) auto

lemma distinct_first_occ [simp]: "distinct (first_occ xs)"
  by (induction xs) auto

lemma uniq_loop_first_occ: "uniq_loop result xs = result @ filter (\<lambda>y. y \<notin> set result) (first_occ xs)"
proof (induction xs arbitrary: result)
  case Nil
  then show ?case by simp
next
  case (Cons x xs)
  show ?case
  proof (cases "x \<in> set result")
    case True
    then have "filter (\<lambda>y. y \<notin> set result) (first_occ xs)
        = filter (\<lambda>y. y \<notin> set result) (filter (\<lambda>y. y \<noteq> x) (first_occ xs))"
      by (auto intro: filter_cong)
    with True Cons.IH show ?thesis by simp
  next
    case False
    with Cons.IH [of "result @ [x]"] show ?thesis by (simp add: conj_commute)
  qed
qed

lemma uniq_dict_first_occ: "uniq_dict d xs = filter (\<lambda>y. \<not> dict_has d y) (first_occ xs)"
proof (induction xs arbitrary: d)
  case Nil
  then show ?case by simp
next
  case (Cons x xs)
  have has: "dict_has (dict_set x 0 d) y \<longleftrightarrow> y = x \<or> dict_has d y" for y
    by (simp add: dict_has_iff)
  show ?case
  proof (cases "dict_has d x")
    case True
    then have "filter (\<lambda>y. \<not> dict_has d y) (filter (\<lambda>y. y \<noteq> x) (first_occ xs))
        = filter (\<lambda>y. \<not> dict_has d y) (first_occ xs)"
      by (auto intro: filter_cong)
    with True Cons.IH show ?thesis by simp
  next
    case False
    with Cons.IH show ?thesis by (simp add: has conj_commute)
  qed
qed

lemma dict_keys_foldl_set:
  "dict_ok d \<Longrightarrow> dict_ok (foldl (\<lambda>d x. dict_set x v d) d xs)
     \<and> set (dict_keys (foldl (\<lambda>d x. dict_set x v d) d xs)) = set (dict_keys d) \<union> set xs"
proof (induction xs arbitrary: d)
  case Nil
  then show ?case by simp
next
  case (Cons x xs)
  have "set (dict_keys (dict_set x v d)) = insert x (set (dict_keys d))"
    by (auto simp: dict_keys_set dict_has_def)
  with Cons.IH [of "dict_set x v d"] Cons.prems show ?case by auto
qed

lemma uniquify_spec:
  assumes "\<And>ks. mset (key_order ks) = mset ks"
  shows "(h = False \<or> preserve_order \<longrightarrow> uniquify key_order h seq preserve_order = first_occ seq)
    \<and> mset (uniquify key_order h seq preserve_order) = mset (first_occ seq)"
proof -
  have loop: "uniq_loop [] seq = first_occ seq" by (simp add: uniq_loop_first_occ)
  have dict: "uniq_dict [] seq = first_occ seq" by (simp add: uniq_dict_first_occ dict_has_def)
  let ?ks = "dict_keys (foldl (\<lambda>d x. dict_set x (0::int) d) [] seq)"
  have "distinct ?ks" "set ?ks = set seq"
    using dict_keys_foldl_set [of "[]" 0 seq] by (auto simp: dict_ok_def)
  then have "mset ?ks = mset (first_occ seq)"
    by (simp add: set_eq_iff_mset_eq_distinct [symmetric])
  moreover have "seq = [] \<Longrightarrow> key_order [] = []"
    using assms [of "[]"] by simp
  ultimately show ?thesis using assms loop dict by (auto simp: uniquify_def)
qed

subsection \<open>transpose\<close>

lemma transpose_rows_spec:
  assumes "m \<noteq> []"
  shows "transpose_rows m = map (\<lambda>j. map (\<lambda>r. r ! j) m) [0..<Min (length ` set m)]"
  using assms
proof (induction m rule: transpose_rows.induct)
  case (1 m)
  show ?case
  proof (cases "[] \<in> set m")
    case True
    then have "Min (length ` set m) = 0"
      by (metis List.finite_set Min_le finite_imageI imageI le_zero_eq list.size(3))
    with True show ?thesis by (simp add: transpose_rows.simps [of m])
  next
    case False
    let ?k = "Min (length ` set (map tl m))"
    have "length ` set m = (\<lambda>r. Suc (length (tl r))) ` set m"
      using False by (intro image_cong refl) (metis Nitpick.size_list_simp(2))
    then have len: "length ` set m = Suc ` length ` set (map tl m)"
      by (simp add: image_image)
    have "Min (length ` set m) = Suc ?k"
      unfolding len using 1(2) by (subst mono_Min_commute [symmetric]) (auto simp: mono_Suc)
    then have "[0..<Min (length ` set m)] = 0 # map Suc [0..<?k]"
      by (simp add: upt_conv_Cons map_Suc_upt del: upt_Suc)
    moreover have "map hd m = map (\<lambda>r. r ! 0) m"
      using False by (auto intro!: hd_conv_nth)
    moreover have "tl r ! j = r ! Suc j" if "r \<in> set m" for r j
      using that False by (metis list.collapse nth_Cons_Suc)
    then have "map (\<lambda>r. r ! j) (map tl m) = map (\<lambda>r. r ! Suc j) m" for j by simp
    moreover have "transpose_rows (map tl m) = map (\<lambda>j. map (\<lambda>r. r ! j) (map tl m)) [0..<?k]"
      using 1 False by simp
    ultimately show ?thesis
      using False 1(2) by (simp add: transpose_rows.simps [of m] comp_def)
  qed
qed

lemma transpose_rectangular:
  assumes "m \<noteq> []" and "\<And>r. r \<in> set m \<Longrightarrow> length r = n"
  shows "transpose_rows m = map (\<lambda>j. map (\<lambda>r. r ! j) m) [0..<n]"
proof -
  have "length ` set m = {n}" using assms by (auto simp: image_iff) (metis list.set_intros(1) neq_Nil_conv)
  then show ?thesis using transpose_rows_spec [OF assms(1)] by simp
qed

lemma transpose_involutive:
  assumes "m \<noteq> []" and rect: "\<And>r. r \<in> set m \<Longrightarrow> length r = n" and "0 < n"
  shows "transpose_rows (transpose_rows m) = m"
proof -
  let ?t = "transpose_rows m"
  have t: "?t = map (\<lambda>j. map (\<lambda>r. r ! j) m) [0..<n]"
    by (rule transpose_rectangular [OF assms(1) rect])
  have "?t \<noteq> []" "\<And>r. r \<in> set ?t \<Longrightarrow> length r = length m" using t \<open>0 < n\<close> by auto
  then have "transpose_rows ?t = map (\<lambda>i. map (\<lambda>r. r ! i) ?t) [0..<length m]"
    by (rule transpose_rectangular)
  also have "\<dots> = map (\<lambda>i. m ! i) [0..<length m]"
  proof (intro map_cong refl)
    fix i
    assume "i \<in> set [0..<length m]"
    then have i: "i < length m" by simp
    have "map (\<lambda>r. r ! i) ?t = map (\<lambda>j. m ! i ! j) [0..<n]"
      unfolding t using i by simp
    also have "\<dots> = m ! i" using rect [of "m ! i"] i by (metis map_nth nth_mem)
    finally show "map (\<lambda>r. r ! i) ?t = m ! i" .
  qed
  finally show ?thesis by (simp add: map_nth)
qed

subsection \<open>round_grid\<close>

lemma round_grid_nearest:
  assumes "0 < grid"
  shows "\<exists>k. round_grid v grid 0 = Inr (k * grid) \<and> 2 * \<bar>v - k * grid\<bar> \<le> grid"
proof -
  let ?o = "v mod grid"
  have v: "v = v div grid * grid + ?o" by simp
  have o: "0 \<le> ?o" "?o < grid" using assms by auto
  show ?thesis
  proof (cases "2 * ?o \<ge> grid")
    case True
    have "v - (v div grid + 1) * grid = ?o - grid"
      using v by (simp add: algebra_simps)
    moreover have "2 * \<bar>?o - grid\<bar> \<le> grid" using True o by (simp add: abs_if)
    ultimately show ?thesis
      using assms True by (intro exI [of _ "v div grid + 1"]) (simp add: round_grid_def)
  next
    case False
    have "v - (v div grid + 0) * grid = ?o" using v by (simp add: algebra_simps)
    with False o show ?thesis
      using assms by (intro exI [of _ "v div grid + 0"]) (simp add: round_grid_def)
  qed
qed

lemma round_grid_up_down:
  assumes "0 < grid"
  shows "round_grid v grid 1 = (if grid dvd v then Inl UnboundLocalError else Inr ((v div grid + 1) * grid))"
    and "round_grid v grid (-1) = (if grid dvd v then Inl UnboundLocalError else Inr (v div grid * grid))"
  using assms by (simp_all add: round_grid_def dvd_eq_mod_eq_0)

subsection \<open>polygon_area\<close>

lemma shoelace_scale: "shoelace (map (\<lambda>(x, y). (x * k, y * k)) ps) = k\<^sup>2 * shoelace ps"
  by (induction ps rule: shoelace.induct) (auto simp: algebra_simps power2_eq_square)

lemma shoelace_snoc:
  "shoelace (ps @ [(x0, y0), (x1, y1)]) = shoelace (ps @ [(x0, y0)]) + (x1 * y0 - y1 * x0)"
proof (induction ps rule: shoelace.induct)
  case (1 a b c d ps)
  then show ?case by (cases ps) auto
qed (auto simp: split_paired_all)

lemma shoelace_rev: "shoelace (rev ps) = - shoelace ps"
proof (induction ps rule: shoelace.induct)
  case (1 x0 y0 x1 y1 ps)
  have "shoelace (rev ((x0, y0) # (x1, y1) # ps)) = shoelace (rev ps @ [(x1, y1), (x0, y0)])" by simp
  also have "\<dots> = shoelace (rev ((x1, y1) # ps)) + (x0 * y1 - y0 * x1)"
    by (simp only: shoelace_snoc) simp
  finally show ?case using 1 by simp
qed auto

lemma polygon_area_even:
  assumes "ps \<noteq> []" and "even k" and "k \<noteq> 0"
  shows "\<exists>qs. polygon_area_scaled ps k = Inr (qs, k\<^sup>2 div 2 * \<bar>shoelace (close_polygon ps)\<bar>)"
proof -
  let ?sc = "\<lambda>(x, y). (x * k, y * k)"
  have inj: "?sc p = ?sc q \<longleftrightarrow> p = q" for p q using assms(3) by (auto split: prod.splits)
  have lh: "last (map ?sc ps) = ?sc (last ps)" "hd (map ?sc ps) = ?sc (hd ps)"
    using assms(1) by (simp_all add: last_map hd_map)
  have "polygon_area_scaled ps k = Inr (map ?sc (close_polygon ps), \<bar>shoelace (map ?sc (close_polygon ps)) div 2\<bar>)"
    using assms(1) by (simp add: polygon_area_scaled_def close_polygon_def Let_def lh inj)
  moreover have "even (k\<^sup>2)" using assms(2) by simp
  then have "k\<^sup>2 * s div 2 = k\<^sup>2 div 2 * s" for s by (metis div_mult_swap dvd_div_mult mult.commute)
  moreover have "0 \<le> k\<^sup>2 div 2" by simp
  ultimately show ?thesis by (simp add: shoelace_scale abs_mult)
qed

subsection \<open>get_args\<close>

lemma get_args_loop_step:
  "get_args_loop d args (arg # argv) =
     (case option_of arg of
        Some (k, v) \<Rightarrow> get_args_loop (dict_set k v d) args argv
      | None \<Rightarrow> get_args_loop d (if py_startswith arg ''-'' then args else args @ [arg]) argv)"
  by (auto simp: option_of_def split: list.splits)

lemma option_of_None: "option_of arg = None \<longleftrightarrow> \<not> py_startswith arg ''-''"
  by (auto simp: option_of_def split: list.splits)

lemma get_args_loop_spec:
  "map_of (get_args_loop d args argv) k =
     (if k = ''args'' then Some (ListVal (args @ filter (\<lambda>a. \<not> py_startswith a ''-'') argv))
      else map_of (rev (List.map_filter option_of argv) @ d) k)"
proof (induction argv arbitrary: d args)
  case Nil
  then show ?case by simp
next
  case (Cons arg argv)
  show ?case
  proof (cases "option_of arg")
    case None
    then have "\<not> py_startswith arg ''-''" by (simp add: option_of_None)
    with Cons None show ?thesis
      by (simp add: get_args_loop_step List.map_filter_simps del: get_args_loop.simps)
  next
    case (Some kv)
    then have "py_startswith arg ''-''" using option_of_None [of arg] by auto
    with Cons Some show ?thesis
      by (cases kv) (simp add: get_args_loop_step List.map_filter_simps map_add_def del: get_args_loop.simps
          split: option.split)
  qed
qed

subsection \<open>random_vec\<close>

lemma int2bin_10_spec:
  assumes "0 \<le> r" "r < 1024"
  shows "\<exists>s. int2bin r 10 = Inr s \<and> binstr s \<and> length s = 10 \<and> int (digits_value 2 s) = r"
  using int2bin_nonneg [of r 10] assms by simp

lemma draws_spec:
  assumes "\<And>k. 0 \<le> rand k \<and> rand k < 1024"
  shows "\<exists>vs. res_list (\<lambda>k. int2bin (rand k) 10) ks = Inr vs \<and> binstr (concat vs)
    \<and> length (concat vs) = 10 * length ks"
proof (induction ks)
  case Nil
  then show ?case by simp
next
  case (Cons k ks)
  then show ?case using int2bin_10_spec [of "rand k"] assms [of k] by auto
qed

lemma random_vec_plain:
  assumes "\<And>k. 0 \<le> rand k \<and> rand k < 1024"
  shows "\<exists>s. random_vec rand bits None = Inr s \<and> binstr s \<and> length s = bits"
proof -
  obtain vs where vs: "res_list (\<lambda>k. int2bin (rand k) 10) [0..<bits div 10 + 1] = Inr vs"
      "binstr (concat vs)" "length (concat vs) = 10 * length [0..<bits div 10 + 1]"
    using draws_spec [where rand = rand and ks = "[0..<bits div 10 + 1]"] assms by blast
  have "bits \<le> length (concat vs)" using vs(3) by simp
  moreover have "binstr (take bits (concat vs))"
    using vs(2) set_take_subset by (fastforce simp: binstr_def)
  ultimately show ?thesis using vs(1) by (simp add: random_vec_def del: upt_Suc)
qed

subsection \<open>The properties\<close>

lemma py_int_2_binstr:
  assumes "binstr s" and "s \<noteq> []"
  shows "py_int 2 s = Inr (int (digits_value 2 s))"
proof -
  have ok: "c = CHR ''0'' \<or> c = CHR ''1''" if "c \<in> set s" for c using assms(1) that by (auto simp: binstr_def)
  have "hd s \<in> set s" "last s \<in> set s" using assms(2) by auto
  then have hl: "\<not> py_space (hd s)" "\<not> py_space (last s)"
    using ok by (auto simp: py_space_def dest!: ok)
  have strip: "py_strip s = s" by (rule py_strip_clean) (use hl in simp)
  have sign: "\<not> py_startswith s ''-''" "\<not> py_startswith s ''+''"
    using ok [of "CHR ''-''"] ok [of "CHR ''+''"] by (auto simp: py_startswith_iff)
  have prefix: "base_prefix 2 s = s"
    using ok [of "CHR ''b''"] ok [of "CHR ''B''"] by (auto simp: base_prefix_def py_startswith_iff)
  have "list_all (base_digit 2) s" by (auto simp: list_all_iff base_digit_def dest!: ok)
  with strip sign prefix assms(2) show ?thesis by (simp add: py_int_def)
qed




text \<open>
  \<open>binary_range(bits)\<close> terminates for every positive width and returns, in order, exactly the
  strings \<open>int2bin(0, bits)\<close>, ..., \<open>int2bin(2**bits - 1, bits)\<close>.
\<close>

theorem binary_range_enumerates:
  assumes "0 < bits"
  shows "\<exists>l. binary_range bits = Some l \<and> length l = 2 ^ bits
    \<and> res_list (\<lambda>k. int2bin (int k) (int bits)) [0..<2 ^ bits] = Inr l"
proof -
  obtain l where l: "binary_range bits = Some l"
      "res_list (\<lambda>k. int2bin (int k) (int bits)) [0..<2 ^ bits] = Inr l"
    using binary_range_spec [OF assms] by blast
  then have "length l = 2 ^ bits" by (auto simp: res_list_Inr_iff dest: list_all2_lengthD)
  with l show ?thesis by blast
qed

theorem binary_range_enumerates_witness:
  "(0::nat) < 2 \<and> (\<exists>l. binary_range 2 = Some l \<and> length l = 4)"
  using binary_range_enumerates [of 2] by auto

text \<open>
  \<open>is_rotated\<close> decides rotation: on two sequences of the same positive length it returns
  whether some rotation of the first is the second, on sequences of different length it
  returns false, and on two empty sequences it raises \<open>IndexError\<close> (it reads \<open>seq2[0]\<close>).
\<close>

theorem is_rotated_decides:
  "is_rotated seq1 seq2 =
     (if length seq1 \<noteq> length seq2 then Inr False
      else if seq2 = [] then Inl IndexError
      else Inr (\<exists>n. rotate n seq1 = seq2))"
proof (cases "length seq1 = length seq2 \<and> seq2 \<noteq> []")
  case True
  then show ?thesis using is_rotated_iff [of seq1 seq2] by simp
next
  case False
  then show ?thesis by (auto simp: is_rotated_def)
qed

text \<open>
  \<open>permutations\<close> returns exactly the rearrangements of its argument (with the multiplicities of
  equal items), \<open>n!\<close> of them in all.
\<close>

theorem permutations_exact:
  "set (permutations xs) = {ys. mset ys = mset xs} \<and> length (permutations xs) = fact (length xs)"
  by (simp add: set_permutations length_permutations)

text \<open>
  The Gray codes of successive non-negative integers differ in exactly one bit (their
  exclusive or is a power of two), and encoding loses nothing: the code determines the integer.
\<close>

theorem gray_encode_one_bit:
  "(\<exists>k. gray_encode (int n) XOR gray_encode (int n + 1) = 2 ^ k)
   \<and> (gray_encode (int m) = gray_encode (int n) \<longleftrightarrow> m = n)"
proof -
  have "m = n" if eq: "gray_encode (int m) = gray_encode (int n)"
  proof -
    have step: "(bit (int m) k \<noteq> bit (int m) (Suc k)) \<longleftrightarrow> (bit (int n) k \<noteq> bit (int n) (Suc k))" for k
      by (metis bit_gray eq)
    define b where "b = max m n"
    have top: "\<not> bit (int m) k \<and> \<not> bit (int n) k" if "b \<le> k" for k
    proof -
      have "m < 2 ^ k" "n < 2 ^ k"
        using that by (auto simp: b_def intro: le_less_trans less_exp)
      then show ?thesis by (simp add: bit_of_nat_iff_bit bit_iff_odd)
    qed
    have "bit (int m) (b - j) = bit (int n) (b - j)" for j
    proof (induction j)
      case 0
      then show ?case using top by simp
    next
      case (Suc j)
      then show ?case using step [of "b - Suc j"] by (cases "Suc j \<le> b") (auto simp: Suc_diff_Suc)
    qed
    then have "bit (int m) k = bit (int n) k" for k
      using top [of k] by (cases "b \<le> k") (metis, metis diff_diff_cancel nat_le_linear)
    then show "m = n" by (metis bit_eqI of_nat_eq_iff)
  qed
  with gray_step [of n] show ?thesis by blast
qed

text \<open>
  \<open>gcf\<close>, \<open>lcm\<close> and \<open>reduce_fraction\<close> on integers: \<open>gcf\<close> terminates with the greatest common
  divisor, \<open>lcm\<close> is the least common multiple up to the sign of the product, and
  \<open>reduce_fraction\<close> raises \<open>ZeroDivisionError\<close> exactly on (0, 0) and otherwise returns the
  equal fraction in lowest terms.
\<close>

theorem gcf_lcm_fraction:
  "gcf a b = gcd a b \<and> \<bar>lcm_py a b\<bar> = lcm a b
   \<and> (case reduce_fraction (a, b) of
        Inl e \<Rightarrow> e = ZeroDivisionError \<and> a = 0 \<and> b = 0
      | Inr (p, q) \<Rightarrow> coprime p q \<and> a = p * gcd a b \<and> b = q * gcd a b)"
  using gcf_gcd [of a b] lcm_py_sign [of a b] reduce_fraction_spec [of a b]
  by (cases "a = 0 \<and> b = 0") auto

text \<open>
  \<open>find_common_fixes\<close> returns the longest common prefix and the longest common suffix of its
  two strings.
\<close>

theorem find_common_fixes_longest:
  "case find_common_fixes s1 s2 of (p, s) \<Rightarrow>
     (\<exists>a b. s1 = p @ a \<and> s2 = p @ b) \<and> (\<nexists>q a b. s1 = q @ a \<and> s2 = q @ b \<and> length p < length q)
   \<and> (\<exists>a b. s1 = a @ s \<and> s2 = b @ s) \<and> (\<nexists>q a b. s1 = a @ q \<and> s2 = b @ q \<and> length s < length q)"
proof -
  let ?n = "min (length s1) (length s2)"
  have "\<exists>k. common_prefix_loop s1 s2 ?n 0 [] = take k s1 \<and> 0 \<le> k \<and> k \<le> ?n \<and> take k s1 = take k s2
     \<and> (k < ?n \<longrightarrow> s1 ! k \<noteq> s2 ! k)"
    by (rule common_prefix_loop_spec) simp_all
  then obtain k where k: "common_prefix_loop s1 s2 ?n 0 [] = take k s1" "k \<le> ?n" "take k s1 = take k s2"
      "k < ?n \<longrightarrow> s1 ! k \<noteq> s2 ! k"
    by blast
  let ?m = "min (length (rev s1)) (length (rev s2))"
  have "\<exists>j. common_prefix_loop (rev s1) (rev s2) ?m 0 [] = take j (rev s1) \<and> 0 \<le> j \<and> j \<le> ?m
      \<and> take j (rev s1) = take j (rev s2) \<and> (j < ?m \<longrightarrow> rev s1 ! j \<noteq> rev s2 ! j)"
    by (rule common_prefix_loop_spec) simp_all
  then obtain j where j: "common_prefix_loop (rev s1) (rev s2) ?m 0 [] = take j (rev s1)" "j \<le> ?m"
      "take j (rev s1) = take j (rev s2)" "j < ?m \<longrightarrow> rev s1 ! j \<noteq> rev s2 ! j"
    by blast
  define p where "p = take k s1"
  define s where "s = rev (take j (rev s1))"
  have "find_common_fixes s1 s2 = (p, s)"
    using k(1) j(1) common_suffix_loop_prefix [of 1 ?n s1 s2 "[]"]
    by (simp add: find_common_fixes_def p_def s_def Let_def)
  moreover have "\<exists>a b. s1 = p @ a \<and> s2 = p @ b"
    using k(3) unfolding p_def by (metis append_take_drop_id)
  moreover have "\<exists>a b. s1 = a @ s \<and> s2 = b @ s"
    using j(3) unfolding s_def by (metis append_take_drop_id rev_append rev_rev_ident)
  moreover have "\<nexists>q a b. s1 = q @ a \<and> s2 = q @ b \<and> length p < length q"
    using longest_common [OF k(3,2,4)] k(2) by (auto simp: p_def not_less [symmetric])
  moreover have "\<nexists>q a b. s1 = a @ q \<and> s2 = b @ q \<and> length s < length q"
    using longest_common [OF j(3,2,4), of "rev q" "rev a" "rev b" for q a b] j(2)
    by (auto simp: s_def not_less [symmetric])
  ultimately show ?thesis by simp
qed

text \<open>
  \<open>random_vec\<close> with a maximum, for a width below 10 (one draw \<open>r\<close> of 10 bits): the draw is
  divided by \<open>2**bits - 1\<close> with integer division before it is multiplied by the maximum, so the
  result is one of a handful of multiples of \<open>max_value\<close>, may exceed \<open>max_value\<close>, and raises
  \<open>ValueError\<close> as soon as the multiple does not fit the width.
\<close>

theorem random_vec_max_value:
  assumes "0 < bits" "bits < 10" "0 < m" "m < 2 ^ bits - 1" and r: "0 \<le> r" "r < 1024"
  shows "random_vec (\<lambda>_. r) bits (Some m) =
    (if r div (2 ^ bits - 1) * m < 2 ^ bits then int2bin (r div (2 ^ bits - 1) * m) (int bits)
     else Inl ValueError)"
proof -
  obtain v where v: "int2bin r 10 = Inr v" "binstr v" "length v = 10" "int (digits_value 2 v) = r"
    using int2bin_10_spec [OF r] by blast
  then have "v \<noteq> []" by auto
  then have pv: "py_int 2 v = Inr r" using py_int_2_binstr [OF v(2)] v(4) by simp
  have pos: "(2::int) ^ bits - 1 \<noteq> 0" using assms(3,4) by linarith
  have one: "[0..<bits div 10 + 1] = [0]" using assms(2) by simp
  let ?x = "r div (2 ^ bits - 1) * m"
  have x: "0 \<le> ?x" using assms by (simp add: pos_imp_zdiv_nonneg_iff)
  have "random_vec (\<lambda>_. r) bits (Some m) =
      res_bind (int2bin ?x (int bits)) (\<lambda>w. Inr (take bits w))"
    unfolding random_vec_def one using v pv pos assms(3,4) by simp
  moreover have "res_bind (int2bin ?x (int bits)) (\<lambda>w. Inr (take bits w))
      = (if ?x < 2 ^ bits then int2bin ?x (int bits) else Inl ValueError)"
    using int2bin_nonneg [OF x assms(1)] by auto
  ultimately show ?thesis by simp
qed

theorem random_vec_max_value_witness:
  "random_vec (\<lambda>_. 1023) 8 (Some 200) = Inl ValueError"
  using random_vec_max_value [of 8 200 1023] by simp

end
