(* ===== verification/Topsort.thy ===== *)
theory Topsort
  imports Rad_Util
begin

text \<open>
  \<open>src/bindings/python/topsort.py\<close>: dependency sorting and cycle finding. The order in which a
  dictionary's keys are visited is the parameter \<open>key_order\<close> (the script is Python 2, where
  the language leaves it open); the theorems assume only that it visits every key once.

  \<^item> \<open>topsort\<close>: the work list \<open>answer\<close> that grows while it is iterated is split into the
    part already visited and the part still to come.
  \<^item> \<open>topsort_levels\<close> and \<open>topsort_levels_core\<close>: the generator is the list of levels it
    yields, paired with the exception that ends it, if any.
  \<^item> \<open>find_cycles\<close>: the stack of paths is kept top first. Its loop has no structural bound,
    so it is an option-valued function, and the theorems prove that it returns.
\<close>

subsection \<open>State and errors\<close>

type_synonym 'a counts = "('a, int) dict"
type_synonym 'a succs = "('a, 'a list) dict"

datatype 'a topsort_error =
    Raised py_error
  | CycleError "'a list" "'a counts" "'a succs"
  | LevelCycleError "'a counts" "'a succs"

subsection \<open>Reading the pairs\<close>

definition add_pair :: "'a counts \<times> 'a succs \<Rightarrow> 'a \<times> 'a \<Rightarrow> 'a counts \<times> 'a succs" where
  "add_pair st pair =
     (case st of (num_parents, children) \<Rightarrow> case pair of (parent, child) \<Rightarrow>
        let np1 = (if \<not> dict_has num_parents parent then dict_set parent 0 num_parents else num_parents);
            np2 = (if \<not> dict_has np1 child then dict_set child 0 np1 else np1);
            np3 = (case map_of np2 child of None \<Rightarrow> np2 | Some n \<Rightarrow> dict_set child (n + 1) np2);
            cs = (case map_of children parent of None \<Rightarrow> [] | Some cs \<Rightarrow> cs)
        in (np3, dict_set parent (cs @ [child]) children))"

definition read_pairs :: "('a \<times> 'a) list \<Rightarrow> 'a counts \<times> 'a succs" where
  "read_pairs pairlist = foldl add_pair ([], []) pairlist"

definition parentless :: "('a list \<Rightarrow> 'a list) \<Rightarrow> 'a counts \<Rightarrow> 'a list" where
  "parentless key_order num_parents =
     filter (\<lambda>x. map_of num_parents x = Some 0) (key_order (dict_keys num_parents))"

subsection \<open>topsort\<close>

definition dec_child :: "'a counts \<times> 'a list \<Rightarrow> 'a \<Rightarrow> ('a counts \<times> 'a list) result" where
  "dec_child st child =
     (case st of (num_parents, new) \<Rightarrow>
        (case map_of num_parents child of
           None \<Rightarrow> Inl KeyError
         | Some n \<Rightarrow> Inr (dict_set child (n - 1) num_parents, if n - 1 = 0 then new @ [child] else new)))"

lemma length_dict_set_existing: "dict_has d k \<Longrightarrow> length (dict_set k v d) = length d"
  by (metis dict_keys_def dict_keys_set length_map)

lemma length_dict_del: "dict_has d k \<Longrightarrow> length (dict_del k d) < length d"
proof -
  assume "dict_has d k"
  then have "length (filter (\<lambda>x. x \<noteq> k) (dict_keys d)) < length (dict_keys d)"
    by (intro length_filter_less [of k]) (auto simp: dict_has_def)
  then show ?thesis by (simp only: dict_keys_del [symmetric]) (simp only: dict_keys_def length_map)
qed

lemma dec_child_length: "dec_child (np, new) c = Inr (np', new') \<Longrightarrow> length np' = length np"
  by (auto simp: dec_child_def dict_has_iff length_dict_set_existing split: option.splits)

lemma dec_children_length: "res_fold dec_child (np, new) cs = Inr (np', new') \<Longrightarrow> length np' = length np"
  using res_fold_invariant [of "\<lambda>(np', _). length np' = length np" "(np, new)" cs dec_child "(np', new')"]
  by (auto simp: dec_child_length)

function topsort_loop ::
  "'a list \<Rightarrow> 'a list \<Rightarrow> 'a counts \<Rightarrow> 'a succs \<Rightarrow> 'a topsort_error + 'a list" where
  "topsort_loop seen [] num_parents children =
     (if num_parents \<noteq> [] then Inl (CycleError seen num_parents children) else Inr seen)"
| "topsort_loop seen (parent # todo) num_parents children =
     (if \<not> dict_has num_parents parent then Inl (Raised KeyError)
      else
        let np1 = dict_del parent num_parents in
        (case map_of children parent of
           None \<Rightarrow> topsort_loop (seen @ [parent]) todo np1 children
         | Some cs \<Rightarrow>
             (case res_fold dec_child (np1, []) cs of
                Inl e \<Rightarrow> Inl (Raised e)
              | Inr (np2, new) \<Rightarrow>
                  topsort_loop (seen @ [parent]) (todo @ new) np2 (dict_del parent children))))"
  by pat_completeness auto
termination
  by (relation "measure (\<lambda>(_, _, np, _). length np)")
    (auto simp: length_dict_del dest!: dec_children_length)

definition topsort :: "('a list \<Rightarrow> 'a list) \<Rightarrow> ('a \<times> 'a) list \<Rightarrow> 'a topsort_error + 'a list" where
  "topsort key_order pairlist =
     (case read_pairs pairlist of (num_parents, children) \<Rightarrow>
        topsort_loop [] (parentless key_order num_parents) num_parents children)"

subsection \<open>topsort_levels\<close>

definition dec_parent_count :: "'a counts \<Rightarrow> 'a \<Rightarrow> 'a counts result" where
  "dec_parent_count num_parents child =
     (case map_of num_parents child of
        None \<Rightarrow> Inl KeyError
      | Some n \<Rightarrow> Inr (dict_set child (n - 1) num_parents))"

definition take_level_parent :: "'a counts \<times> 'a succs \<Rightarrow> 'a \<Rightarrow> ('a counts \<times> 'a succs) result" where
  "take_level_parent st level_parent =
     (case st of (num_parents, children) \<Rightarrow>
        if \<not> dict_has num_parents level_parent then Inl KeyError
        else
          let np1 = dict_del level_parent num_parents in
          (case map_of children level_parent of
             None \<Rightarrow> Inr (np1, children)
           | Some cs \<Rightarrow>
               (case res_fold dec_parent_count np1 cs of
                  Inl e \<Rightarrow> Inl e
                | Inr np2 \<Rightarrow> Inr (np2, dict_del level_parent children))))"

lemma dec_parent_counts_length: "res_fold dec_parent_count np cs = Inr np' \<Longrightarrow> length np' = length np"
proof (induction cs arbitrary: np)
  case (Cons c cs)
  then show ?case
    by (auto simp: dec_parent_count_def dict_has_iff length_dict_set_existing split: option.splits sum.splits)
qed simp

lemma take_level_parent_length:
  "take_level_parent (np, ch) p = Inr (np', ch') \<Longrightarrow> length np' < length np"
  using length_dict_del [of np p] dec_parent_counts_length [of "dict_del p np" _ np']
  by (auto simp: take_level_parent_def Let_def split: if_splits option.splits sum.splits)

lemma take_level_length:
  assumes "res_fold take_level_parent (np, ch) ps = Inr (np', ch')" and "ps \<noteq> []"
  shows "length np' < length np"
proof -
  obtain p ps' where ps: "ps = p # ps'" using assms(2) by (cases ps) auto
  then obtain np1 ch1 where s1: "take_level_parent (np, ch) p = Inr (np1, ch1)"
      "res_fold take_level_parent (np1, ch1) ps' = Inr (np', ch')"
    using assms(1) by (auto split: sum.splits)
  have "length np' \<le> length np1"
    using res_fold_invariant [of "\<lambda>(m, _). length m \<le> length np1" "(np1, ch1)" ps' take_level_parent] s1(2)
    by (fastforce dest: take_level_parent_length)
  with take_level_parent_length [OF s1(1)] show ?thesis by simp
qed

function topsort_levels_core ::
  "('a list \<Rightarrow> 'a list) \<Rightarrow> 'a counts \<Rightarrow> 'a succs \<Rightarrow> 'a list list \<times> 'a topsort_error option" where
  "topsort_levels_core key_order num_parents children =
     (let level_parents = parentless key_order num_parents in
      if level_parents = [] then
        ([], if num_parents \<noteq> [] then Some (LevelCycleError num_parents children) else None)
      else
        (case res_fold take_level_parent (num_parents, children) level_parents of
           Inl e \<Rightarrow> ([level_parents], Some (Raised e))
         | Inr (np, ch) \<Rightarrow>
             (case topsort_levels_core key_order np ch of
                (levels, err) \<Rightarrow> (level_parents # levels, err))))"
  by pat_completeness auto
termination
  by (relation "measure (\<lambda>(_, np, _). length np)") (auto dest: take_level_length)

declare topsort_levels_core.simps [simp del]

definition topsort_levels ::
  "('a list \<Rightarrow> 'a list) \<Rightarrow> ('a \<times> 'a) list \<Rightarrow> 'a list list \<times> 'a topsort_error option" where
  "topsort_levels key_order pairlist =
     (case read_pairs pairlist of (num_parents, children) \<Rightarrow>
        topsort_levels_core key_order num_parents children)"

subsection \<open>find_cycles\<close>

fun dup_cycle :: "'a list list \<Rightarrow> 'a list \<Rightarrow> bool result" where
  "dup_cycle [] cycle = Inr False"
| "dup_cycle (other_cycle # cycles) cycle =
     (case is_rotated other_cycle cycle of
        Inl e \<Rightarrow> Inl e
      | Inr True \<Rightarrow> Inr True
      | Inr False \<Rightarrow> dup_cycle cycles cycle)"

record 'a fc_state =
  cycles :: "'a list list"
  visited_nodes :: "'a set"
  paths :: "'a list list"

definition visit_child :: "'a list \<Rightarrow> 'a fc_state \<Rightarrow> 'a \<Rightarrow> 'a fc_state result" where
  "visit_child path st child =
     (if child \<in> set path then
        (let cycle = dropWhile (\<lambda>x. x \<noteq> child) path in
         case dup_cycle (cycles st) cycle of
           Inl e \<Rightarrow> Inl e
         | Inr is_dup \<Rightarrow> Inr (if is_dup then st else st\<lparr>cycles := cycles st @ [cycle]\<rparr>))
      else Inr (st\<lparr>paths := (path @ [child]) # paths st,
                   visited_nodes := insert child (visited_nodes st)\<rparr>))"

partial_function (option) cycle_loop :: "'a succs \<Rightarrow> 'a fc_state \<Rightarrow> 'a fc_state result option" where
  "cycle_loop parent_children st =
     (case paths st of
        [] \<Rightarrow> Some (Inr st)
      | path # rest \<Rightarrow>
          (case map_of parent_children (last path) of
             None \<Rightarrow> cycle_loop parent_children (st\<lparr>paths := rest\<rparr>)
           | Some children \<Rightarrow>
               (case res_fold (visit_child path) (st\<lparr>paths := rest\<rparr>) children of
                  Inl e \<Rightarrow> Some (Inl e)
                | Inr st' \<Rightarrow> cycle_loop parent_children st')))"

fun root_loop :: "'a succs \<Rightarrow> 'a list \<Rightarrow> 'a fc_state \<Rightarrow> 'a fc_state result option" where
  "root_loop parent_children [] st = Some (Inr st)"
| "root_loop parent_children (parent # parents) st =
     (if parent \<in> visited_nodes st then root_loop parent_children parents st
      else
        (case cycle_loop parent_children (st\<lparr>paths := [[parent]]\<rparr>) of
           None \<Rightarrow> None
         | Some (Inl e) \<Rightarrow> Some (Inl e)
         | Some (Inr st') \<Rightarrow> root_loop parent_children parents st'))"

definition find_cycles :: "('a list \<Rightarrow> 'a list) \<Rightarrow> 'a succs \<Rightarrow> 'a list list result option" where
  "find_cycles key_order parent_children =
     map_option (\<lambda>r. res_bind r (\<lambda>st. Inr (cycles st)))
       (root_loop parent_children (key_order (dict_keys parent_children))
          \<lparr>cycles = [], visited_nodes = {}, paths = []\<rparr>)"

subsection \<open>The graph of a pair list\<close>

definition elements :: "('a \<times> 'a) list \<Rightarrow> 'a set" where
  "elements pairs = Field (set pairs)"

definition open_parents :: "('a \<times> 'a) list \<Rightarrow> 'a set \<Rightarrow> 'a \<Rightarrow> nat" where
  "open_parents pairs S x = length (filter (\<lambda>(p, c). c = x \<and> p \<notin> S) pairs)"

definition kids :: "('a \<times> 'a) list \<Rightarrow> 'a \<Rightarrow> 'a list" where
  "kids pairs p = map snd (filter (\<lambda>(q, c). q = p) pairs)"

definition parents_first :: "('a \<times> 'a) list \<Rightarrow> 'a list \<Rightarrow> bool" where
  "parents_first pairs xs \<longleftrightarrow>
     (\<forall>i < length xs. \<forall>p. (p, xs ! i) \<in> set pairs \<longrightarrow> p \<in> set (take i xs))"

definition counts_inv :: "('a \<times> 'a) list \<Rightarrow> 'a set \<Rightarrow> 'a counts \<Rightarrow> 'a succs \<Rightarrow> bool" where
  "counts_inv pairs S np ch \<longleftrightarrow>
     dict_ok np
   \<and> map_of np = (\<lambda>x. if x \<in> elements pairs - S then Some (int (open_parents pairs S x)) else None)
   \<and> (\<forall>p. p \<notin> S \<longrightarrow> map_of ch p = (if kids pairs p = [] then None else Some (kids pairs p)))"

lemma finite_elements [simp]: "finite (elements pairs)"
  by (simp add: elements_def finite_Field)

lemma elementsI: "(p, c) \<in> set pairs \<Longrightarrow> p \<in> elements pairs" "(p, c) \<in> set pairs \<Longrightarrow> c \<in> elements pairs"
  by (auto simp: elements_def intro: FieldI1 FieldI2)

lemma set_kids: "c \<in> set (kids pairs p) \<longleftrightarrow> (p, c) \<in> set pairs"
  by (force simp: kids_def)

lemma open_parents_zero: "open_parents pairs S x = 0 \<longleftrightarrow> (\<forall>p. (p, x) \<in> set pairs \<longrightarrow> p \<in> S)"
  by (auto simp: open_parents_def filter_empty_conv)

lemma open_parents_insert:
  "p \<notin> S \<Longrightarrow> open_parents pairs S x = open_parents pairs (insert p S) x + count_list (kids pairs p) x"
  by (induction pairs) (auto simp: open_parents_def kids_def)

lemma read_pairs_snoc: "read_pairs (pairs @ [pr]) = add_pair (read_pairs pairs) pr"
  by (simp add: read_pairs_def)

lemma elements_snoc: "elements (pairs @ [(p, c)]) = insert p (insert c (elements pairs))"
  by (auto simp: elements_def)

lemma open_parents_snoc:
  "open_parents (pairs @ [(p, c)]) {} x = open_parents pairs {} x + (if x = c then 1 else 0)"
  by (auto simp: open_parents_def)

lemma open_parents_outside: "x \<notin> elements pairs \<Longrightarrow> open_parents pairs S x = 0"
  by (auto simp: open_parents_zero dest: elementsI)

lemma kids_snoc: "kids (pairs @ [(p, c)]) q = kids pairs q @ (if q = p then [c] else [])"
  by (auto simp: kids_def)

lemma read_pairs_inv: "counts_inv pairs {} (fst (read_pairs pairs)) (snd (read_pairs pairs))"
proof (induction pairs rule: rev_induct)
  case Nil
  then show ?case by (simp add: counts_inv_def read_pairs_def elements_def kids_def)
next
  case (snoc pr pairs)
  obtain p c where pr: "pr = (p, c)" by (cases pr)
  obtain np ch where st: "read_pairs pairs = (np, ch)" by (cases "read_pairs pairs")
  have inv: "dict_ok np" "map_of np = (\<lambda>x. if x \<in> elements pairs then Some (int (open_parents pairs {} x)) else None)"
      "\<And>q. map_of ch q = (if kids pairs q = [] then None else Some (kids pairs q))"
    using snoc st by (auto simp: counts_inv_def)
  define np1 where "np1 = (if \<not> dict_has np p then dict_set p 0 np else np)"
  define np2 where "np2 = (if \<not> dict_has np1 c then dict_set c 0 np1 else np1)"
  have m1: "map_of np1 = (\<lambda>x. if x \<in> insert p (elements pairs) then Some (int (open_parents pairs {} x)) else None)"
    unfolding np1_def using inv(2) by (auto simp: dict_has_iff open_parents_outside)
  have m2: "map_of np2 = (\<lambda>x. if x \<in> insert p (insert c (elements pairs)) then Some (int (open_parents pairs {} x)) else None)"
    unfolding np2_def using m1 by (auto simp: dict_has_iff open_parents_outside)
  have ok: "dict_ok np2" using inv(1) by (auto simp: np1_def np2_def)
  let ?cs = "case map_of ch p of None \<Rightarrow> [] | Some cs \<Rightarrow> cs"
  have cs: "?cs = kids pairs p" using inv(3) by simp
  have add: "add_pair (np, ch) (p, c)
      = (dict_set c (int (open_parents pairs {} c) + 1) np2, dict_set p (kids pairs p @ [c]) ch)"
    unfolding add_pair_def Let_def prod.case np1_def [symmetric] np2_def [symmetric] cs
    by (simp add: m2)
  show ?case
    using ok inv(3)
    by (auto simp: counts_inv_def pr read_pairs_snoc st add m2 elements_snoc open_parents_snoc kids_snoc)
qed

subsection \<open>Decrementing the children\<close>

lemma dec_children_spec:
  assumes "dict_ok np" "\<And>c. c \<in> set cs \<Longrightarrow> \<exists>n. map_of np c = Some n \<and> int (count_list cs c) \<le> n"
  shows "\<exists>np' news. res_fold dec_child (np, new) cs = Inr (np', new @ news) \<and> dict_ok np'
    \<and> map_of np' = (\<lambda>x. map_option (\<lambda>n. n - int (count_list cs x)) (map_of np x))
    \<and> distinct news \<and> set news = {c \<in> set cs. map_of np c = Some (int (count_list cs c))}"
  using assms
proof (induction cs arbitrary: np new)
  case Nil
  then show ?case by (simp add: option.map_ident)
next
  case (Cons c cs)
  obtain n where n: "map_of np c = Some n" "1 + int (count_list cs c) \<le> n" using Cons.prems(2) by fastforce
  define np1 where "np1 = dict_set c (n - 1) np"
  let ?h = "if n - 1 = 0 then [c] else []"
  have step: "dec_child (np, new) c = Inr (np1, new @ ?h)"
    using n by (simp add: dec_child_def np1_def)
  have ok1: "dict_ok np1" using Cons.prems(1) by (simp add: np1_def)
  have m1: "map_of np1 = (map_of np)(c \<mapsto> n - 1)" by (simp add: np1_def)
  have pre: "\<exists>k. map_of np1 d = Some k \<and> int (count_list cs d) \<le> k" if "d \<in> set cs" for d
    using Cons.prems(2) [of d] that n by (auto simp: m1)
  obtain np' news where IH: "res_fold dec_child (np1, new @ ?h) cs = Inr (np', (new @ ?h) @ news)" "dict_ok np'"
      "map_of np' = (\<lambda>x. map_option (\<lambda>n. n - int (count_list cs x)) (map_of np1 x))"
      "distinct news" "set news = {d \<in> set cs. map_of np1 d = Some (int (count_list cs d))}"
    using Cons.IH [OF ok1 pre] by blast
  have "map_of np' = (\<lambda>x. map_option (\<lambda>n. n - int (count_list (c # cs) x)) (map_of np x))"
    using IH(3) n by (auto simp: m1 fun_eq_iff option.map_comp comp_def)
  moreover have zero: "c \<notin> set cs" if "n - 1 = 0"
  proof -
    have "int (count_list cs c) \<le> 0" using n(2) that by linarith
    then show ?thesis by (simp add: count_list_0_iff)
  qed
  moreover have "distinct (?h @ news)" using IH(4,5) zero by (cases "n - 1 = 0") simp_all
  moreover have "d \<in> set (?h @ news) \<longleftrightarrow> d \<in> set (c # cs) \<and> map_of np d = Some (int (count_list (c # cs) d))"
    for d
    using zero n IH(5) by (cases "d = c"; cases "c \<in> set cs") (auto simp: m1)
  ultimately show ?case using step IH(1,2)
    by (intro exI [of _ np'] exI [of _ "?h @ news"]) (simp add: set_eq_iff)
qed

lemma dec_counts_spec:
  assumes "dict_ok np" "\<And>c. c \<in> set cs \<Longrightarrow> map_of np c \<noteq> None"
  shows "\<exists>np'. res_fold dec_parent_count np cs = Inr np' \<and> dict_ok np'
    \<and> map_of np' = (\<lambda>x. map_option (\<lambda>n. n - int (count_list cs x)) (map_of np x))"
  using assms
proof (induction cs arbitrary: np)
  case Nil
  then show ?case by (simp add: option.map_ident)
next
  case (Cons c cs)
  obtain n where n: "map_of np c = Some n" using Cons.prems(2) by fastforce
  let ?np1 = "dict_set c (n - 1) np"
  have "\<And>d. d \<in> set cs \<Longrightarrow> map_of ?np1 d \<noteq> None" using Cons.prems(2) by auto
  then obtain np' where IH: "res_fold dec_parent_count ?np1 cs = Inr np'" "dict_ok np'"
      "map_of np' = (\<lambda>x. map_option (\<lambda>n. n - int (count_list cs x)) (map_of ?np1 x))"
    using Cons.IH [of ?np1] Cons.prems(1) by auto
  have "dec_parent_count np c = Inr ?np1" using n by (simp add: dec_parent_count_def)
  moreover have "map_of np' = (\<lambda>x. map_option (\<lambda>n. n - int (count_list (c # cs) x)) (map_of np x))"
    using IH(3) n by (auto simp: fun_eq_iff)
  ultimately show ?case using IH(1,2) by simp
qed

text \<open>Taking a parentless element out: the counts of the next state.\<close>

lemma counts_inv_remove:
  assumes inv: "counts_inv pairs S np ch" and p: "p \<in> elements pairs - S" "open_parents pairs S p = 0"
    and closed: "\<forall>q c. (q, c) \<in> set pairs \<longrightarrow> c \<in> S \<longrightarrow> q \<in> S"
  shows "dict_has np p" "dict_ok (dict_del p np)"
    "\<And>c. c \<in> set (kids pairs p) \<Longrightarrow>
       map_of (dict_del p np) c = Some (int (open_parents pairs (insert p S) c + count_list (kids pairs p) c))"
    "\<And>np'. dict_ok np' \<Longrightarrow>
       map_of np' = (\<lambda>x. map_option (\<lambda>n. n - int (count_list (kids pairs p) x)) (map_of (dict_del p np) x)) \<Longrightarrow>
       counts_inv pairs (insert p S) np' (dict_del p ch) \<and> counts_inv pairs (insert p S) np' ch"
proof -
  have np: "map_of np = (\<lambda>x. if x \<in> elements pairs - S then Some (int (open_parents pairs S x)) else None)"
      "dict_ok np"
    using inv by (auto simp: counts_inv_def)
  show "dict_has np p" using p np by (simp add: dict_has_iff)
  show "dict_ok (dict_del p np)" using np(2) by simp
  have ins: "open_parents pairs S x = open_parents pairs (insert p S) x + count_list (kids pairs p) x" for x
    using p(1) by (intro open_parents_insert) auto
  have m1: "map_of (dict_del p np) = (\<lambda>x. if x \<in> elements pairs - insert p S
      then Some (int (open_parents pairs (insert p S) x + count_list (kids pairs p) x)) else None)"
    using np(1) ins by (auto simp: fun_eq_iff)
  show "map_of (dict_del p np) c = Some (int (open_parents pairs (insert p S) c + count_list (kids pairs p) c))"
    if "c \<in> set (kids pairs p)" for c
  proof -
    have e: "(p, c) \<in> set pairs" using that by (simp add: set_kids)
    then have "c \<notin> S" "c \<noteq> p" using p closed by (auto simp: open_parents_zero)
    with m1 elementsI(2) [OF e] show ?thesis by simp
  qed
  show "counts_inv pairs (insert p S) np' (dict_del p ch) \<and> counts_inv pairs (insert p S) np' ch"
    if "dict_ok np'"
      "map_of np' = (\<lambda>x. map_option (\<lambda>n. n - int (count_list (kids pairs p) x)) (map_of (dict_del p np) x))"
    for np'
    using inv that m1 by (auto simp: counts_inv_def fun_eq_iff)
qed


subsection \<open>The loop of topsort\<close>

definition ts_inv :: "('a \<times> 'a) list \<Rightarrow> 'a list \<Rightarrow> 'a list \<Rightarrow> 'a counts \<Rightarrow> 'a succs \<Rightarrow> bool" where
  "ts_inv pairs seen todo np ch \<longleftrightarrow>
     distinct (seen @ todo) \<and> counts_inv pairs (set seen) np ch
   \<and> set seen \<subseteq> elements pairs \<and> parents_first pairs seen
   \<and> set todo = {x \<in> elements pairs - set seen. open_parents pairs (set seen) x = 0}"

lemma parents_first_closed:
  assumes "parents_first pairs xs" "(q, c) \<in> set pairs" "c \<in> set xs"
  shows "q \<in> set xs"
proof -
  obtain i where "i < length xs" "xs ! i = c" using assms(3) by (auto simp: in_set_conv_nth)
  with assms(1,2) have "q \<in> set (take i xs)" by (auto simp: parents_first_def)
  then show ?thesis by (rule in_set_takeD)
qed

lemma parents_first_snoc:
  "parents_first pairs (xs @ [x]) \<longleftrightarrow> parents_first pairs xs \<and> (\<forall>p. (p, x) \<in> set pairs \<longrightarrow> p \<in> set xs)"
  by (fastforce simp: parents_first_def less_Suc_eq nth_append)

lemma free_after_remove:
  assumes "p \<in> elements pairs - S" "open_parents pairs S p = 0" "\<forall>q c. (q, c) \<in> set pairs \<longrightarrow> c \<in> S \<longrightarrow> q \<in> S"
    and T: "insert p T = {x \<in> elements pairs - S. open_parents pairs S x = 0}" "p \<notin> T"
  shows "T \<inter> set (kids pairs p) = {}"
    and "{x \<in> elements pairs - insert p S. open_parents pairs (insert p S) x = 0} =
      T \<union> {c \<in> set (kids pairs p). open_parents pairs (insert p S) c = 0}" (is "?L = ?R")
proof -
  have ins: "open_parents pairs S x = open_parents pairs (insert p S) x + count_list (kids pairs p) x" for x
    using assms(1) by (intro open_parents_insert) auto
  have T_iff: "x \<in> T \<longleftrightarrow> x \<in> elements pairs - insert p S \<and> open_parents pairs S x = 0" for x
    using T by blast
  show "T \<inter> set (kids pairs p) = {}" using ins T_iff by (auto simp: count_list_0_iff)
  have kid: "x \<in> elements pairs - insert p S" if "x \<in> set (kids pairs p)" for x
  proof -
    have e: "(p, x) \<in> set pairs" using that by (simp add: set_kids)
    then show ?thesis using assms(1-3) elementsI(2) [OF e] by (auto simp: open_parents_zero)
  qed
  show "?L = ?R"
  proof (intro set_eqI)
    fix x
    show "x \<in> ?L \<longleftrightarrow> x \<in> ?R"
      using ins [of x] T_iff [of x] kid [of x] by (cases "x \<in> set (kids pairs p)") (auto simp: count_list_0_iff)
  qed
qed

text \<open>What the invariant says when \<open>p\<close> is taken from the work list.\<close>

lemma ts_inv_pop:
  assumes "ts_inv pairs seen (p # todo) np ch"
  shows "p \<in> elements pairs - set seen" "open_parents pairs (set seen) p = 0"
    "\<forall>q c. (q, c) \<in> set pairs \<longrightarrow> c \<in> set seen \<longrightarrow> q \<in> set seen"
    "map_of ch p = (if kids pairs p = [] then None else Some (kids pairs p))"
    "counts_inv pairs (set seen) np ch" "distinct (seen @ p # todo)"
    "insert p (set todo) = {x \<in> elements pairs - set seen. open_parents pairs (set seen) x = 0}"
  using assms parents_first_closed [of pairs seen] by (auto simp: ts_inv_def counts_inv_def)

lemma ts_inv_push:
  assumes "ts_inv pairs seen (p # todo) np ch" "counts_inv pairs (insert p (set seen)) np' ch'"
    and "distinct new" "set new = {c \<in> set (kids pairs p). open_parents pairs (insert p (set seen)) c = 0}"
  shows "ts_inv pairs (seen @ [p]) (todo @ new) np' ch'"
proof -
  note pop = ts_inv_pop [OF assms(1)]
  note free = free_after_remove [OF pop(1-3,7)]
  have "p \<notin> set todo" using pop(6) by simp
  moreover have "parents_first pairs (seen @ [p])"
    using assms(1) pop(2) by (simp add: ts_inv_def parents_first_snoc open_parents_zero)
  moreover have "distinct ((seen @ [p]) @ todo @ new)"
    using pop(6) assms(3,4) free \<open>p \<notin> set todo\<close> by auto
  ultimately show ?thesis using assms free pop(1) by (auto simp: ts_inv_def)
qed

lemma ts_inv_step:
  assumes "ts_inv pairs seen (p # todo) np ch"
  shows "dict_has np p"
    "map_of ch p = None \<Longrightarrow> ts_inv pairs (seen @ [p]) todo (dict_del p np) ch"
    "map_of ch p = Some cs \<Longrightarrow> \<exists>np' new. res_fold dec_child (dict_del p np, []) cs = Inr (np', new)
       \<and> ts_inv pairs (seen @ [p]) (todo @ new) np' (dict_del p ch)"
proof -
  let ?S = "insert p (set seen)" and ?np = "dict_del p np"
  note pop = ts_inv_pop [OF assms]
  note removed = counts_inv_remove [OF pop(5,1-3)]
  show "dict_has np p" by (rule removed(1))
  show "ts_inv pairs (seen @ [p]) todo ?np ch" if "map_of ch p = None"
  proof -
    have k: "kids pairs p = []" using that pop(4) by (auto split: if_splits)
    have "counts_inv pairs ?S ?np ch" using removed(4) [OF removed(2)] k by (simp add: option.map_ident fun_upd_def)
    from ts_inv_push [OF assms this, of "[]"] show ?thesis using k by simp
  qed
  show "\<exists>np' new. res_fold dec_child (?np, []) cs = Inr (np', new)
       \<and> ts_inv pairs (seen @ [p]) (todo @ new) np' (dict_del p ch)" if "map_of ch p = Some cs"
  proof -
    have cs: "cs = kids pairs p" using that pop(4) by (auto split: if_splits)
    obtain np' new where r: "res_fold dec_child (?np, []) cs = Inr (np', new)" "dict_ok np'"
        "map_of np' = (\<lambda>x. map_option (\<lambda>n. n - int (count_list cs x)) (map_of ?np x))"
        "distinct new" "set new = {c \<in> set cs. map_of ?np c = Some (int (count_list cs c))}"
      using dec_children_spec [OF removed(2), of cs "[]"] removed(3) cs by fastforce
    have "set new = {c \<in> set (kids pairs p). open_parents pairs ?S c = 0}"
      unfolding r(5) cs by (intro Collect_cong conj_cong refl) (simp only: removed(3), simp)
    moreover have "counts_inv pairs ?S np' (dict_del p ch)" using removed(4) [OF r(2)] r(3) cs by simp
    ultimately show ?thesis using r(1,4) ts_inv_push [OF assms] by blast
  qed
qed

lemma topsort_loop_inv:
  assumes "ts_inv pairs seen todo np ch"
  shows "\<exists>seen' np' ch'. ts_inv pairs seen' [] np' ch' \<and>
    topsort_loop seen todo np ch = (if np' \<noteq> [] then Inl (CycleError seen' np' ch') else Inr seen')"
  using assms
proof (induction seen todo np ch rule: topsort_loop.induct)
  case (1 seen np ch)
  then show ?case by (intro exI [of _ seen] exI [of _ np] exI [of _ ch]) simp
next
  case (2 seen p todo np ch)
  note step = ts_inv_step [OF 2(3)]
  show ?case
  proof (cases "map_of ch p")
    case None
    then show ?thesis using 2(1) [of "dict_del p np"] step(1,2) by simp
  next
    case (Some cs)
    then obtain np' new where s: "res_fold dec_child (dict_del p np, []) cs = Inr (np', new)"
        "ts_inv pairs (seen @ [p]) (todo @ new) np' (dict_del p ch)"
      using step(3) by blast
    show ?thesis using 2(2) [of "dict_del p np" cs "(np', new)" np' new] Some s step(1) by simp
  qed
qed

lemma parentless_set:
  assumes "counts_inv pairs S np ch" and "\<And>ks. mset (key_order ks) = mset ks"
  shows "set (parentless key_order np) = {x \<in> elements pairs - S. open_parents pairs S x = 0}"
    "distinct (parentless key_order np)"
proof -
  have s: "set (key_order (dict_keys np)) = dom (map_of np)" "distinct (key_order (dict_keys np))"
    using mset_eq_setD [OF assms(2)] mset_eq_imp_distinct_iff [OF assms(2)] assms(1)
    by (simp_all add: counts_inv_def dict_ok_def set_dict_keys)
  show "set (parentless key_order np) = {x \<in> elements pairs - S. open_parents pairs S x = 0}"
    using s(1) assms(1) by (auto simp: parentless_def counts_inv_def split: if_splits)
  show "distinct (parentless key_order np)" using s(2) by (simp add: parentless_def)
qed


lemma parents_first_append:
  "parents_first pairs (xs @ ys) \<longleftrightarrow> parents_first pairs xs \<and>
     (\<forall>i < length ys. \<forall>p. (p, ys ! i) \<in> set pairs \<longrightarrow> p \<in> set xs \<union> set (take i ys))"
  by (induction ys rule: rev_induct)
    (auto simp: parents_first_snoc append_assoc [symmetric] less_Suc_eq nth_append simp del: append_assoc)

lemma takeWhile_length_before: "\<not> P x \<Longrightarrow> length (takeWhile P (as @ x # bs)) \<le> length as"
  by (induction as) auto

lemma takeWhile_length_first: "c \<notin> set ys \<Longrightarrow> length (takeWhile (\<lambda>y. y \<noteq> c) (ys @ c # zs)) = length ys"
  by (induction ys) auto

lemma parents_first_acyclic:
  assumes "parents_first pairs xs" "elements pairs \<subseteq> set xs"
  shows "acyclic (set pairs)"
proof -
  let ?pos = "\<lambda>x. length (takeWhile (\<lambda>y. y \<noteq> x) xs)"
  have "?pos p < ?pos c" if e: "(p, c) \<in> set pairs" for p c
  proof -
    have "c \<in> set xs" using elementsI(2) [OF e] assms(2) by blast
    then obtain ys zs where xs: "xs = ys @ c # zs" "c \<notin> set ys" by (meson split_list_first)
    have "length ys < length xs" "xs ! length ys = c" "take (length ys) xs = ys" by (simp_all add: xs(1))
    then have "p \<in> set ys" using assms(1) e unfolding parents_first_def by metis
    then obtain as bs where ys: "ys = as @ p # bs" by (meson split_list)
    have "?pos p \<le> length as" using takeWhile_length_before [of "\<lambda>y. y \<noteq> p" p as "bs @ c # zs"]
      by (simp add: xs(1) ys)
    moreover have "?pos c = length ys"
      using takeWhile_length_first [OF xs(2)] by (simp add: xs(1))
    ultimately show ?thesis by (simp add: ys)
  qed
  then have "set pairs \<subseteq> measure ?pos" by auto
  then show ?thesis by (meson acyclic_subset wf_acyclic wf_measure)
qed

lemma acyclic_has_parentless:
  assumes "acyclic (set pairs)" "elements pairs - S \<noteq> {}"
  shows "\<exists>x \<in> elements pairs - S. open_parents pairs S x = 0"
proof -
  have "wf (set pairs)" using assms(1) by (simp add: finite_acyclic_wf)
  then obtain x where "x \<in> elements pairs - S" "\<forall>y. (y, x) \<in> set pairs \<longrightarrow> y \<notin> elements pairs - S"
    using assms(2) by (meson wfE_min')
  then show ?thesis using elementsI(1) by (fastforce simp: open_parents_zero)
qed

text \<open>
  C4. \<open>topsort\<close> returns exactly when the pairs have no cycle, and then every element of the pairs
  once, each after all of its parents. Otherwise it raises \<open>CycleError\<close> with the part that could
  be sorted, and every element left over has a parent that is left over too.
\<close>
theorem topsort_correct:
  assumes "\<And>ks. mset (key_order ks) = mset ks"
  shows "case topsort key_order pairs of
      Inr answer \<Rightarrow> acyclic (set pairs) \<and> distinct answer \<and> set answer = elements pairs
        \<and> parents_first pairs answer
    | Inl (CycleError answer num_parents children) \<Rightarrow> \<not> acyclic (set pairs) \<and> distinct answer
        \<and> parents_first pairs answer \<and> set answer \<subset> elements pairs
        \<and> set (dict_keys num_parents) = elements pairs - set answer
        \<and> (\<forall>x \<in> elements pairs - set answer. \<exists>p \<in> elements pairs - set answer. (p, x) \<in> set pairs)
    | Inl _ \<Rightarrow> False"
proof -
  obtain np ch where rp: "read_pairs pairs = (np, ch)" by (cases "read_pairs pairs")
  have c0: "counts_inv pairs (set []) np ch" using read_pairs_inv [of pairs] rp by simp
  note pl = parentless_set [OF c0 assms]
  have "ts_inv pairs [] (parentless key_order np) np ch"
    using c0 pl by (simp add: ts_inv_def parents_first_def)
  from topsort_loop_inv [OF this] obtain seen np' ch' where fin: "ts_inv pairs seen [] np' ch'"
      "topsort key_order pairs = (if np' \<noteq> [] then Inl (CycleError seen np' ch') else Inr seen)"
    by (auto simp: topsort_def rp)
  have inv: "counts_inv pairs (set seen) np' ch'" "distinct seen" "parents_first pairs seen"
      "set seen \<subseteq> elements pairs" "\<forall>x \<in> elements pairs - set seen. open_parents pairs (set seen) x \<noteq> 0"
    using fin(1) by (auto simp: ts_inv_def)
  have keys: "set (dict_keys np') = elements pairs - set seen"
    using inv(1) by (auto simp: counts_inv_def set_dict_keys split: if_splits)
  show ?thesis
  proof (cases "np' = []")
    case True
    then have "set seen = elements pairs" using keys inv(4) by (auto simp: dict_keys_def)
    with True fin(2) inv parents_first_acyclic [OF inv(3)] show ?thesis by simp
  next
    case False
    then have "set (dict_keys np') \<noteq> {}" by (simp add: dict_keys_def)
    then have ne: "elements pairs - set seen \<noteq> {}" using keys by simp
    have "\<not> acyclic (set pairs)" using acyclic_has_parentless [OF _ ne] inv(5) by blast
    moreover have "\<exists>p \<in> elements pairs - set seen. (p, x) \<in> set pairs" if "x \<in> elements pairs - set seen" for x
      using that inv(5) elementsI(1) by (fastforce simp: open_parents_zero)
    ultimately show ?thesis using False fin(2) inv(2,3,4) keys ne by auto
  qed
qed

theorem topsort_correct_witness:
  "topsort rev [(1 :: nat, 2), (1, 3), (2, 3)] = Inr [1, 2, 3]
   \<and> acyclic (set [(1 :: nat, 2), (1, 3), (2, 3)])
   \<and> topsort rev [(1 :: nat, 2), (2, 3), (3, 2)] = Inl (CycleError [1] [(2, 1), (3, 1)] [(2, [3]), (3, [2])])
   \<and> \<not> acyclic (set [(1 :: nat, 2), (2, 3), (3, 2)])"
proof -
  have a: "topsort rev [(1 :: nat, 2), (1, 3), (2, 3)] = Inr [1, 2, 3]" by code_simp
  have b: "topsort rev [(1 :: nat, 2), (2, 3), (3, 2)] = Inl (CycleError [1] [(2, 1), (3, 1)] [(2, [3]), (3, [2])])"
    by code_simp
  show ?thesis
    using topsort_correct [of rev "[(1 :: nat, 2), (1, 3), (2, 3)]"]
      topsort_correct [of rev "[(1 :: nat, 2), (2, 3), (3, 2)]"]
    unfolding a b by simp
qed

subsection \<open>The levels\<close>

definition parents_in :: "('a \<times> 'a) list \<Rightarrow> 'a set \<Rightarrow> bool" where
  "parents_in pairs S \<longleftrightarrow> S \<subseteq> elements pairs \<and> (\<forall>q c. (q, c) \<in> set pairs \<longrightarrow> c \<in> S \<longrightarrow> q \<in> S)"

definition next_level :: "('a \<times> 'a) list \<Rightarrow> 'a set \<Rightarrow> 'a set" where
  "next_level pairs S = {x \<in> elements pairs - S. \<forall>p. (p, x) \<in> set pairs \<longrightarrow> p \<in> S}"

fun levels_from :: "('a \<times> 'a) list \<Rightarrow> 'a set \<Rightarrow> 'a list list \<Rightarrow> bool" where
  "levels_from pairs S [] \<longleftrightarrow> next_level pairs S = {}"
| "levels_from pairs S (l # ls) \<longleftrightarrow> l \<noteq> [] \<and> distinct l \<and> set l = next_level pairs S
     \<and> levels_from pairs (S \<union> set l) ls"

lemma next_level_open_parents: "next_level pairs S = {x \<in> elements pairs - S. open_parents pairs S x = 0}"
  by (simp add: next_level_def open_parents_zero)

lemma parents_in_level: "parents_in pairs S \<Longrightarrow> L \<subseteq> next_level pairs S \<Longrightarrow> parents_in pairs (S \<union> L)"
  by (auto simp: parents_in_def next_level_def)

lemma next_level_mono: "x \<in> next_level pairs S \<Longrightarrow> x \<notin> T \<Longrightarrow> x \<in> next_level pairs (S \<union> T)"
  by (auto simp: next_level_def)

lemma take_level_parent_spec:
  assumes "counts_inv pairs S np ch" "parents_in pairs S" "p \<in> next_level pairs S"
  shows "\<exists>np' ch'. take_level_parent (np, ch) p = Inr (np', ch') \<and> counts_inv pairs (insert p S) np' ch'"
proof -
  have p: "p \<in> elements pairs - S" "open_parents pairs S p = 0"
    using assms(3) by (auto simp: next_level_open_parents)
  have closed: "\<forall>q c. (q, c) \<in> set pairs \<longrightarrow> c \<in> S \<longrightarrow> q \<in> S" using assms(2) by (simp add: parents_in_def)
  note removed = counts_inv_remove [OF assms(1) p closed]
  have chp: "map_of ch p = (if kids pairs p = [] then None else Some (kids pairs p))"
    using assms(1) p by (simp add: counts_inv_def)
  have "\<And>c. c \<in> set (kids pairs p) \<Longrightarrow> map_of (dict_del p np) c \<noteq> None" by (simp only: removed(3)) simp
  then obtain np' where np': "res_fold dec_parent_count (dict_del p np) (kids pairs p) = Inr np'" "dict_ok np'"
      "map_of np' = (\<lambda>x. map_option (\<lambda>n. n - int (count_list (kids pairs p) x)) (map_of (dict_del p np) x))"
    using dec_counts_spec [OF removed(2)] by blast
  show ?thesis
    using removed(1) removed(4) [OF np'(2,3)] np'(1) chp
    by (auto simp: take_level_parent_def Let_def split: option.splits)
qed

lemma take_level_spec:
  assumes "counts_inv pairs S np ch" "parents_in pairs S" "distinct ps" "set ps \<subseteq> next_level pairs S"
  shows "\<exists>np' ch'. res_fold take_level_parent (np, ch) ps = Inr (np', ch') \<and> counts_inv pairs (S \<union> set ps) np' ch'"
  using assms
proof (induction ps arbitrary: S np ch)
  case (Cons p ps)
  then obtain np1 ch1 where s: "take_level_parent (np, ch) p = Inr (np1, ch1)"
      "counts_inv pairs (insert p S) np1 ch1"
    using take_level_parent_spec [of pairs S np ch p] by auto
  have "parents_in pairs (insert p S)" using parents_in_level [of pairs S "{p}"] Cons.prems by auto
  moreover have "set ps \<subseteq> next_level pairs (insert p S)"
    using next_level_mono [of _ pairs S "{p}"] Cons.prems(3,4) by auto
  ultimately show ?case using Cons.IH [OF s(2)] s(1) Cons.prems(3) by auto
qed simp

lemma topsort_levels_core_inv:
  assumes "\<And>ks. mset (key_order ks) = mset ks" "counts_inv pairs S np ch" "parents_in pairs S"
  shows "\<exists>ls np' ch'. topsort_levels_core key_order np ch
      = (ls, if np' \<noteq> [] then Some (LevelCycleError np' ch') else None)
    \<and> levels_from pairs S ls \<and> parents_in pairs (S \<union> set (concat ls))
    \<and> counts_inv pairs (S \<union> set (concat ls)) np' ch'"
  using assms
proof (induction key_order np ch arbitrary: S rule: topsort_levels_core.induct)
  case (1 key_order np ch)
  let ?ps = "parentless key_order np"
  have pl: "set ?ps = next_level pairs S" "distinct ?ps"
    using parentless_set [OF 1(3,2)] by (simp_all add: next_level_open_parents)
  show ?case
  proof (cases "?ps = []")
    case True
    with 1(3,4) pl show ?thesis
      by (intro exI [of _ "[]"] exI [of _ np] exI [of _ ch]) (simp add: topsort_levels_core.simps)
  next
    case False
    obtain np1 ch1 where t: "res_fold take_level_parent (np, ch) ?ps = Inr (np1, ch1)"
        "counts_inv pairs (S \<union> set ?ps) np1 ch1"
      using take_level_spec [OF 1(3,4) pl(2)] pl(1) by auto
    obtain ls np' ch' where r: "topsort_levels_core key_order np1 ch1
          = (ls, if np' \<noteq> [] then Some (LevelCycleError np' ch') else None)"
        "levels_from pairs (S \<union> set ?ps) ls" "parents_in pairs (S \<union> set ?ps \<union> set (concat ls))"
        "counts_inv pairs (S \<union> set ?ps \<union> set (concat ls)) np' ch'"
      using 1(1) [OF refl False t(1) refl 1(2) t(2) parents_in_level] 1(4) pl(1) by blast
    have "topsort_levels_core key_order np ch
        = (?ps # ls, if np' \<noteq> [] then Some (LevelCycleError np' ch') else None)"
      using False t(1) r(1) by (subst topsort_levels_core.simps) (simp add: Let_def)
    with r(2-) False pl show ?thesis
      by (intro exI [of _ "?ps # ls"] exI [of _ np'] exI [of _ ch']) (simp add: Un_assoc)
  qed
qed

lemma levels_from_nth:
  "levels_from pairs S ls \<Longrightarrow> k < length ls \<Longrightarrow>
     ls ! k \<noteq> [] \<and> distinct (ls ! k) \<and> set (ls ! k) = next_level pairs (S \<union> set (concat (take k ls)))"
  by (induction ls arbitrary: S k) (auto simp: nth_Cons' Un_assoc take_Cons' split: nat.splits)

lemma levels_from_last: "levels_from pairs S ls \<Longrightarrow> next_level pairs (S \<union> set (concat ls)) = {}"
proof (induction ls arbitrary: S)
  case (Cons l ls)
  then have "levels_from pairs (S \<union> set l) ls" unfolding levels_from.simps by blast
  from Cons.IH [OF this] show ?case by (simp add: Un_assoc)
qed simp

lemma levels_from_acyclic:
  assumes "parents_in pairs S" "levels_from pairs S ls" "parents_first pairs xs" "set xs = S"
  shows "parents_first pairs (xs @ concat ls)"
  using assms
proof (induction ls arbitrary: S xs)
  case (Cons l ls)
  have l: "set l = next_level pairs S" "levels_from pairs (S \<union> set l) ls"
    using Cons.prems(2) unfolding levels_from.simps by blast+
  then have "parents_first pairs (xs @ l)"
    using Cons.prems(3,4) by (force simp: parents_first_append next_level_def)
  moreover have "set (xs @ l) = S \<union> set l" using Cons.prems(4) by simp
  ultimately have "parents_first pairs ((xs @ l) @ concat ls)"
    using Cons.IH [OF parents_in_level [OF Cons.prems(1)] l(2)] l(1) by blast
  then show ?case by simp
qed simp

lemma topsort_levels_outcome:
  assumes "\<And>ks. mset (key_order ks) = mset ks"
  obtains levels np ch where
    "topsort_levels key_order pairs = (levels, if np \<noteq> [] then Some (LevelCycleError np ch) else None)"
    "levels_from pairs {} levels" "counts_inv pairs (set (concat levels)) np ch"
    "parents_in pairs (set (concat levels))"
proof -
  obtain np ch where rp: "read_pairs pairs = (np, ch)" by (cases "read_pairs pairs")
  have c0: "counts_inv pairs {} np ch" using read_pairs_inv [of pairs] rp by simp
  have "parents_in pairs {}" by (simp add: parents_in_def)
  from topsort_levels_core_inv [OF assms c0 this] that show ?thesis
    by (auto simp: topsort_levels_def rp)
qed

text \<open>
  C5. \<open>topsort_levels\<close> yields the layers of the graph: level \<open>k\<close> holds, once each, exactly the
  elements that are in no earlier level and whose parents all are; no level is empty. It ends
  without an error exactly when the pairs have no cycle, and then the levels hold every element;
  otherwise \<open>CycleError\<close> reports the counts of exactly the elements in no level.
\<close>
theorem topsort_levels_layers:
  assumes "\<And>ks. mset (key_order ks) = mset ks"
    and "topsort_levels key_order pairs = (levels, err)"
  shows "(\<forall>k < length levels. levels ! k \<noteq> [] \<and> distinct (levels ! k) \<and>
      set (levels ! k) = {x \<in> elements pairs - set (concat (take k levels)).
        \<forall>p. (p, x) \<in> set pairs \<longrightarrow> p \<in> set (concat (take k levels))}) \<and>
     (case err of
        None \<Rightarrow> acyclic (set pairs) \<and> set (concat levels) = elements pairs
      | Some (LevelCycleError num_parents children) \<Rightarrow> \<not> acyclic (set pairs)
          \<and> set (dict_keys num_parents) = elements pairs - set (concat levels)
      | Some _ \<Rightarrow> False)"
proof -
  obtain np ch where o: "err = (if np \<noteq> [] then Some (LevelCycleError np ch) else None)"
      "levels_from pairs {} levels" "counts_inv pairs (set (concat levels)) np ch"
      "parents_in pairs (set (concat levels))"
    by (rule topsort_levels_outcome [OF assms(1), of pairs]) (simp add: assms(2))
  have layers: "\<forall>k < length levels. levels ! k \<noteq> [] \<and> distinct (levels ! k) \<and>
      set (levels ! k) = {x \<in> elements pairs - set (concat (take k levels)).
        \<forall>p. (p, x) \<in> set pairs \<longrightarrow> p \<in> set (concat (take k levels))}"
    using levels_from_nth [OF o(2)] by (simp add: next_level_def)
  have keys: "set (dict_keys np) = elements pairs - set (concat levels)"
    using o(3) by (auto simp: counts_inv_def set_dict_keys split: if_splits)
  have sub: "set (concat levels) \<subseteq> elements pairs" using o(4) by (simp add: parents_in_def)
  have "case err of
        None \<Rightarrow> acyclic (set pairs) \<and> set (concat levels) = elements pairs
      | Some (LevelCycleError num_parents children) \<Rightarrow> \<not> acyclic (set pairs)
          \<and> set (dict_keys num_parents) = elements pairs - set (concat levels)
      | Some _ \<Rightarrow> False"
  proof (cases "np = []")
    case True
    then have full: "set (concat levels) = elements pairs" using keys sub by (auto simp: dict_keys_def)
    have "parents_first pairs (concat levels)"
      using levels_from_acyclic [OF _ o(2), of "[]"] by (simp add: parents_in_def parents_first_def)
    with True full o(1) show ?thesis using parents_first_acyclic by fastforce
  next
    case False
    then have "set (dict_keys np) \<noteq> {}" by (simp add: dict_keys_def)
    then have "\<not> acyclic (set pairs)"
      using acyclic_has_parentless [of pairs "set (concat levels)"] levels_from_last [OF o(2)]
      unfolding keys next_level_open_parents Un_empty_left by blast
    with False o(1) keys show ?thesis by simp
  qed
  with layers show ?thesis by blast
qed

theorem topsort_levels_layers_witness:
  "topsort_levels rev [(1 :: nat, 2), (1, 3), (3, 4)] = ([[1], [3, 2], [4]], None)
   \<and> acyclic (set [(1 :: nat, 2), (1, 3), (3, 4)])"
proof -
  have a: "topsort_levels rev [(1 :: nat, 2), (1, 3), (3, 4)] = ([[1], [3, 2], [4]], None)" by code_simp
  show ?thesis using a topsort_levels_layers [OF _ a] by simp
qed

end
