(* ===== verification/Find_Cycles.thy ===== *)
theory Find_Cycles
  imports Topsort
begin

text \<open>
  Correctness of \<open>find_cycles\<close> of \<open>src/bindings/python/topsort.py\<close> (modelled in \<open>Topsort\<close>): the loop
  over the stack of paths ends because every pushed path is a longer simple path (a multiset order
  on the stack); what it finds are the elementary cycles, each once up to rotation.
\<close>

subsection \<open>Elementary cycles\<close>

definition edge :: "'a succs \<Rightarrow> 'a \<Rightarrow> 'a \<Rightarrow> bool" where
  "edge g a b \<longleftrightarrow> (\<exists>cs. map_of g a = Some cs \<and> b \<in> set cs)"

definition spath :: "'a succs \<Rightarrow> 'a list \<Rightarrow> bool" where
  "spath g p \<longleftrightarrow> p \<noteq> [] \<and> distinct p \<and> successively (edge g) p"

definition elementary_cycle :: "'a succs \<Rightarrow> 'a list \<Rightarrow> bool" where
  "elementary_cycle g c \<longleftrightarrow> c \<noteq> [] \<and> distinct c \<and> successively (edge g) c \<and> edge g (last c) (hd c)"

definition covered :: "'a list list \<Rightarrow> 'a list \<Rightarrow> bool" where
  "covered cs c \<longleftrightarrow> (\<exists>c' \<in> set cs. \<exists>n. rotate n c' = c)"

definition closes :: "'a succs \<Rightarrow> 'a list list \<Rightarrow> 'a list \<Rightarrow> bool" where
  "closes g cs p \<longleftrightarrow> (\<forall>c \<in> set p. edge g (last p) c \<longrightarrow> covered cs (dropWhile (\<lambda>x. x \<noteq> c) p))"

fun new_rotations :: "'a list list \<Rightarrow> 'a list list \<Rightarrow> bool" where
  "new_rotations cs [] \<longleftrightarrow> True"
| "new_rotations cs (c # ds) \<longleftrightarrow> \<not> covered cs c \<and> new_rotations (cs @ [c]) ds"

lemma covered_append [simp]: "covered (cs @ ds) c \<longleftrightarrow> covered cs c \<or> covered ds c"
  by (auto simp: covered_def)

lemma covered_Nil [simp]: "\<not> covered [] c" by (simp add: covered_def)

lemma covered_singleton [simp]: "covered [c] c"
  by (auto simp: covered_def intro: exI [of _ 0])

lemma closes_append: "closes g cs p \<Longrightarrow> closes g (cs @ ds) p"
  by (auto simp: closes_def)

lemma new_rotations_append: "new_rotations cs (ds @ es) \<longleftrightarrow> new_rotations cs ds \<and> new_rotations (cs @ ds) es"
  by (induction ds arbitrary: cs) auto

lemma dup_cycle_iff: "c \<noteq> [] \<Longrightarrow> dup_cycle cs c = Inr (covered cs c)"
proof (induction cs)
  case (Cons d cs)
  have "is_rotated d c = Inr (\<exists>n. rotate n d = c)"
  proof (cases "length d = length c")
    case True
    then show ?thesis using is_rotated_iff [OF True Cons.prems] by simp
  next
    case False
    then have "\<nexists>n. rotate n d = c" by auto
    with False show ?thesis by (simp add: is_rotated_def)
  qed
  moreover have "covered (d # cs) c \<longleftrightarrow> (\<exists>n. rotate n d = c) \<or> covered cs c" by (auto simp: covered_def)
  ultimately show ?case using Cons by (cases "\<exists>n. rotate n d = c") auto
qed simp

lemma dropWhile_until: "c \<notin> set as \<Longrightarrow> dropWhile (\<lambda>x. x \<noteq> c) (as @ c # bs) = c # bs"
  by (induction as) auto

lemma dropWhile_cycle:
  assumes "spath g p" "c \<in> set p" "edge g (last p) c"
  shows "elementary_cycle g (dropWhile (\<lambda>x. x \<noteq> c) p)"
proof -
  obtain as bs where p: "p = as @ c # bs" "c \<notin> set as" by (meson assms(2) split_list_first)
  then have "dropWhile (\<lambda>x. x \<noteq> c) p = c # bs" using dropWhile_until [of c as bs] by simp
  with assms p(1) show ?thesis by (auto simp: elementary_cycle_def spath_def successively_append_iff)
qed

lemma spath_snoc: "spath g p \<Longrightarrow> spath g (p @ [c]) \<longleftrightarrow> edge g (last p) c \<and> c \<notin> set p"
  by (auto simp: spath_def successively_append_iff)

subsection \<open>One path of the stack\<close>

lemma fc_state_update:
  "st\<lparr>cycles := cs, visited_nodes := vs, paths := ps\<rparr> = \<lparr>cycles = cs, visited_nodes = vs, paths = ps\<rparr>"
  by simp

lemma visit_child_cycle:
  assumes "spath g path" "edge g (last path) c" "c \<in> set path"
  shows "\<exists>ds. visit_child path st c = Inr (st\<lparr>cycles := cycles st @ ds\<rparr>)
    \<and> (\<forall>d \<in> set ds. elementary_cycle g d) \<and> new_rotations (cycles st) ds
    \<and> covered (cycles st @ ds) (dropWhile (\<lambda>x. x \<noteq> c) path)"
proof -
  let ?c = "dropWhile (\<lambda>x. x \<noteq> c) path"
  have el: "elementary_cycle g ?c" using dropWhile_cycle [OF assms(1,3,2)] .
  then have "dup_cycle (cycles st) ?c = Inr (covered (cycles st) ?c)"
    by (intro dup_cycle_iff) (simp add: elementary_cycle_def)
  then have v: "visit_child path st c = Inr (if covered (cycles st) ?c then st else st\<lparr>cycles := cycles st @ [?c]\<rparr>)"
    using assms(3) by (simp add: visit_child_def Let_def)
  show ?thesis
  proof (cases "covered (cycles st) ?c")
    case True
    then show ?thesis using v by (intro exI [of _ "[]"]) simp
  next
    case False
    then show ?thesis using v el by (intro exI [of _ "[?c]"]) simp
  qed
qed

lemma visit_children_spec:
  assumes "spath g path" "\<And>c. c \<in> set children \<Longrightarrow> edge g (last path) c"
  shows "\<exists>ds. res_fold (visit_child path) st children = Inr (st\<lparr>cycles := cycles st @ ds,
        visited_nodes := visited_nodes st \<union> (set children - set path),
        paths := rev (map (\<lambda>c. path @ [c]) (filter (\<lambda>c. c \<notin> set path) children)) @ paths st\<rparr>)
    \<and> (\<forall>d \<in> set ds. elementary_cycle g d) \<and> new_rotations (cycles st) ds
    \<and> (\<forall>c \<in> set children \<inter> set path. covered (cycles st @ ds) (dropWhile (\<lambda>x. x \<noteq> c) path))"
  using assms(2)
proof (induction children arbitrary: st)
  case Nil
  show ?case by (intro exI [of _ "[]"]) simp
next
  case (Cons c children)
  show ?case
  proof (cases "c \<in> set path")
    case True
    obtain ds where ds: "visit_child path st c = Inr (st\<lparr>cycles := cycles st @ ds\<rparr>)"
        "\<forall>d \<in> set ds. elementary_cycle g d" "new_rotations (cycles st) ds"
        "covered (cycles st @ ds) (dropWhile (\<lambda>x. x \<noteq> c) path)"
      using visit_child_cycle [OF assms(1) _ True] Cons.prems by (meson list.set_intros(1))
    obtain es where es: "res_fold (visit_child path) (st\<lparr>cycles := cycles st @ ds\<rparr>) children
          = Inr (st\<lparr>cycles := (cycles st @ ds) @ es,
              visited_nodes := visited_nodes st \<union> (set children - set path),
              paths := rev (map (\<lambda>c. path @ [c]) (filter (\<lambda>c. c \<notin> set path) children)) @ paths st\<rparr>)"
        "\<forall>d \<in> set es. elementary_cycle g d" "new_rotations (cycles st @ ds) es"
        "\<forall>c \<in> set children \<inter> set path. covered ((cycles st @ ds) @ es) (dropWhile (\<lambda>x. x \<noteq> c) path)"
      using Cons.IH [of "st\<lparr>cycles := cycles st @ ds\<rparr>"] Cons.prems by auto
    have "set (c # children) - set path = set children - set path" using True by auto
    with True ds es show ?thesis
      by (intro exI [of _ "ds @ es"]) (auto simp: new_rotations_append)
  next
    case False
    let ?st = "st\<lparr>paths := (path @ [c]) # paths st, visited_nodes := insert c (visited_nodes st)\<rparr>"
    have s: "visit_child path st c = Inr ?st" using False by (simp add: visit_child_def)
    obtain es where es: "res_fold (visit_child path) ?st children
          = Inr (?st\<lparr>cycles := cycles st @ es,
              visited_nodes := insert c (visited_nodes st) \<union> (set children - set path),
              paths := rev (map (\<lambda>c. path @ [c]) (filter (\<lambda>c. c \<notin> set path) children)) @ (path @ [c]) # paths st\<rparr>)"
        "\<forall>d \<in> set es. elementary_cycle g d" "new_rotations (cycles st) es"
        "\<forall>c \<in> set children \<inter> set path. covered (cycles st @ es) (dropWhile (\<lambda>x. x \<noteq> c) path)"
      using Cons.IH [of ?st] Cons.prems by auto
    have "visited_nodes st \<union> (set (c # children) - set path) = insert c (visited_nodes st) \<union> (set children - set path)"
      using False by auto
    with False s es show ?thesis by (intro exI [of _ es]) auto
  qed
qed


subsection \<open>The stack loop\<close>

definition targets :: "'a succs \<Rightarrow> 'a set" where
  "targets g = (\<Union>cs \<in> ran (map_of g). set cs)"

lemma finite_targets: "finite (targets g)"
proof -
  have "targets g \<subseteq> (\<Union>cs \<in> snd ` set g. set cs)" by (force simp: targets_def ran_def dest: map_of_SomeD)
  then show ?thesis by (rule finite_subset) simp
qed

lemma edge_targets: "edge g a b \<Longrightarrow> b \<in> targets g"
  by (auto simp: edge_def targets_def ran_def)

lemma spath_length:
  assumes "spath g p"
  shows "length p \<le> Suc (card (targets g))"
proof -
  have "set (tl p) \<subseteq> targets g" if "successively (edge g) p" for p
    using that by (induction p rule: induct_list012) (auto dest: edge_targets)
  then have "card (set (tl p)) \<le> card (targets g)"
    using assms by (auto simp: spath_def intro: card_mono finite_targets)
  moreover have "card (set (tl p)) = length p - 1" using assms by (simp add: spath_def distinct_card distinct_tl)
  ultimately show ?thesis by linarith
qed

definition stack_size :: "'a succs \<Rightarrow> 'a fc_state \<Rightarrow> nat multiset" where
  "stack_size g st = image_mset (\<lambda>p. Suc (card (targets g)) - length p) (mset (paths st))"

definition stack_rel :: "'a succs \<Rightarrow> ('a fc_state \<times> 'a fc_state) set" where
  "stack_rel g = inv_image (mult less_than) (stack_size g)"

lemma wf_stack_rel: "wf (stack_rel g)"
  by (auto simp: stack_rel_def intro: wf_mult)

lemma stack_rel_step:
  assumes "paths st = p # rest" "paths st' = ps @ rest"
    and "\<And>q. q \<in> set ps \<Longrightarrow> spath g q \<and> length p < length q"
  shows "(st', st) \<in> stack_rel g"
proof -
  let ?f = "\<lambda>p. Suc (card (targets g)) - length p"
  have "?f q < ?f p" if "q \<in> set ps" for q
    using assms(3) [OF that] spath_length [of g q] by linarith
  then have "(image_mset ?f (mset rest) + image_mset ?f (mset ps), image_mset ?f (mset rest) + {#?f p#}) \<in> mult less_than"
    by (intro one_step_implies_mult) auto
  then show ?thesis using assms(1,2) by (simp add: stack_rel_def stack_size_def add.commute)
qed

definition loop_post :: "'a succs \<Rightarrow> 'a fc_state \<Rightarrow> 'a list list \<Rightarrow> 'a set \<Rightarrow> bool" where
  "loop_post g st ds vs \<longleftrightarrow>
     cycle_loop g st = Some (Inr \<lparr>cycles = cycles st @ ds, visited_nodes = visited_nodes st \<union> vs, paths = []\<rparr>)
   \<and> (\<forall>d \<in> set ds. elementary_cycle g d) \<and> new_rotations (cycles st) ds
   \<and> (\<forall>p \<in> set (paths st). \<forall>q. spath g (p @ q) \<longrightarrow> closes g (cycles st @ ds) (p @ q))
   \<and> (\<forall>v \<in> vs. \<exists>p \<in> set (paths st). (edge g)\<^sup>*\<^sup>* (last p) v)"

lemma spath_extend:
  assumes "spath g p" "spath g (p @ q)" "q \<noteq> []"
  shows "edge g (last p) (hd q) \<and> hd q \<notin> set p"
  using assms by (cases q) (auto simp: spath_def successively_append_iff)

lemma loop_post_pop:
  assumes st: "paths st = p # rest" "spath g p" "map_of g (last p) = None"
    and IH: "loop_post g (st\<lparr>paths := rest\<rparr>) ds vs"
  shows "loop_post g st ds vs"
proof -
  have none: "\<not> edge g (last p) c" for c using st(3) by (simp add: edge_def)
  have "closes g (cycles st @ ds) (p @ q)" if "spath g (p @ q)" for q
    using spath_extend [OF st(2) that] none by (cases "q = []") (auto simp: closes_def)
  moreover have "cycle_loop g st = cycle_loop g (st\<lparr>paths := rest\<rparr>)"
    using st by (subst cycle_loop.simps) simp
  ultimately show ?thesis using IH st(1) by (auto simp: loop_post_def)
qed

lemma loop_post_push:
  fixes st :: "'a fc_state"
  defines "pushed \<equiv> \<lambda>p cs. rev (map (\<lambda>c. p @ [c]) (filter (\<lambda>c. c \<notin> set p) cs))"
  assumes st: "paths st = p # rest" "spath g p" "map_of g (last p) = Some cs"
    and step: "res_fold (visit_child p) (st\<lparr>paths := rest\<rparr>) cs = Inr st'"
      "st' = \<lparr>cycles = cycles st @ ds, visited_nodes = visited_nodes st \<union> (set cs - set p), paths = pushed p cs @ rest\<rparr>"
      "\<forall>d \<in> set ds. elementary_cycle g d" "new_rotations (cycles st) ds"
      "\<forall>c \<in> set cs \<inter> set p. covered (cycles st @ ds) (dropWhile (\<lambda>x. x \<noteq> c) p)"
    and IH: "loop_post g st' es vs"
  shows "loop_post g st (ds @ es) ((set cs - set p) \<union> vs)"
proof -
  have edges: "edge g (last p) c \<longleftrightarrow> c \<in> set cs" for c using st(3) by (simp add: edge_def)
  have pushed: "q \<in> set (pushed p cs) \<longleftrightarrow> (\<exists>c \<in> set cs - set p. q = p @ [c])" for q by (auto simp: pushed_def)
  have loop: "cycle_loop g st = cycle_loop g st'" using st step(1) by (subst cycle_loop.simps) simp
  have post: "\<forall>q \<in> set (pushed p cs @ rest). \<forall>r. spath g (q @ r) \<longrightarrow> closes g (cycles st @ ds @ es) (q @ r)"
      "\<forall>v \<in> vs. \<exists>q \<in> set (pushed p cs @ rest). (edge g)\<^sup>*\<^sup>* (last q) v"
    using IH by (simp_all add: loop_post_def step(2))
  have "closes g (cycles st @ ds @ es) (p @ q)" if sp: "spath g (p @ q)" for q
  proof (cases q)
    case Nil
    have "closes g (cycles st @ ds) p" using step(5) edges by (auto simp: closes_def)
    then show ?thesis using closes_append [of g "cycles st @ ds" p es] Nil by simp
  next
    case (Cons c r)
    then have "edge g (last p) c" "c \<notin> set p" using spath_extend [OF st(2) sp] by auto
    then have "p @ [c] \<in> set (pushed p cs @ rest)" using edges pushed by auto
    with post(1) sp Cons show ?thesis by fastforce
  qed
  then have A: "\<forall>q \<in> set (paths st). \<forall>r. spath g (q @ r) \<longrightarrow> closes g (cycles st @ ds @ es) (q @ r)"
    using post(1) st(1) by auto
  have "\<exists>q \<in> set (paths st). (edge g)\<^sup>*\<^sup>* (last q) v" if "v \<in> (set cs - set p) \<union> vs" for v
  proof (cases "v \<in> set cs - set p")
    case True
    then show ?thesis using edges st(1) by auto
  next
    case False
    then have "v \<in> vs" using that by blast
    from bspec [OF post(2) this] obtain q
      where q: "q \<in> set (pushed p cs @ rest)" "(edge g)\<^sup>*\<^sup>* (last q) v" by (rule bexE)
    show ?thesis
    proof (cases "q \<in> set rest")
      case True
      with q(2) st(1) show ?thesis by auto
    next
      case False
      then obtain c where "c \<in> set cs" "q = p @ [c]" using q(1) pushed by auto
      then have "(edge g)\<^sup>*\<^sup>* (last p) v"
        using q(2) edges [of c] by (intro converse_rtranclp_into_rtranclp [of "edge g" "last p" c]) simp_all
      with st(1) show ?thesis by auto
    qed
  qed
  moreover have "cycle_loop g st' = Some (Inr \<lparr>cycles = cycles st @ ds @ es,
      visited_nodes = visited_nodes st \<union> ((set cs - set p) \<union> vs), paths = []\<rparr>)"
    using IH by (simp add: loop_post_def step(2) Un_assoc)
  moreover have "(\<forall>d \<in> set es. elementary_cycle g d) \<and> new_rotations (cycles st @ ds) es"
    using IH by (simp add: loop_post_def step(2))
  ultimately show ?thesis
    using A step(3,4) unfolding loop_post_def loop set_append by (simp add: new_rotations_append ball_Un)
qed

lemma cycle_loop_post:
  assumes "\<forall>p \<in> set (paths st). spath g p"
  shows "\<exists>ds vs. loop_post g st ds vs"
  using wf_stack_rel [of g] assms
proof (induction st rule: wf_induct_rule)
  case (less st)
  show ?case
  proof (cases "paths st")
    case Nil
    then have "cycle_loop g st = Some (Inr st)" by (subst cycle_loop.simps) simp
    with Nil have "loop_post g st [] {}" by (simp add: loop_post_def)
    then show ?thesis by blast
  next
    case (Cons p rest)
    then have p: "spath g p" "\<forall>q \<in> set rest. spath g q" using less.prems by auto
    show ?thesis
    proof (cases "map_of g (last p)")
      case None
      have "(st\<lparr>paths := rest\<rparr>, st) \<in> stack_rel g"
        using Cons by (intro stack_rel_step [of _ p rest _ "[]"]) auto
      then obtain ds vs where "loop_post g (st\<lparr>paths := rest\<rparr>) ds vs"
        using less.IH [of "st\<lparr>paths := rest\<rparr>"] p(2) by auto
      from loop_post_pop [OF Cons p(1) None this] show ?thesis by blast
    next
      case (Some cs)
      then have edges: "\<And>c. c \<in> set cs \<Longrightarrow> edge g (last p) c" by (simp add: edge_def)
      let ?ps = "rev (map (\<lambda>c. p @ [c]) (filter (\<lambda>c. c \<notin> set p) cs))"
      obtain ds where ds: "res_fold (visit_child p) (st\<lparr>paths := rest\<rparr>) cs = Inr
            \<lparr>cycles = cycles st @ ds, visited_nodes = visited_nodes st \<union> (set cs - set p), paths = ?ps @ rest\<rparr>"
          "\<forall>d \<in> set ds. elementary_cycle g d" "new_rotations (cycles st) ds"
          "\<forall>c \<in> set cs \<inter> set p. covered (cycles st @ ds) (dropWhile (\<lambda>x. x \<noteq> c) p)"
        using visit_children_spec [OF p(1) edges, of cs "st\<lparr>paths := rest\<rparr>"] by (auto simp: fc_state_update)
      let ?st = "\<lparr>cycles = cycles st @ ds, visited_nodes = visited_nodes st \<union> (set cs - set p), paths = ?ps @ rest\<rparr>"
      have sp: "spath g q \<and> length p < length q" if "q \<in> set ?ps" for q
        using that edges spath_snoc [OF p(1)] by auto
      then have "(?st, st) \<in> stack_rel g"
        using Cons by (intro stack_rel_step [of _ p rest _ ?ps]) simp_all
      moreover have "\<forall>q \<in> set (paths ?st). spath g q" using sp p(2) by auto
      ultimately obtain es vs where "loop_post g ?st es vs" using less.IH [of ?st] by blast
      from loop_post_push [OF Cons p(1) Some ds(1) refl ds(2-4) this] show ?thesis by blast
    qed
  qed
qed


subsection \<open>Every elementary cycle is found\<close>

lemma path_to_cycle:
  assumes "(edge g)\<^sup>*\<^sup>* r v" "v \<in> set c"
  shows "\<exists>p. spath g p \<and> hd p = r \<and> last p \<in> set c \<and> set (butlast p) \<inter> set c = {}"
  using assms
proof (induction rule: converse_rtranclp_induct)
  case base
  then show ?case by (intro exI [of _ "[v]"]) (simp add: spath_def)
next
  case (step x y)
  then obtain p where p: "spath g p" "hd p = y" "last p \<in> set c" "set (butlast p) \<inter> set c = {}" by blast
  consider "x \<in> set c" | as bs where "x \<notin> set c" "p = as @ x # bs" | "x \<notin> set c" "x \<notin> set p"
    by (meson split_list)
  then show ?case
  proof cases
    case 1
    then show ?thesis by (intro exI [of _ "[x]"]) (simp add: spath_def)
  next
    case 2
    then have "bs \<noteq> []" using p(3) by auto
    with 2 p show ?thesis
      by (intro exI [of _ "x # bs"]) (auto simp: spath_def successively_append_iff butlast_append)
  next
    case 3
    then show ?thesis using p step.hyps(1)
      by (intro exI [of _ "x # p"]) (auto simp: spath_def successively_Cons)
  qed
qed

definition root_done :: "'a succs \<Rightarrow> 'a list list \<Rightarrow> 'a \<Rightarrow> bool" where
  "root_done g cs r \<longleftrightarrow> (\<forall>p. spath g p \<longrightarrow> hd p = r \<longrightarrow> closes g cs p)"

lemma covered_rotate:
  assumes "covered cs (rotate n c)"
  shows "covered cs c"
proof -
  obtain c' m where c': "c' \<in> set cs" "rotate m c' = rotate n c" using assms by (auto simp: covered_def)
  have "rotate (length c - n mod length c) (rotate (n mod length c) c) = c"
    by (cases "c = []") (simp_all add: rotate_rotate)
  then have "rotate (length c - n mod length c + m) c' = c"
    using c'(2) rotate_conv_mod [of n c] by (simp add: rotate_rotate [symmetric])
  with c'(1) show ?thesis by (auto simp: covered_def)
qed

lemma elementary_cycle_swap: "elementary_cycle g (as @ bs) \<Longrightarrow> elementary_cycle g (bs @ as)"
  by (cases "as = []"; cases "bs = []")
    (auto simp: elementary_cycle_def successively_append_iff hd_append)

lemma root_done_covers:
  assumes fin: "root_done g cs r" and c: "elementary_cycle g c" "v \<in> set c" "(edge g)\<^sup>*\<^sup>* r v"
  shows "covered cs c"
proof -
  obtain p where p: "spath g p" "hd p = r" "last p \<in> set c" "set (butlast p) \<inter> set c = {}"
    using path_to_cycle [OF c(3,2)] by blast
  define w where "w = last p"
  obtain as bs where ab: "c = as @ w # bs" using p(3) by (metis split_list w_def)
  let ?c = "w # bs @ as" and ?b = "butlast p"
  have pw: "p = ?b @ [w]" using p(1) by (simp add: spath_def w_def)
  have rot: "?c = rotate (length as) c" by (simp add: ab rotate_append)
  have cyc: "successively (edge g) ?c" "edge g (last ?c) w" "distinct ?c"
    using c(1) elementary_cycle_swap [of g as "w # bs"] by (auto simp: ab elementary_cycle_def)
  have set: "set ?c = set c" by (auto simp: ab)
  have "successively (edge g) (?b @ [w])" "distinct (?b @ [w])" using p(1) pw by (auto simp: spath_def)
  then have "successively (edge g) (?b @ ?c)" "distinct (?b @ ?c)"
    using cyc p(4) unfolding set [symmetric] by (auto simp: successively_append_iff)
  then have sp: "spath g (?b @ ?c)" by (simp add: spath_def)
  moreover have "hd (?b @ ?c) = r" using p(2) pw by (metis append_Cons hd_append list.sel(1) append_Nil)
  ultimately have "closes g cs (?b @ ?c)" using fin by (simp add: root_done_def)
  then have "covered cs (dropWhile (\<lambda>x. x \<noteq> w) (?b @ ?c))"
    using cyc(2) unfolding closes_def by simp
  moreover have "w \<notin> set ?b" using p(3,4) by (auto simp: w_def)
  then have "dropWhile (\<lambda>x. x \<noteq> w) (?b @ ?c) = ?c" using dropWhile_until [of w ?b "bs @ as"] by simp
  ultimately show ?thesis using covered_rotate [of cs "length as" c] rot by simp
qed

lemma root_done_append: "root_done g cs r \<Longrightarrow> root_done g (cs @ ds) r"
  by (auto simp: root_done_def intro: closes_append)

lemma root_loop_post:
  assumes "\<forall>v \<in> visited_nodes st. \<exists>r. root_done g (cycles st) r \<and> (edge g)\<^sup>*\<^sup>* r v"
  shows "\<exists>st' ds. root_loop g ks st = Some (Inr st') \<and> cycles st' = cycles st @ ds
    \<and> (\<forall>d \<in> set ds. elementary_cycle g d) \<and> new_rotations (cycles st) ds
    \<and> (\<forall>k \<in> set ks. \<exists>r. root_done g (cycles st') r \<and> (edge g)\<^sup>*\<^sup>* r k)"
  using assms
proof (induction ks arbitrary: st)
  case Nil
  then show ?case by simp
next
  case (Cons k ks)
  show ?case
  proof (cases "k \<in> visited_nodes st")
    case True
    then obtain r where r: "root_done g (cycles st) r" "(edge g)\<^sup>*\<^sup>* r k" using Cons.prems by blast
    obtain st' ds where s: "root_loop g ks st = Some (Inr st')" "cycles st' = cycles st @ ds"
        "\<forall>d \<in> set ds. elementary_cycle g d" "new_rotations (cycles st) ds"
        "\<forall>k \<in> set ks. \<exists>r. root_done g (cycles st') r \<and> (edge g)\<^sup>*\<^sup>* r k"
      using Cons.IH [OF Cons.prems] by blast
    have "\<exists>r. root_done g (cycles st') r \<and> (edge g)\<^sup>*\<^sup>* r k"
      using r root_done_append [OF r(1)] s(2) by auto
    with s True show ?thesis by auto
  next
    case False
    obtain ds vs where post: "loop_post g (st\<lparr>paths := [[k]]\<rparr>) ds vs"
      using cycle_loop_post [of "st\<lparr>paths := [[k]]\<rparr>" g] by (auto simp: spath_def)
    define st1 where "st1 = \<lparr>cycles = cycles st @ ds, visited_nodes = visited_nodes st \<union> vs, paths = []\<rparr>"
    have l: "cycle_loop g (st\<lparr>paths := [[k]]\<rparr>) = Some (Inr st1)" "\<forall>d \<in> set ds. elementary_cycle g d"
        "new_rotations (cycles st) ds" "\<forall>v \<in> vs. (edge g)\<^sup>*\<^sup>* k v"
      using post by (simp_all add: loop_post_def st1_def)
    have k: "root_done g (cycles st1) k" unfolding root_done_def
    proof (intro allI impI)
      fix p assume p: "spath g p" "hd p = k"
      then have "p = [k] @ tl p" by (cases p) (auto simp: spath_def)
      then show "closes g (cycles st1) p" using post p by (simp add: loop_post_def st1_def) metis
    qed
    have vis: "\<forall>v \<in> visited_nodes st1. \<exists>r. root_done g (cycles st1) r \<and> (edge g)\<^sup>*\<^sup>* r v"
      using Cons.prems k l(4) root_done_append by (fastforce simp: st1_def)
    obtain st' es where s: "root_loop g ks st1 = Some (Inr st')" "cycles st' = cycles st1 @ es"
        "\<forall>d \<in> set es. elementary_cycle g d" "new_rotations (cycles st1) es"
        "\<forall>k \<in> set ks. \<exists>r. root_done g (cycles st') r \<and> (edge g)\<^sup>*\<^sup>* r k"
      using Cons.IH [OF vis] by blast
    have "\<exists>r. root_done g (cycles st') r \<and> (edge g)\<^sup>*\<^sup>* r k"
      using root_done_append [OF k, of es] s(2) by (intro exI [of _ k]) simp
    with s l False show ?thesis
      by (intro exI [of _ st'] exI [of _ "ds @ es"]) (simp add: st1_def new_rotations_append ball_Un)
  qed
qed

lemma new_rotations_fresh:
  "new_rotations cs ds \<Longrightarrow> d \<in> set cs \<Longrightarrow> j < length ds \<Longrightarrow> rotate n d \<noteq> ds ! j"
proof (induction ds arbitrary: cs j)
  case (Cons a ds)
  then show ?case
  proof (cases j)
    case (Suc i)
    then show ?thesis using Cons.IH [of "cs @ [a]" i] Cons.prems by simp
  qed (auto simp: covered_def)
qed simp

lemma new_rotations_nth:
  "new_rotations cs ds \<Longrightarrow> i < j \<Longrightarrow> j < length ds \<Longrightarrow> rotate n (ds ! i) \<noteq> ds ! j"
proof (induction ds arbitrary: cs i j)
  case (Cons d ds)
  then obtain j' where j: "j = Suc j'" by (cases j) auto
  show ?case
  proof (cases i)
    case 0
    then show ?thesis using Cons.prems j new_rotations_fresh [of "cs @ [d]" ds d j' n] by simp
  next
    case (Suc i')
    then show ?thesis using Cons.IH [of "cs @ [d]" i' j'] Cons.prems j by simp
  qed
qed simp

text \<open>
  C8. \<open>find_cycles\<close> always returns, raises nothing, and yields exactly the elementary cycles of the
  graph, each once up to rotation: every list it yields is a cycle without repeated nodes, every such
  cycle of the graph is a rotation of one of them, and no yielded cycle is a rotation of another.
\<close>
theorem find_cycles_exact:
  assumes "\<And>ks. mset (key_order ks) = mset ks"
  shows "\<exists>cs. find_cycles key_order parent_children = Some (Inr cs)
    \<and> (\<forall>c \<in> set cs. elementary_cycle parent_children c)
    \<and> (\<forall>c. elementary_cycle parent_children c \<longrightarrow> (\<exists>c' \<in> set cs. \<exists>n. rotate n c' = c))
    \<and> (\<forall>i j n. i < j \<longrightarrow> j < length cs \<longrightarrow> rotate n (cs ! i) \<noteq> cs ! j)"
proof -
  let ?g = parent_children
  obtain st ds where s: "root_loop ?g (key_order (dict_keys ?g)) \<lparr>cycles = [], visited_nodes = {}, paths = []\<rparr> = Some (Inr st)"
      "cycles st = ds" "\<forall>d \<in> set ds. elementary_cycle ?g d" "new_rotations [] ds"
      "\<forall>k \<in> set (key_order (dict_keys ?g)). \<exists>r. root_done ?g (cycles st) r \<and> (edge ?g)\<^sup>*\<^sup>* r k"
    using root_loop_post [of "\<lparr>cycles = [], visited_nodes = {}, paths = []\<rparr>" ?g "key_order (dict_keys ?g)"] by auto
  have keys: "set (key_order (dict_keys ?g)) = dom (map_of ?g)"
    using mset_eq_setD [OF assms] by (simp add: set_dict_keys)
  have "covered ds c" if c: "elementary_cycle ?g c" for c
  proof -
    have "last c \<in> set c" "last c \<in> dom (map_of ?g)" using c by (auto simp: elementary_cycle_def edge_def)
    then show ?thesis using root_done_covers [OF _ c] s(2,5) keys by blast
  qed
  then show ?thesis
    using s new_rotations_nth [OF s(4)] by (intro exI [of _ ds]) (auto simp: find_cycles_def covered_def)
qed


theorem find_cycles_exact_witness:
  "find_cycles rev [(1 :: nat, [2]), (2, [3, 1]), (3, [2])] = Some (Inr [[3, 2], [2, 1]])
   \<and> elementary_cycle [(1 :: nat, [2]), (2, [3, 1]), (3, [2])] [3, 2]"
proof -
  let ?g = "[(1 :: nat, [2]), (2, [3, 1]), (3, [2])]"
  have a: "find_cycles rev ?g = Some (Inr [[3, 2], [2, 1]])"
    by (simp add: find_cycles_def cycle_loop.simps visit_child_def is_rotated_def dict_keys_def Let_def)
  show ?thesis using a find_cycles_exact [of rev ?g] by auto
qed

end
