(* ===== verification/Py_Number.thy ===== *)
theory Py_Number
  imports Complex_Main Py_String
begin

text \<open>
  The numbers of the Python 2 scripts that mix integers and floats: the kind of a result depends on the kinds of
  the operands, and \<open>/\<close> and \<open>%\<close> of two integers are floor division and its remainder. A float is the
  rational number it stands for; rounding is not modelled. Comparisons, \<open>min\<close> and \<open>max\<close> go by value, the
  latter two returning their first argument when the values are equal.
\<close>

datatype pynum = PyInt int | PyFloat rat

fun val :: "pynum \<Rightarrow> rat" where
  "val (PyInt i) = of_int i"
| "val (PyFloat q) = q"

definition num_float :: "pynum \<Rightarrow> pynum" where
  "num_float a = PyFloat (val a)"

fun num_add :: "pynum \<Rightarrow> pynum \<Rightarrow> pynum" where
  "num_add (PyInt i) (PyInt j) = PyInt (i + j)"
| "num_add a b = PyFloat (val a + val b)"

fun num_sub :: "pynum \<Rightarrow> pynum \<Rightarrow> pynum" where
  "num_sub (PyInt i) (PyInt j) = PyInt (i - j)"
| "num_sub a b = PyFloat (val a - val b)"

fun num_mul :: "pynum \<Rightarrow> pynum \<Rightarrow> pynum" where
  "num_mul (PyInt i) (PyInt j) = PyInt (i * j)"
| "num_mul a b = PyFloat (val a * val b)"

definition num_div :: "pynum \<Rightarrow> pynum \<Rightarrow> pynum result" where
  "num_div a b =
     (if val b = 0 then Inl ZeroDivisionError
      else case (a, b) of (PyInt i, PyInt j) \<Rightarrow> Inr (PyInt (i div j)) | _ \<Rightarrow> Inr (PyFloat (val a / val b)))"

definition num_mod :: "pynum \<Rightarrow> pynum \<Rightarrow> pynum result" where
  "num_mod a b =
     (if val b = 0 then Inl ZeroDivisionError
      else case (a, b) of
        (PyInt i, PyInt j) \<Rightarrow> Inr (PyInt (i mod j))
      | _ \<Rightarrow> Inr (PyFloat (val a - of_int \<lfloor>val a / val b\<rfloor> * val b)))"

definition num_max :: "pynum \<Rightarrow> pynum \<Rightarrow> pynum" where
  "num_max a b = (if val a < val b then b else a)"

definition num_min :: "pynum \<Rightarrow> pynum \<Rightarrow> pynum" where
  "num_min a b = (if val b < val a then b else a)"

lemma val_simps [simp]:
  "val (num_float a) = val a" "val (num_add a b) = val a + val b" "val (num_sub a b) = val a - val b"
  "val (num_mul a b) = val a * val b" "val (num_max a b) = max (val a) (val b)" "val (num_min a b) = min (val a) (val b)"
  by (simp_all add: num_float_def num_max_def num_min_def max_def min_def)
    (cases a; cases b; simp)+

lemma num_div_Inr:
  assumes "num_div a b = Inr c" "0 < val b"
  shows "val c \<le> val a / val b" "val a / val b < val c + 1" "\<not> (\<exists>i j. a = PyInt i \<and> b = PyInt j) \<Longrightarrow> val c = val a / val b"
proof -
  consider (int) i j where "a = PyInt i" "b = PyInt j" "c = PyInt (i div j)" "0 < j"
    | (float) "val c = val a / val b"
    using assms by (auto simp: num_div_def split: if_splits pynum.splits)
  then have "val c \<le> val a / val b \<and> val a / val b < val c + 1"
  proof cases
    case int
    have "of_int (i div j) = (of_int \<lfloor>of_int i / (of_int j :: rat)\<rfloor> :: rat)" by (simp add: floor_divide_of_int_eq)
    then show ?thesis using int floor_correct [of "of_int i / (of_int j :: rat)"] by simp
  qed simp
  then show "val c \<le> val a / val b" "val a / val b < val c + 1" by auto
  show "\<not> (\<exists>i j. a = PyInt i \<and> b = PyInt j) \<Longrightarrow> val c = val a / val b"
    using assms by (auto simp: num_div_def split: if_splits pynum.splits)
qed

lemma num_div_ok: "val b \<noteq> 0 \<Longrightarrow> \<exists>c. num_div a b = Inr c" "val b \<noteq> 0 \<Longrightarrow> \<exists>c. num_mod a b = Inr c"
  by (cases a; cases b; simp add: num_div_def num_mod_def)+

lemma num_div_nonneg:
  assumes "num_div a b = Inr c" "0 < val b" "0 \<le> val a"
  shows "0 \<le> val c"
  using assms by (cases a; cases b) (auto simp: num_div_def pos_imp_zdiv_nonneg_iff split: if_splits)

subsection \<open>Reading and printing\<close>

text \<open>
  \<open>float(s)\<close> for decimal literals, with the value of the literal as a rational number (\<open>inf\<close> and \<open>nan\<close>, which no modelled
  program writes, are taken as errors), and \<open>%.nf\<close>, which rounds half to even.
\<close>

definition float_exponent :: "string \<Rightarrow> int option" where
  "float_exponent s =
     (let neg = py_startswith s ''-'';
          d = (if neg \<or> py_startswith s ''+'' then drop 1 s else s)
      in if d \<noteq> [] \<and> list_all is_decimal d
         then Some (if neg then - int (digits_value 10 d) else int (digits_value 10 d)) else None)"

definition power_of_ten :: "int \<Rightarrow> rat" where
  "power_of_ten k = (if 0 \<le> k then 10 ^ nat k else 1 / 10 ^ nat (- k))"

definition py_float :: "string \<Rightarrow> rat result" where
  "py_float s =
     (let t = py_strip s;
          neg = py_startswith t ''-'';
          u = (if neg \<or> py_startswith t ''+'' then drop 1 t else t);
          ip = takeWhile is_decimal u;
          r = dropWhile is_decimal u;
          point = py_startswith r ''.'';
          fp = (if point then takeWhile is_decimal (drop 1 r) else []);
          e = (if point then dropWhile is_decimal (drop 1 r) else r);
          v = of_nat (digits_value 10 (ip @ fp)) / 10 ^ length fp
      in if ip @ fp = [] then Inl ValueError
         else if e = [] then Inr (if neg then - v else v)
         else if hd e \<noteq> CHR ''e'' \<and> hd e \<noteq> CHR ''E'' then Inl ValueError
         else case float_exponent (tl e) of
                None \<Rightarrow> Inl ValueError
              | Some k \<Rightarrow> Inr ((if neg then - v else v) * power_of_ten k))"

definition round_half_even :: "rat \<Rightarrow> int" where
  "round_half_even x =
     (let f = \<lfloor>x\<rfloor>; d = x - of_int f
      in if d < 1 / 2 \<or> (d = 1 / 2 \<and> even f) then f else f + 1)"

definition format_fixed :: "nat \<Rightarrow> rat \<Rightarrow> string" where
  "format_fixed n x =
     (let k = nat (round_half_even (\<bar>x\<bar> * 10 ^ n)); frac = nat_str (k mod 10 ^ n)
      in (if x < 0 then ''-'' else []) @ nat_str (k div 10 ^ n) @
         (if n = 0 then [] else ''.'' @ replicate (n - length frac) (CHR ''0'') @ frac))"

lemma py_float_nat_str [simp]: "py_float (nat_str n) = Inr (of_nat n)"
  and py_float_plus_nat_str [simp]: "py_float (CHR ''+'' # nat_str n) = Inr (of_nat n)"
proof -
  have dec: "is_decimal c" if "c \<in> set (nat_str n)" for c using nat_str_decimal that .
  obtain c r where cr: "nat_str n = c # r" by (cases "nat_str n") auto
  then have c: "is_decimal c" "is_decimal (last (nat_str n))" using dec by auto
  have strip: "py_strip (nat_str n) = nat_str n" "py_strip (CHR ''+'' # nat_str n) = CHR ''+'' # nat_str n"
    using c cr by (intro py_strip_clean; auto dest: is_decimal_not_space simp: py_space_def Let_def)+
  have sign: "\<not> py_startswith (nat_str n) ''-''" "\<not> py_startswith (nat_str n) ''+''"
    using c(1) cr by (auto simp: py_startswith_iff dest: decimal_not_sign)
  have tw: "takeWhile is_decimal (nat_str n) = nat_str n" "dropWhile is_decimal (nat_str n) = []"
    using dec by (auto simp: takeWhile_eq_all_conv dropWhile_eq_Nil_conv)
  show "py_float (nat_str n) = Inr (of_nat n)"
    using sign by (simp add: py_float_def Let_def strip tw)
  show "py_float (CHR ''+'' # nat_str n) = Inr (of_nat n)"
    by (simp add: py_float_def Let_def strip tw py_startswith_def)
qed

lemma py_int_plus_nat_str [simp]: "py_int 10 (CHR ''+'' # nat_str n) = Inr (int n)"
proof -
  have dec: "is_decimal c" if "c \<in> set (nat_str n)" for c using nat_str_decimal that .
  then have "is_decimal (last (nat_str n))" by simp
  then have "py_strip (CHR ''+'' # nat_str n) = CHR ''+'' # nat_str n"
    by (intro py_strip_clean) (auto dest: is_decimal_not_space simp: py_space_def Let_def)
  moreover have "list_all (base_digit 10) (nat_str n)" using dec by (auto simp: list_all_iff intro: is_decimal_base_digit)
  ultimately show ?thesis by (simp add: py_int_def base_prefix_def py_startswith_def)
qed

lemma round_half_even_error: "\<bar>of_int (round_half_even x) - x\<bar> \<le> 1 / 2"
proof -
  have "of_int \<lfloor>x\<rfloor> \<le> x" "x < of_int \<lfloor>x\<rfloor> + 1" by linarith+
  then show ?thesis unfolding round_half_even_def Let_def by (simp add: abs_if split: if_splits; linarith)
qed

end
