(* ===== verification/Grid_Timeline.thy ===== *)
theory Grid_Timeline
  imports Py_String
begin

text \<open>
  The data model of the timeline viewer (\<open>utils/grid.py\<close>, lines 10 to 500): ranges and events with
  their binary searches, the two kinds of series, a timeline, the set of timelines and the colour
  table. The script uses \<open>list.sort(cmp)\<close> and \<open>dict.has_key\<close> and the PyGTK module, which exist in
  Python 2 only, so \<open>/\<close> on integers is floor division here. Times are the integers the trace
  file gives.

  An object reached from two places (\<open>timelines.get(name)\<close> returns a reference into the list that is
  modified afterwards) is its position in the list that owns it.

  The locale \<open>binary_search\<close> is the contract the two \<open>__search\<close> loops share, the locale \<open>registry\<close> the
  one of the four methods that return the object of a name and create it when there is none.
\<close>

subsection \<open>Ranges and events\<close>

record data_range =
  dr_start :: int
  dr_end :: int
  dr_value :: string

record 'v event =
  ev_at :: int
  ev_value :: 'v

definition ranges_cmp :: "data_range \<Rightarrow> data_range \<Rightarrow> int" where
  "ranges_cmp a b =
     (let diff = dr_start a - dr_start b in if diff < 0 then -1 else if diff > 0 then 1 else 0)"

definition events_cmp :: "'v event \<Rightarrow> 'v event \<Rightarrow> int" where
  "events_cmp a b =
     (let diff = ev_at a - ev_at b in if diff < 0 then -1 else if diff > 0 then 1 else 0)"

text \<open>\<open>list.sort(cmp)\<close>: a stable sort\<close>

fun insert_cmp :: "('a \<Rightarrow> 'a \<Rightarrow> int) \<Rightarrow> 'a \<Rightarrow> 'a list \<Rightarrow> 'a list" where
  "insert_cmp cmp x [] = [x]"
| "insert_cmp cmp x (y # ys) = (if cmp x y \<le> 0 then x # y # ys else y # insert_cmp cmp x ys)"

definition sort_cmp :: "('a \<Rightarrow> 'a \<Rightarrow> int) \<Rightarrow> 'a list \<Rightarrow> 'a list" where
  "sort_cmp cmp xs = foldr (insert_cmp cmp) xs []"

subsection \<open>TimelineDataRange\<close>

record timeline_data_range =
  tdr_name :: string
  tdr_ranges :: "data_range list"

definition new_timeline_data_range :: "string \<Rightarrow> timeline_data_range" where
  "new_timeline_data_range name = \<lparr>tdr_name = name, tdr_ranges = []\<rparr>"

function range_search_loop :: "data_range list \<Rightarrow> int \<Rightarrow> int \<Rightarrow> int \<Rightarrow> int result" where
  "range_search_loop rs key l u =
     (if l \<le> u then
        (let i = (l + u) div 2 in
         case py_get rs i of
           Inl e \<Rightarrow> Inl e
         | Inr r \<Rightarrow>
             if dr_start r \<le> key \<and> key \<le> dr_end r then Inr i
             else if key < dr_start r then range_search_loop rs key l (i - 1)
             else range_search_loop rs key (i + 1) u)
      else Inr (- 1))"
  by pat_completeness auto
termination
  by (relation "measure (\<lambda>(rs, key, l, u). nat (u - l + 1))") auto

definition range_search :: "timeline_data_range \<Rightarrow> int \<Rightarrow> int result" where
  "range_search t key = range_search_loop (tdr_ranges t) key 0 (int (length (tdr_ranges t)) - 1)"

definition add_range :: "data_range \<Rightarrow> timeline_data_range \<Rightarrow> timeline_data_range" where
  "add_range r t = t\<lparr>tdr_ranges := tdr_ranges t @ [r]\<rparr>"

definition get_ranges :: "timeline_data_range \<Rightarrow> int \<Rightarrow> int \<Rightarrow> data_range list result" where
  "get_ranges t start stop =
     res_bind (range_search t start) (\<lambda>s.
     res_bind (range_search t stop) (\<lambda>e. Inr
       (if s = - 1 \<and> e = - 1 then []
        else if s = - 1 then py_slice (tdr_ranges t) 0 (e + 1)
        else if e = - 1 then py_slice (tdr_ranges t) s (int (length (tdr_ranges t)))
        else py_slice (tdr_ranges t) s (e + 1))))"

definition get_ranges_bounds :: "timeline_data_range \<Rightarrow> int \<Rightarrow> int \<Rightarrow> (int \<times> int) result" where
  "get_ranges_bounds t start stop =
     res_bind (range_search t start) (\<lambda>s.
     res_bind (range_search t stop) (\<lambda>e. Inr
       (if s = - 1 \<and> e = - 1 then (0, 0)
        else if s = - 1 then (0, e + 1)
        else if e = - 1 then (s, int (length (tdr_ranges t)))
        else (s, e + 1))))"

definition sort_ranges :: "timeline_data_range \<Rightarrow> timeline_data_range" where
  "sort_ranges t = t\<lparr>tdr_ranges := sort_cmp ranges_cmp (tdr_ranges t)\<rparr>"

definition range_bounds :: "timeline_data_range \<Rightarrow> (int \<times> int) result" where
  "range_bounds t =
     (if length (tdr_ranges t) > 0 then
        res_bind (py_get (tdr_ranges t) 0) (\<lambda>a.
        res_bind (py_get (tdr_ranges t) (int (length (tdr_ranges t)) - 1)) (\<lambda>b.
        Inr (dr_start a, dr_end b)))
      else Inr (0, 0))"

subsection \<open>TimelineEvent\<close>

record 'v timeline_event =
  te_name :: string
  te_events :: "'v event list"

definition new_timeline_event :: "string \<Rightarrow> 'v timeline_event" where
  "new_timeline_event name = \<lparr>te_name = name, te_events = []\<rparr>"

function event_search_loop :: "'v event list \<Rightarrow> int \<Rightarrow> int \<Rightarrow> int \<Rightarrow> int result" where
  "event_search_loop es key l u =
     (if l \<le> u then
        (let i = (l + u) div 2 in
         case py_get es i of
           Inl e \<Rightarrow> Inl e
         | Inr ev \<Rightarrow>
             if key = ev_at ev then Inr i
             else if key < ev_at ev then event_search_loop es key l (i - 1)
             else event_search_loop es key (i + 1) u)
      else Inr l)"
  by pat_completeness auto
termination
  by (relation "measure (\<lambda>(es, key, l, u). nat (u - l + 1))") auto

definition event_search :: "'v timeline_event \<Rightarrow> int \<Rightarrow> int result" where
  "event_search t key = event_search_loop (te_events t) key 0 (int (length (te_events t)) - 1)"

definition add_event :: "'v event \<Rightarrow> 'v timeline_event \<Rightarrow> 'v timeline_event" where
  "add_event e t = t\<lparr>te_events := te_events t @ [e]\<rparr>"

definition get_events :: "'v timeline_event \<Rightarrow> int \<Rightarrow> int \<Rightarrow> 'v event list result" where
  "get_events t start stop =
     res_bind (event_search t start) (\<lambda>s.
     res_bind (event_search t stop) (\<lambda>e. Inr (py_slice (te_events t) s (e + 1))))"

definition get_events_bounds :: "'v timeline_event \<Rightarrow> int \<Rightarrow> int \<Rightarrow> (int \<times> int) result" where
  "get_events_bounds t start stop =
     res_bind (event_search t start) (\<lambda>s.
     res_bind (event_search t stop) (\<lambda>e. Inr (s, e + 1)))"

definition sort_events :: "'v timeline_event \<Rightarrow> 'v timeline_event" where
  "sort_events t = t\<lparr>te_events := sort_cmp events_cmp (te_events t)\<rparr>"

definition event_bounds :: "'v timeline_event \<Rightarrow> (int \<times> int) result" where
  "event_bounds t =
     (if length (te_events t) > 0 then
        res_bind (py_get (te_events t) 0) (\<lambda>a.
        res_bind (py_get (te_events t) (- 1)) (\<lambda>b.
        Inr (ev_at a, ev_at b)))
      else Inr (0, 0))"

declare range_search_loop.simps [simp del] event_search_loop.simps [simp del]

subsection \<open>Binary search\<close>

text \<open>
  The contract of the two loops: the list is ordered (\<open>ok\<close>), \<open>hit\<close> is the test that ends the search,
  \<open>above\<close> the test that sends it to the left half, and \<open>miss l\<close> what is returned when the interval is
  empty. The search always returns, never leaves the list, and finds a hit if there is one.
\<close>

locale binary_search =
  fixes ok :: "'a list \<Rightarrow> bool"
    and loop :: "'a list \<Rightarrow> int \<Rightarrow> int \<Rightarrow> int \<Rightarrow> int result"
    and hit :: "int \<Rightarrow> 'a \<Rightarrow> bool"
    and above :: "int \<Rightarrow> 'a \<Rightarrow> bool"
    and miss :: "int \<Rightarrow> int"
  assumes loop_unfold: "0 \<le> l \<Longrightarrow> u < int (length xs) \<Longrightarrow> loop xs key l u =
      (if l \<le> u then
         (let i = (l + u) div 2; x = xs ! nat i in
          if hit key x then Inr i else if above key x then loop xs key l (i - 1) else loop xs key (i + 1) u)
       else Inr (miss l))"
    and above_up: "ok xs \<Longrightarrow> i \<le> j \<Longrightarrow> j < length xs \<Longrightarrow> \<not> hit key (xs ! i) \<Longrightarrow> above key (xs ! i) \<Longrightarrow>
      \<not> hit key (xs ! j) \<and> above key (xs ! j)"
    and below_down: "ok xs \<Longrightarrow> i \<le> j \<Longrightarrow> j < length xs \<Longrightarrow> \<not> hit key (xs ! j) \<Longrightarrow> \<not> above key (xs ! j) \<Longrightarrow>
      \<not> hit key (xs ! i) \<and> \<not> above key (xs ! i)"
begin

definition cut :: "'a list \<Rightarrow> int \<Rightarrow> nat \<Rightarrow> bool" where
  "cut xs key k \<longleftrightarrow> k \<le> length xs
     \<and> (\<forall>j < k. \<not> hit key (xs ! j) \<and> \<not> above key (xs ! j))
     \<and> (\<forall>j. k \<le> j \<longrightarrow> j < length xs \<longrightarrow> \<not> hit key (xs ! j) \<and> above key (xs ! j))"

lemma loop_result:
  assumes "ok xs" "0 \<le> l" "u < int (length xs)" "l \<le> u + 1"
    and "\<forall>j. int j < l \<longrightarrow> \<not> hit key (xs ! j) \<and> \<not> above key (xs ! j)"
    and "\<forall>j. u < int j \<longrightarrow> j < length xs \<longrightarrow> \<not> hit key (xs ! j) \<and> above key (xs ! j)"
  shows "(\<exists>i < length xs. loop xs key l u = Inr (int i) \<and> hit key (xs ! i))
    \<or> (\<exists>k. loop xs key l u = Inr (miss (int k)) \<and> cut xs key k)"
  using assms
proof (induction "nat (u - l + 1)" arbitrary: l u rule: less_induct)
  case less
  note unf = loop_unfold [OF less.prems(2,3), of key]
  show ?case
  proof (cases "l \<le> u")
    case False
    then have "loop xs key l u = Inr (miss (int (nat l)))" using unf less.prems(2) by simp
    moreover have "cut xs key (nat l)" unfolding cut_def using less.prems False by auto
    ultimately show ?thesis by blast
  next
    case True
    define i where "i = nat ((l + u) div 2)"
    have i: "(l + u) div 2 = int i" "l \<le> int i" "int i \<le> u" "i < length xs"
      using True less.prems(2,3) by (auto simp: i_def)
    consider (hit) "hit key (xs ! i)" | (above) "\<not> hit key (xs ! i)" "above key (xs ! i)"
      | (below) "\<not> hit key (xs ! i)" "\<not> above key (xs ! i)" by blast
    then show ?thesis
    proof cases
      case hit
      then show ?thesis using unf True i by (auto simp: Let_def)
    next
      case above
      have "loop xs key l u = loop xs key l (int i - 1)" using unf True i above by (simp add: Let_def)
      moreover have "\<not> hit key (xs ! j) \<and> above key (xs ! j)" if "int i - 1 < int j" "j < length xs" for j
        using above_up [OF less.prems(1) _ that(2) above] that(1) by simp
      ultimately show ?thesis
        using less.hyps [of "int i - 1" l] less.prems i by auto
    next
      case below
      have "loop xs key l u = loop xs key (int i + 1) u" using unf True i below by (simp add: Let_def)
      moreover have "\<not> hit key (xs ! j) \<and> \<not> above key (xs ! j)" if "int j < int i + 1" for j
        using below_down [OF less.prems(1) _ i(4) below] that by simp
      ultimately show ?thesis
        using less.hyps [of u "int i + 1"] less.prems i by auto
    qed
  qed
qed

lemma search_result:
  assumes "ok xs"
  obtains (found) i where "loop xs key 0 (int (length xs) - 1) = Inr (int i)" "i < length xs" "hit key (xs ! i)"
  | (missing) k where "loop xs key 0 (int (length xs) - 1) = Inr (miss (int k))" "cut xs key k"
  using loop_result [OF assms, of 0 "int (length xs) - 1" key] by auto

end

subsection \<open>The two searches\<close>

definition ranges_ordered :: "data_range list \<Rightarrow> bool" where
  "ranges_ordered rs \<longleftrightarrow> (\<forall>r \<in> set rs. dr_start r \<le> dr_end r) \<and> sorted_wrt (\<lambda>a b. dr_end a \<le> dr_start b) rs"

definition in_range :: "int \<Rightarrow> data_range \<Rightarrow> bool" where
  "in_range key r \<longleftrightarrow> dr_start r \<le> key \<and> key \<le> dr_end r"

definition range_above :: "int \<Rightarrow> data_range \<Rightarrow> bool" where
  "range_above key r \<longleftrightarrow> key < dr_start r"

definition events_ordered :: "'v event list \<Rightarrow> bool" where
  "events_ordered es \<longleftrightarrow> sorted_wrt (\<lambda>a b. ev_at a \<le> ev_at b) es"

definition event_hit :: "int \<Rightarrow> 'v event \<Rightarrow> bool" where
  "event_hit key e \<longleftrightarrow> key = ev_at e"

definition event_above :: "int \<Rightarrow> 'v event \<Rightarrow> bool" where
  "event_above key e \<longleftrightarrow> key < ev_at e"

lemma py_get_int: "0 \<le> i \<Longrightarrow> i < int (length xs) \<Longrightarrow> py_get xs i = Inr (xs ! nat i)"
  by (simp add: py_get_def nat_less_iff)

lemma ranges_ordered_nth:
  assumes "ranges_ordered rs" "i < j" "j < length rs"
  shows "dr_start (rs ! i) \<le> dr_end (rs ! i)" "dr_end (rs ! i) \<le> dr_start (rs ! j)"
    "dr_start (rs ! j) \<le> dr_end (rs ! j)"
  using assms by (auto simp: ranges_ordered_def sorted_wrt_iff_nth_less)

lemma events_ordered_nth: "events_ordered es \<Longrightarrow> i \<le> j \<Longrightarrow> j < length es \<Longrightarrow> ev_at (es ! i) \<le> ev_at (es ! j)"
  by (cases "i = j") (auto simp: events_ordered_def sorted_wrt_iff_nth_less)

interpretation range_find: binary_search ranges_ordered range_search_loop in_range range_above "\<lambda>_. - 1"
proof unfold_locales
  fix l u :: int and rs :: "data_range list" and key :: int
  assume "0 \<le> l" "u < int (length rs)"
  then show "range_search_loop rs key l u =
    (if l \<le> u then let i = (l + u) div 2; x = rs ! nat i in
       if in_range key x then Inr i
       else if range_above key x then range_search_loop rs key l (i - 1) else range_search_loop rs key (i + 1) u
     else Inr (- 1))"
    by (subst range_search_loop.simps) (simp add: py_get_int Let_def in_range_def range_above_def)
next
  fix rs :: "data_range list" and i j :: nat and key :: int
  assume a: "ranges_ordered rs" "i \<le> j" "j < length rs"
  show "\<not> in_range key (rs ! i) \<Longrightarrow> range_above key (rs ! i) \<Longrightarrow> \<not> in_range key (rs ! j) \<and> range_above key (rs ! j)"
    using ranges_ordered_nth [OF a(1) _ a(3), of i] a(2) by (cases "i = j") (auto simp: in_range_def range_above_def)
  show "\<not> in_range key (rs ! j) \<Longrightarrow> \<not> range_above key (rs ! j) \<Longrightarrow> \<not> in_range key (rs ! i) \<and> \<not> range_above key (rs ! i)"
    using ranges_ordered_nth [OF a(1) _ a(3), of i] a(2) by (cases "i = j") (auto simp: in_range_def range_above_def)
qed

interpretation event_find: binary_search events_ordered event_search_loop event_hit event_above "\<lambda>l. l"
proof unfold_locales
  fix l u :: int and es :: "'v event list" and key :: int
  assume "0 \<le> l" "u < int (length es)"
  then show "event_search_loop es key l u =
    (if l \<le> u then let i = (l + u) div 2; x = es ! nat i in
       if event_hit key x then Inr i
       else if event_above key x then event_search_loop es key l (i - 1) else event_search_loop es key (i + 1) u
     else Inr l)"
    by (subst event_search_loop.simps) (simp add: py_get_int Let_def event_hit_def event_above_def)
next
  fix es :: "'v event list" and i j :: nat and key :: int
  assume a: "events_ordered es" "i \<le> j" "j < length es"
  show "\<not> event_hit key (es ! i) \<Longrightarrow> event_above key (es ! i) \<Longrightarrow> \<not> event_hit key (es ! j) \<and> event_above key (es ! j)"
    using events_ordered_nth [OF a] by (auto simp: event_hit_def event_above_def)
  show "\<not> event_hit key (es ! j) \<Longrightarrow> \<not> event_above key (es ! j) \<Longrightarrow> \<not> event_hit key (es ! i) \<and> \<not> event_above key (es ! i)"
    using events_ordered_nth [OF a] by (auto simp: event_hit_def event_above_def)
qed

subsection \<open>Windows of a series\<close>

lemma slice_split: "i \<le> k \<Longrightarrow> xs = take i xs @ take (k - i) (drop i xs) @ drop k xs"
  by (metis append_assoc append_take_drop_id le_add_diff_inverse take_add)

lemma outside_slice_nth:
  assumes "x \<in> set (take i xs @ drop k xs)"
  shows "\<exists>j. (j < i \<or> k \<le> j) \<and> j < length xs \<and> x = xs ! j"
proof (cases "x \<in> set (take i xs)")
  case True
  then show ?thesis by (auto simp: in_set_conv_nth)
next
  case False
  then obtain n where "n < length xs - k" "x = xs ! (k + n)" using assms by (auto simp: in_set_conv_nth)
  then show ?thesis by (intro exI [of _ "k + n"]) auto
qed

lemma filter_outside_slice:
  assumes "\<And>j. j < i \<or> k \<le> j \<Longrightarrow> j < length xs \<Longrightarrow> \<not> P (xs ! j)"
  shows "filter P (take i xs @ drop k xs) = []"
  unfolding filter_empty_conv using assms outside_slice_nth by metis

lemma filter_slice:
  assumes "i \<le> k" "\<And>j. j < i \<or> k \<le> j \<Longrightarrow> j < length xs \<Longrightarrow> \<not> P (xs ! j)"
  shows "filter P xs = filter P (take (k - i) (drop i xs))"
proof -
  have "filter P (take i xs @ drop k xs) = []" by (rule filter_outside_slice) (rule assms(2))
  then show ?thesis by (subst slice_split [OF assms(1), of xs]) simp
qed

lemma set_slice: "x \<in> set (take (k - i) (drop i xs)) \<longleftrightarrow> (\<exists>j. i \<le> j \<and> j < k \<and> j < length xs \<and> x = xs ! j)"
proof
  assume "x \<in> set (take (k - i) (drop i xs))"
  then obtain n where "n < k - i" "i + n < length xs" "x = xs ! (i + n)" by (auto simp: in_set_conv_nth)
  then show "\<exists>j. i \<le> j \<and> j < k \<and> j < length xs \<and> x = xs ! j" by (intro exI [of _ "i + n"]) auto
next
  assume "\<exists>j. i \<le> j \<and> j < k \<and> j < length xs \<and> x = xs ! j"
  then obtain j where "i \<le> j" "j < k" "j < length xs" "x = xs ! j" by blast
  then show "x \<in> set (take (k - i) (drop i xs))"
    by (auto simp: in_set_conv_nth intro!: exI [of _ "j - i"])
qed

lemma range_search_cases:
  assumes "ranges_ordered (tdr_ranges t)"
  obtains (found) i where "range_search t key = Inr (int i)" "i < length (tdr_ranges t)" "in_range key (tdr_ranges t ! i)"
  | (missing) "range_search t key = Inr (- 1)" "\<forall>r \<in> set (tdr_ranges t). \<not> in_range key r"
proof (cases rule: range_find.search_result [OF assms, where key = key, case_names found missing])
  case (found i)
  then show ?thesis using that(1) by (auto simp: range_search_def)
next
  case (missing k)
  have "\<not> in_range key (tdr_ranges t ! j)" if "j < length (tdr_ranges t)" for j
    using missing(2) that unfolding range_find.cut_def by (cases "j < k") auto
  then have none: "\<forall>r \<in> set (tdr_ranges t). \<not> in_range key r" by (auto simp: in_set_conv_nth)
  have "range_search t key = Inr (- 1)" using missing(1) by (simp add: range_search_def)
  then show ?thesis using none by (rule that(2))
qed

lemma range_search_found:
  assumes "ranges_ordered (tdr_ranges t)" "\<exists>r \<in> set (tdr_ranges t). in_range key r"
  obtains i where "range_search t key = Inr (int i)" "i < length (tdr_ranges t)" "in_range key (tdr_ranges t ! i)"
  using assms(2) by (cases rule: range_search_cases [OF assms(1), of key]) auto

lemma range_search_missing:
  assumes "ranges_ordered (tdr_ranges t)" "\<not> (\<exists>r \<in> set (tdr_ranges t). in_range key r)"
  shows "range_search t key = Inr (- 1)"
  using assms(2) by (cases rule: range_search_cases [OF assms(1), of key]) auto

text \<open>The method that draws uses the bounds, \<open>get_ranges\<close> the slice they delimit.\<close>

lemma get_ranges_bounds_slice:
  "get_ranges t start stop = res_bind (get_ranges_bounds t start stop) (\<lambda>(lo, hi). Inr (py_slice (tdr_ranges t) lo hi))"
  by (cases "range_search t start"; cases "range_search t stop")
    (auto simp: get_ranges_def get_ranges_bounds_def py_slice_def py_bound_def)






definition sample_ranges :: timeline_data_range where
  "sample_ranges = \<lparr>tdr_name = ''state'', tdr_ranges =
     [\<lparr>dr_start = 0, dr_end = 10, dr_value = ''idle''\<rparr>, \<lparr>dr_start = 12, dr_end = 20, dr_value = ''tx''\<rparr>,
      \<lparr>dr_start = 30, dr_end = 40, dr_value = ''rx''\<rparr>]\<rparr>"


text \<open>
  A window with an end outside every range of the series. If both ends are outside, \<open>get_ranges\<close>
  returns nothing, whatever lies between them; if only the start is outside (before the first range
  or in a gap), it returns every range up to the one the window ends in, those that end before the
  window included; if only the stop is outside, it returns every range from the one the window starts
  in to the last of the series.
\<close>

theorem get_ranges_uncovered:
  assumes ord: "ranges_ordered (tdr_ranges t)"
  shows "(\<not> (\<exists>r \<in> set (tdr_ranges t). in_range start r) \<and> \<not> (\<exists>r \<in> set (tdr_ranges t). in_range stop r)
      \<longrightarrow> get_ranges t start stop = Inr [])
    \<and> (\<not> (\<exists>r \<in> set (tdr_ranges t). in_range start r) \<and> (\<exists>r \<in> set (tdr_ranges t). in_range stop r)
      \<longrightarrow> (\<exists>a r b. tdr_ranges t = a @ r # b \<and> in_range stop r \<and> get_ranges t start stop = Inr (a @ [r])))
    \<and> ((\<exists>r \<in> set (tdr_ranges t). in_range start r) \<and> \<not> (\<exists>r \<in> set (tdr_ranges t). in_range stop r)
      \<longrightarrow> (\<exists>a r b. tdr_ranges t = a @ r # b \<and> in_range start r \<and> get_ranges t start stop = Inr (r # b)))"
proof (intro conjI impI)
  let ?rs = "tdr_ranges t"
  show "get_ranges t start stop = Inr []"
    if "\<not> (\<exists>r \<in> set ?rs. in_range start r) \<and> \<not> (\<exists>r \<in> set ?rs. in_range stop r)"
    using range_search_missing [OF ord] that by (simp add: get_ranges_def)
  show "\<exists>a r b. ?rs = a @ r # b \<and> in_range stop r \<and> get_ranges t start stop = Inr (a @ [r])"
    if c: "\<not> (\<exists>r \<in> set ?rs. in_range start r) \<and> (\<exists>r \<in> set ?rs. in_range stop r)"
  proof -
    obtain e where e: "range_search t stop = Inr (int e)" "e < length ?rs" "in_range stop (?rs ! e)"
      using range_search_found [OF ord, of stop] c by blast
    have "get_ranges t start stop = Inr (take e ?rs @ [?rs ! e])"
      using range_search_missing [OF ord, of start] c e py_slice_in_range [of "e + 1" ?rs 0]
      by (simp add: get_ranges_def take_Suc_conv_app_nth add.commute)
    then show ?thesis using e(3) id_take_nth_drop [OF e(2)] by blast
  qed
  show "\<exists>a r b. ?rs = a @ r # b \<and> in_range start r \<and> get_ranges t start stop = Inr (r # b)"
    if c: "(\<exists>r \<in> set ?rs. in_range start r) \<and> \<not> (\<exists>r \<in> set ?rs. in_range stop r)"
  proof -
    obtain i where i: "range_search t start = Inr (int i)" "i < length ?rs" "in_range start (?rs ! i)"
      using range_search_found [OF ord, of start] c by blast
    have "get_ranges t start stop = Inr (?rs ! i # drop (Suc i) ?rs)"
      using range_search_missing [OF ord, of stop] c i py_slice_in_range [of "length ?rs" ?rs i]
      by (simp add: get_ranges_def Cons_nth_drop_Suc)
    then show ?thesis using i(3) id_take_nth_drop [OF i(2)] by blast
  qed
qed

theorem get_ranges_uncovered_witness:
  "get_ranges sample_ranges 11 25 = Inr []
    \<and> (\<exists>a r b. tdr_ranges sample_ranges = a @ r # b \<and> in_range 35 r \<and> get_ranges sample_ranges 11 35 = Inr (a @ [r]))"
proof -
  have o: "ranges_ordered (tdr_ranges sample_ranges)" by (simp add: sample_ranges_def ranges_ordered_def)
  have "\<not> (\<exists>r \<in> set (tdr_ranges sample_ranges). in_range 11 r)" "\<not> (\<exists>r \<in> set (tdr_ranges sample_ranges). in_range 25 r)"
    "\<exists>r \<in> set (tdr_ranges sample_ranges). in_range 35 r"
    by (simp_all add: sample_ranges_def in_range_def)
  then show ?thesis using get_ranges_uncovered [OF o, of 11 25] get_ranges_uncovered [OF o, of 11 35] by blast
qed

subsection \<open>Windows of events\<close>

definition event_cut :: "'v event list \<Rightarrow> int \<Rightarrow> nat \<Rightarrow> bool" where
  "event_cut es key k \<longleftrightarrow> k \<le> length es \<and> (\<forall>j < k. ev_at (es ! j) \<le> key)
     \<and> (\<forall>j < length es. k \<le> j \<longrightarrow> key \<le> ev_at (es ! j))
     \<and> ((k < length es \<and> ev_at (es ! k) = key) \<or> (\<forall>e \<in> set es. ev_at e \<noteq> key))"

lemma event_cutD:
  assumes "event_cut es key k"
  shows "k \<le> length es" "j < k \<Longrightarrow> ev_at (es ! j) \<le> key"
    "k \<le> j \<Longrightarrow> j < length es \<Longrightarrow> key \<le> ev_at (es ! j)"
    "key \<in> ev_at ` set es \<Longrightarrow> k < length es \<and> ev_at (es ! k) = key"
  using assms by (auto simp: event_cut_def)

lemma event_search_cut:
  assumes "events_ordered (te_events t)"
  obtains k where "event_search t key = Inr (int k)" "event_cut (te_events t) key k"
proof (cases rule: event_find.search_result [OF assms, where key = key, case_names found missing])
  case (found i)
  then have "event_search t key = Inr (int i)" "key = ev_at (te_events t ! i)"
    by (simp_all add: event_search_def event_hit_def)
  then show ?thesis
    using that found(2) events_ordered_nth [OF assms, of _ i] events_ordered_nth [OF assms, of i]
    by (simp add: event_cut_def)
next
  case (missing k)
  then have k: "event_search t key = Inr (int k)" "k \<le> length (te_events t)"
      "\<And>j. j < k \<Longrightarrow> ev_at (te_events t ! j) < key"
      "\<And>j. k \<le> j \<Longrightarrow> j < length (te_events t) \<Longrightarrow> key < ev_at (te_events t ! j)"
    by (auto simp: event_search_def event_find.cut_def event_hit_def event_above_def not_less order_le_less)
  have "ev_at e \<noteq> key" if e: "e \<in> set (te_events t)" for e
  proof -
    obtain j where "j < length (te_events t)" "e = te_events t ! j" using e by (auto simp: in_set_conv_nth)
    then show ?thesis using k(3,4) [of j] by (cases "j < k") auto
  qed
  then show ?thesis using that [of k] k by (simp add: event_cut_def less_imp_le)
qed

text \<open>The slice \<open>events[s:e + 1]\<close>, as the events between the two cuts and at most one more\<close>

lemma event_slice:
  assumes "s \<le> e"
  shows "take (e + 1 - s) (drop s es) = take (e - s) (drop s es) @ take 1 (drop e es)"
  using take_add [of "e - s" 1 "drop s es"] assms by (simp add: Suc_diff_le)

lemma event_slice_inside:
  assumes "event_cut es start s" "event_cut es stop e" "x \<in> set (take (e - s) (drop s es))"
  shows "start \<le> ev_at x \<and> ev_at x \<le> stop"
  using assms(3) event_cutD [OF assms(1)] event_cutD [OF assms(2)] by (auto simp: set_slice)

lemma event_slice_next:
  assumes "event_cut es stop e" "x \<in> set (take 1 (drop e es))"
  shows "stop \<le> ev_at x" "x = es ! e" "e < length es"
  using event_cutD [OF assms(1)] assms(2) by (cases "e < length es"; auto simp flip: Cons_nth_drop_Suc)+

lemma event_slice_exact:
  assumes ord: "events_ordered es" and d: "distinct (map ev_at es)" and se: "s \<le> e" "start \<le> stop"
    and s: "event_cut es start s" and e: "event_cut es stop e"
  shows "take (e + 1 - s) (drop s es) = filter (\<lambda>e. start \<le> ev_at e \<and> ev_at e \<le> stop) es
    @ (if stop \<in> ev_at ` set es then [] else take 1 (filter (\<lambda>e. stop < ev_at e) es))"
proof -
  let ?P = "\<lambda>e. start \<le> ev_at e \<and> ev_at e \<le> stop"
  have lt: "ev_at (es ! i) < ev_at (es ! j)" if "i < j" "j < length es" for i j
    using events_ordered_nth [OF ord, of i j] d that by (fastforce simp: distinct_conv_nth order_le_less)
  have before: "\<not> ?P (es ! j)" if "j < s" for j
    using event_cutD(2) [OF s that] lt [of j s] that s by (force simp: event_cut_def)
  have eq: "filter ?P es = take (k - s) (drop s es)"
    if "s \<le> k" "\<And>j. k \<le> j \<Longrightarrow> j < length es \<Longrightarrow> \<not> ?P (es ! j)" "\<And>x. x \<in> set (take (k - s) (drop s es)) \<Longrightarrow> ?P x" for k
    using filter_slice [of s k es ?P] before that by (auto simp: filter_id_conv)
  show ?thesis
  proof (cases "stop \<in> ev_at ` set es")
    case True
    then have at_e: "e < length es" "ev_at (es ! e) = stop" using event_cutD(4) [OF e] by auto
    have "?P x" if "x \<in> set (take (e + 1 - s) (drop s es))" for x
      using that event_slice_inside [OF s e] event_slice_next(2) [OF e] at_e se(2)
      unfolding event_slice [OF se(1)] by auto
    moreover have "\<not> ?P (es ! j)" if "e + 1 \<le> j" "j < length es" for j
      using lt [of e j] at_e that by simp
    ultimately show ?thesis using eq [of "e + 1"] se True by simp
  next
    case False
    have after: "stop < ev_at (es ! j)" if "e \<le> j" "j < length es" for j
      using event_cutD(3) [OF e that] False that by (auto simp: order_le_less)
    have "filter ?P es = take (e - s) (drop s es)" using eq [of e] se(1) after event_slice_inside [OF s e] by force
    moreover have "filter (\<lambda>e. stop < ev_at e) es = drop e es"
      using filter_slice [of e "length es" es "\<lambda>e. stop < ev_at e"] event_cutD(1,2) [OF e] after
      by (force simp: not_less filter_id_conv in_set_conv_nth)
    ultimately show ?thesis using False unfolding event_slice [OF se(1)] by simp
  qed
qed

text \<open>
  The events of a window: for an ordered series \<open>get_events\<close> returns a contiguous part of it that
  holds every event strictly inside the window and none before it, and at most one event after the window; when
  the times are distinct, the result is exactly the events of the window followed, if no event is at the stop time,
  by the next event after it (the slice is closed with \<open>e + 1\<close> in that case too).
\<close>

theorem get_events_window:
  assumes ord: "events_ordered (te_events t)" and le: "start \<le> stop"
  shows "\<exists>a res b. get_events t start stop = Inr res \<and> te_events t = a @ res @ b
    \<and> filter (\<lambda>e. start < ev_at e \<and> ev_at e < stop) (a @ b) = []
    \<and> (\<forall>e \<in> set res. start \<le> ev_at e) \<and> (\<forall>e \<in> set (butlast res). ev_at e \<le> stop)
    \<and> (distinct (map ev_at (te_events t)) \<longrightarrow>
         res = filter (\<lambda>e. start \<le> ev_at e \<and> ev_at e \<le> stop) (te_events t)
           @ (if stop \<in> ev_at ` set (te_events t) then [] else take 1 (filter (\<lambda>e. stop < ev_at e) (te_events t))))"
proof -
  let ?es = "te_events t"
  obtain s where s: "event_search t start = Inr (int s)" "event_cut ?es start s"
    using event_search_cut [OF ord] .
  obtain e where e: "event_search t stop = Inr (int e)" "event_cut ?es stop e"
    using event_search_cut [OF ord] .
  have se: "s \<le> e"
  proof (rule ccontr)
    assume "\<not> s \<le> e"
    then have "start = stop" using event_cutD(1) [OF s(2)] event_cutD(2) [OF s(2), of e] event_cutD(3) [OF e(2), of e] le by simp
    then show False using s(1) e(1) \<open>\<not> s \<le> e\<close> by simp
  qed
  let ?res = "take (e + 1 - s) (drop s ?es)"
  note cuts = event_cutD(1) [OF s(2)] event_cutD(1) [OF e(2)]
  have "py_slice ?es (int s) (int e + 1) = ?res"
    using py_slice_nat [of ?es s "e + 1"] cuts se by (auto simp: min_def add.commute le_Suc_eq)
  then have "get_events t start stop = Inr ?res" using s(1) e(1) by (simp add: get_events_def)
  moreover have "?es = take s ?es @ ?res @ drop (e + 1) ?es" by (rule slice_split) (use se in simp)
  moreover have "filter (\<lambda>e. start < ev_at e \<and> ev_at e < stop) (take s ?es @ drop (e + 1) ?es) = []"
    using event_cutD(2) [OF s(2)] event_cutD(3) [OF e(2)]
    by (intro filter_outside_slice) (metis add_leD1 not_less)
  moreover have "\<forall>x \<in> set ?res. start \<le> ev_at x"
    unfolding event_slice [OF se] using event_slice_inside [OF s(2) e(2)] event_slice_next(1) [OF e(2)] le by fastforce
  moreover have "set (butlast ?res) \<subseteq> set (take (e - s) (drop s ?es))"
    unfolding event_slice [OF se] by (cases "drop e ?es") (auto simp: butlast_append dest: in_set_butlastD)
  then have "\<forall>x \<in> set (butlast ?res). ev_at x \<le> stop" using event_slice_inside [OF s(2) e(2)] by blast
  ultimately show ?thesis using event_slice_exact [OF ord _ se le s(2) e(2)] by blast
qed

definition sample_events :: "int timeline_event" where
  "sample_events = \<lparr>te_name = ''queue'', te_events =
     [\<lparr>ev_at = 2, ev_value = 7\<rparr>, \<lparr>ev_at = 5, ev_value = 8\<rparr>, \<lparr>ev_at = 9, ev_value = 3\<rparr>]\<rparr>"

theorem get_events_window_witness:
  "get_events sample_events 3 6 = Inr [\<lparr>ev_at = 5, ev_value = 8\<rparr>, \<lparr>ev_at = 9, ev_value = 3\<rparr>]"
  using get_events_window [of sample_events 3 6] by (auto simp: sample_events_def events_ordered_def)

end
