(* ===== verification/Grid_Trace.thy ===== *)
theory Grid_Trace
  imports Grid_Timeline
begin

text \<open>
  The collections of the timeline viewer (\<open>utils/grid.py\<close>): \<open>Timeline\<close>, \<open>Timelines\<close>, \<open>Colors\<close>, the trace
  reader \<open>read_data\<close> and the part of \<open>main\<close> that assigns the legend's colours. The locale \<open>registry\<close>
  is the contract of the methods that return the object of a name and create it when there is none; with
  it the reader is shown to refine a specification that groups the lines of the file by name.
\<close>

subsection \<open>Timeline and Timelines\<close>

record timeline =
  tl_name :: string
  tl_ranges :: "timeline_data_range list"
  tl_event_str :: "string timeline_event list"
  tl_event_int :: "int timeline_event list"

definition new_timeline :: "string \<Rightarrow> timeline" where
  "new_timeline name = \<lparr>tl_name = name, tl_ranges = [], tl_event_str = [], tl_event_int = []\<rparr>"

text \<open>The position of the first object of the name, as the getters' loops find it\<close>

fun index_named :: "('o \<Rightarrow> string) \<Rightarrow> string \<Rightarrow> 'o list \<Rightarrow> nat option" where
  "index_named name_of n [] = None"
| "index_named name_of n (x # xs) =
     (if name_of x = n then Some 0 else map_option Suc (index_named name_of n xs))"

definition get_range :: "string \<Rightarrow> timeline \<Rightarrow> timeline \<times> nat" where
  "get_range name t =
     (case index_named tdr_name name (tl_ranges t) of
        Some i \<Rightarrow> (t, i)
      | None \<Rightarrow> (t\<lparr>tl_ranges := tl_ranges t @ [new_timeline_data_range name]\<rparr>, length (tl_ranges t)))"

definition get_event_str :: "string \<Rightarrow> timeline \<Rightarrow> timeline \<times> nat" where
  "get_event_str name t =
     (case index_named te_name name (tl_event_str t) of
        Some i \<Rightarrow> (t, i)
      | None \<Rightarrow> (t\<lparr>tl_event_str := tl_event_str t @ [new_timeline_event name]\<rparr>, length (tl_event_str t)))"

definition get_event_int :: "string \<Rightarrow> timeline \<Rightarrow> timeline \<times> nat" where
  "get_event_int name t =
     (case index_named te_name name (tl_event_int t) of
        Some i \<Rightarrow> (t, i)
      | None \<Rightarrow> (t\<lparr>tl_event_int := tl_event_int t @ [new_timeline_event name]\<rparr>, length (tl_event_int t)))"

definition sort_timeline :: "timeline \<Rightarrow> timeline" where
  "sort_timeline t =
     t\<lparr>tl_ranges := map sort_ranges (tl_ranges t),
       tl_event_int := map sort_events (tl_event_int t),
       tl_event_str := map sort_events (tl_event_str t)\<rparr>"

text \<open>\<open>if a < lo: lo = a\<close> and \<open>if b > hi: hi = b\<close>\<close>

definition widen :: "int \<times> int \<Rightarrow> int \<times> int \<Rightarrow> int \<times> int" where
  "widen b x = (if fst x < fst b then fst x else fst b, if snd x > snd b then snd x else snd b)"

definition timeline_bounds :: "timeline \<Rightarrow> (int \<times> int) result" where
  "timeline_bounds t =
     res_bind (res_fold (\<lambda>b r. res_bind (range_bounds r) (\<lambda>x. Inr (widen b x))) (0, 0) (tl_ranges t)) (\<lambda>b.
     res_bind (res_fold (\<lambda>b e. res_bind (event_bounds e) (\<lambda>x. Inr (widen b x))) b (tl_event_str t)) (\<lambda>b.
     res_fold (\<lambda>b e. res_bind (event_bounds e) (\<lambda>x. Inr (widen b x))) b (tl_event_int t)))"

type_synonym timelines = "timeline list"

definition timelines_get :: "string \<Rightarrow> timelines \<Rightarrow> timelines \<times> nat" where
  "timelines_get name ts =
     (case index_named tl_name name ts of
        Some i \<Rightarrow> (ts, i)
      | None \<Rightarrow> (ts @ [new_timeline name], length ts))"

definition sort_timelines :: "timelines \<Rightarrow> timelines" where
  "sort_timelines ts = map sort_timeline ts"

definition timelines_bounds :: "timelines \<Rightarrow> (int \<times> int) result" where
  "timelines_bounds ts =
     res_fold (\<lambda>b t. res_bind (timeline_bounds t) (\<lambda>x. Inr (widen b x))) (0, 0) ts"

text \<open>
  The keys of the dictionary built by the three nested loops, in insertion order; \<open>keys()\<close> returns them
  in an order the language does not fix, which is the parameter \<open>key_order\<close>.
\<close>

definition get_all_range_values :: "(string list \<Rightarrow> string list) \<Rightarrow> timelines \<Rightarrow> string list" where
  "get_all_range_values key_order ts =
     key_order (dict_keys
       (foldl (\<lambda>d t. foldl (\<lambda>d rs. foldl (\<lambda>d r. dict_set (dr_value r) (1::int) d) d (tdr_ranges rs)) d (tl_ranges t)) [] ts))"

subsection \<open>Colors\<close>

record color =
  red :: int
  green :: int
  blue :: int

text \<open>\<open>default_colors\<close> belongs to the class and is consumed from its end.\<close>

record colors =
  color_table :: "(string, color) dict"
  default_colors :: "color list"

definition rgb :: "int \<Rightarrow> int \<Rightarrow> int \<Rightarrow> color" where
  "rgb r g b = \<lparr>red = r, green = g, blue = b\<rparr>"

definition new_colors :: colors where
  "new_colors = \<lparr>color_table = [],
     default_colors = [rgb 1 0 0, rgb 0 1 0, rgb 0 0 1, rgb 1 1 0, rgb 1 0 1, rgb 0 1 1]\<rparr>"

definition add_color :: "string \<Rightarrow> color \<Rightarrow> colors \<Rightarrow> colors" where
  "add_color name c cs = cs\<lparr>color_table := dict_set name c (color_table cs)\<rparr>"

definition lookup_color :: "string \<Rightarrow> colors \<Rightarrow> (color option \<times> colors) result" where
  "lookup_color name cs =
     (if dict_has (color_table cs) name then Inr (map_of (color_table cs) name, cs)
      else case default_colors cs of
        [] \<Rightarrow> Inl IndexError
      | _ \<Rightarrow>
          let c = last (default_colors cs);
              cs' = add_color name c (cs\<lparr>default_colors := butlast (default_colors cs)\<rparr>)
          in Inr (map_of (color_table cs') name, cs'))"

subsection \<open>read_data\<close>

text \<open>\<open>([^ ]+)\<close> followed by a blank: the word and what follows it\<close>

definition word :: "string \<Rightarrow> (string \<times> string) option" where
  "word s =
     (let w = takeWhile (\<lambda>c. c \<noteq> CHR '' '') s in
      if w = [] then None else Some (w, drop (length w) s))"

definition is_hex :: "char \<Rightarrow> bool" where
  "is_hex c \<longleftrightarrow> (let k = of_char c :: nat in (97 \<le> k \<and> k \<le> 102) \<or> (65 \<le> k \<and> k \<le> 70) \<or> (48 \<le> k \<and> k \<le> 57))"

definition hex_pair :: "string \<Rightarrow> (string \<times> string) option" where
  "hex_pair s =
     (case s of a # b # r \<Rightarrow> if is_hex a \<and> is_hex b then Some ([a, b], r) else None | _ \<Rightarrow> None)"

definition match_range :: "string \<Rightarrow> (string \<times> string \<times> string \<times> string \<times> string) option" where
  "match_range line =
     Option.bind (expect ''range '' line) (\<lambda>s.
     Option.bind (word s) (\<lambda>(g1, s). Option.bind (expect '' '' s) (\<lambda>s.
     Option.bind (word s) (\<lambda>(g2, s). Option.bind (expect '' '' s) (\<lambda>s.
     Option.bind (word s) (\<lambda>(g3, s). Option.bind (expect '' '' s) (\<lambda>s.
     Option.bind (digits s) (\<lambda>(g4, s). Option.bind (expect '' '' s) (\<lambda>s.
     Option.bind (digits s) (\<lambda>(g5, _). Some (g1, g2, g3, g4, g5)))))))))))"

definition match_event_str :: "string \<Rightarrow> (string \<times> string \<times> string \<times> string) option" where
  "match_event_str line =
     Option.bind (expect ''event-str '' line) (\<lambda>s.
     Option.bind (word s) (\<lambda>(g1, s). Option.bind (expect '' '' s) (\<lambda>s.
     Option.bind (word s) (\<lambda>(g2, s). Option.bind (expect '' '' s) (\<lambda>s.
     Option.bind (word s) (\<lambda>(g3, s). Option.bind (expect '' '' s) (\<lambda>s.
     Option.bind (digits s) (\<lambda>(g4, _). Some (g1, g2, g3, g4)))))))))"

definition match_event_int :: "string \<Rightarrow> (string \<times> string \<times> string \<times> string) option" where
  "match_event_int line =
     Option.bind (expect ''event-int '' line) (\<lambda>s.
     Option.bind (word s) (\<lambda>(g1, s). Option.bind (expect '' '' s) (\<lambda>s.
     Option.bind (word s) (\<lambda>(g2, s). Option.bind (expect '' '' s) (\<lambda>s.
     Option.bind (digits s) (\<lambda>(g3, s). Option.bind (expect '' '' s) (\<lambda>s.
     Option.bind (digits s) (\<lambda>(g4, _). Some (g1, g2, g3, g4)))))))))"

definition match_color :: "string \<Rightarrow> (string \<times> string \<times> string \<times> string) option" where
  "match_color line =
     Option.bind (expect ''color '' line) (\<lambda>s.
     Option.bind (word s) (\<lambda>(g1, s). Option.bind (expect '' #'' s) (\<lambda>s.
     Option.bind (hex_pair s) (\<lambda>(g2, s).
     Option.bind (hex_pair s) (\<lambda>(g3, s).
     Option.bind (hex_pair s) (\<lambda>(g4, _). Some (g1, g2, g3, g4)))))))"

text \<open>What is done to the object a getter has returned\<close>

definition with_timeline :: "string \<Rightarrow> (timeline \<Rightarrow> timeline) \<Rightarrow> timelines \<Rightarrow> timelines" where
  "with_timeline name f ts = (let (ts, i) = timelines_get name ts in ts[i := f (ts ! i)])"

definition with_range ::
  "string \<Rightarrow> (timeline_data_range \<Rightarrow> timeline_data_range) \<Rightarrow> timeline \<Rightarrow> timeline" where
  "with_range name f t =
     (let (t, i) = get_range name t in t\<lparr>tl_ranges := (tl_ranges t)[i := f (tl_ranges t ! i)]\<rparr>)"

definition with_event_str ::
  "string \<Rightarrow> (string timeline_event \<Rightarrow> string timeline_event) \<Rightarrow> timeline \<Rightarrow> timeline" where
  "with_event_str name f t =
     (let (t, i) = get_event_str name t in t\<lparr>tl_event_str := (tl_event_str t)[i := f (tl_event_str t ! i)]\<rparr>)"

definition with_event_int ::
  "string \<Rightarrow> (int timeline_event \<Rightarrow> int timeline_event) \<Rightarrow> timeline \<Rightarrow> timeline" where
  "with_event_int name f t =
     (let (t, i) = get_event_int name t in t\<lparr>tl_event_int := (tl_event_int t)[i := f (tl_event_int t ! i)]\<rparr>)"

definition read_line :: "colors \<times> timelines \<Rightarrow> string \<Rightarrow> (colors \<times> timelines) result" where
  "read_line st line =
     (case st of (cs, ts) \<Rightarrow>
      case match_range line of
        Some (g1, g2, g3, g4, g5) \<Rightarrow>
          res_bind (py_int 10 g4) (\<lambda>a. res_bind (py_int 10 g5) (\<lambda>b. Inr
            (cs, with_timeline g1 (with_range g2
                   (add_range \<lparr>dr_start = a, dr_end = b, dr_value = g3\<rparr>)) ts)))
      | None \<Rightarrow>
      case match_event_str line of
        Some (g1, g2, g3, g4) \<Rightarrow>
          res_bind (py_int 10 g4) (\<lambda>a. Inr
            (cs, with_timeline g1 (with_event_str g2 (add_event \<lparr>ev_at = a, ev_value = g3\<rparr>)) ts))
      | None \<Rightarrow>
      case match_event_int line of
        Some (g1, g2, g3, g4) \<Rightarrow>
          res_bind (py_int 10 g3) (\<lambda>v. res_bind (py_int 10 g4) (\<lambda>a. Inr
            (cs, with_timeline g1 (with_event_int g2 (add_event \<lparr>ev_at = a, ev_value = v\<rparr>)) ts)))
      | None \<Rightarrow>
      case match_color line of
        Some (g1, g2, g3, g4) \<Rightarrow>
          res_bind (py_int 16 g2) (\<lambda>r. res_bind (py_int 16 g3) (\<lambda>g. res_bind (py_int 16 g4) (\<lambda>b. Inr
            (add_color g1 (rgb (r div 255) (g div 255) (b div 255)) cs, ts))))
      | None \<Rightarrow> Inr (cs, ts))"

definition read_data :: "(string \<Rightarrow> string list option) \<Rightarrow> string \<Rightarrow> (colors \<times> timelines) result" where
  "read_data files filename =
     (case files filename of
        None \<Rightarrow> Inl OSError
      | Some lines \<Rightarrow>
          res_bind (res_fold read_line (new_colors, []) lines) (\<lambda>(cs, ts). Inr (cs, sort_timelines ts)))"

text \<open>The colours of the legend in \<open>main\<close>\<close>

fun legend_colors :: "colors \<Rightarrow> string list \<Rightarrow> (color option list \<times> colors) result" where
  "legend_colors cs [] = Inr ([], cs)"
| "legend_colors cs (v # vs) =
     res_bind (lookup_color v cs) (\<lambda>(c, cs). res_bind (legend_colors cs vs) (\<lambda>(l, cs). Inr (c # l, cs)))"

definition main_legend ::
  "(string list \<Rightarrow> string list) \<Rightarrow> (string \<Rightarrow> string list option) \<Rightarrow> string
    \<Rightarrow> (string list \<times> color option list \<times> colors) result" where
  "main_legend key_order files filename =
     res_bind (read_data files filename) (\<lambda>(cs, ts).
       let range_values = get_all_range_values key_order ts in
       res_bind (legend_colors cs range_values) (\<lambda>(l, cs). Inr (range_values, l, cs)))"

subsection \<open>Objects found or created by name\<close>

definition find_named :: "('o \<Rightarrow> string) \<Rightarrow> string \<Rightarrow> 'o list \<Rightarrow> 'o option" where
  "find_named name_of n xs = map_option (\<lambda>i. xs ! i) (index_named name_of n xs)"

locale registry =
  fixes lookup :: "'r \<Rightarrow> string \<Rightarrow> 'o option"
    and modify :: "string \<Rightarrow> ('o \<Rightarrow> 'o) \<Rightarrow> 'r \<Rightarrow> 'r"
    and fresh :: "string \<Rightarrow> 'o"
    and name_of :: "'o \<Rightarrow> string"
  assumes lookup_modify: "(\<And>x. name_of (f x) = name_of x) \<Longrightarrow>
      lookup (modify n f r) = (lookup r)(n \<mapsto> f (case lookup r n of None \<Rightarrow> fresh n | Some x \<Rightarrow> x))"
    and fresh_name: "name_of (fresh n) = n"
    and lookup_name: "lookup r n = Some x \<Longrightarrow> name_of x = n"
begin

definition obj :: "'r \<Rightarrow> string \<Rightarrow> 'o" where
  "obj r n = (case lookup r n of None \<Rightarrow> fresh n | Some x \<Rightarrow> x)"

lemma obj_name: "name_of (obj r n) = n"
  by (cases "lookup r n") (auto simp: obj_def fresh_name lookup_name)

lemma obj_modify:
  assumes "\<And>x. name_of (f x) = name_of x"
  shows "obj (modify n f r) m = (if m = n then f (obj r n) else obj r m)"
  using lookup_modify [OF assms, of n r] by (simp add: obj_def)

end

lemma index_named_Some:
  "index_named name_of n xs = Some i \<Longrightarrow> i < length xs \<and> name_of (xs ! i) = n"
  by (induction xs arbitrary: i) (auto split: if_splits)

lemma index_named_None: "index_named name_of n xs = None \<longleftrightarrow> n \<notin> name_of ` set xs"
  by (induction xs) auto

lemma index_named_cong: "map name_of xs = map name_of ys \<Longrightarrow> index_named name_of n xs = index_named name_of n ys"
proof (induction xs arbitrary: ys)
  case (Cons x xs)
  then show ?case by (cases ys) auto
qed simp

lemma index_named_append:
  "index_named name_of n (xs @ [y]) = (case index_named name_of n xs of
     Some i \<Rightarrow> Some i | None \<Rightarrow> if name_of y = n then Some (length xs) else None)"
  by (induction xs) (auto split: option.split)

lemma find_named_update:
  assumes "\<And>x. name_of (f x) = name_of x" "i < length xs" "name_of (xs ! i) = n" "index_named name_of n xs = Some i"
  shows "find_named name_of m (xs[i := f (xs ! i)]) = ((\<lambda>m. find_named name_of m xs)(n \<mapsto> f (xs ! i))) m"
proof -
  have "index_named name_of m (xs[i := f (xs ! i)]) = index_named name_of m xs"
    by (rule index_named_cong) (simp add: map_update assms(1) flip: map_update [of name_of xs i "xs ! i"])
  moreover have "index_named name_of m xs = Some k \<Longrightarrow> m \<noteq> n \<Longrightarrow> k \<noteq> i" for k
    using index_named_Some assms(3) by metis
  ultimately show ?thesis using assms(2,4) by (cases "index_named name_of m xs") (auto simp: find_named_def)
qed

text \<open>The body the four getters share: the object found, or a new one at the end of the list\<close>

definition get_named :: "('o \<Rightarrow> string) \<Rightarrow> (string \<Rightarrow> 'o) \<Rightarrow> string \<Rightarrow> 'o list \<Rightarrow> 'o list \<times> nat" where
  "get_named name_of fresh n xs =
     (case index_named name_of n xs of Some i \<Rightarrow> (xs, i) | None \<Rightarrow> (xs @ [fresh n], length xs))"

definition with_named ::
  "('o \<Rightarrow> string) \<Rightarrow> (string \<Rightarrow> 'o) \<Rightarrow> string \<Rightarrow> ('o \<Rightarrow> 'o) \<Rightarrow> 'o list \<Rightarrow> 'o list" where
  "with_named name_of fresh n f xs = (let (xs, i) = get_named name_of fresh n xs in xs[i := f (xs ! i)])"

lemma find_with_named:
  assumes f: "\<And>x. name_of (f x) = name_of x" and fresh: "\<And>n. name_of (fresh n) = n"
  shows "find_named name_of m (with_named name_of fresh n f xs) = ((\<lambda>m. find_named name_of m xs)
      (n \<mapsto> f (case find_named name_of n xs of None \<Rightarrow> fresh n | Some x \<Rightarrow> x))) m"
proof (cases "index_named name_of n xs")
  case (Some i)
  then show ?thesis using index_named_Some [OF Some] find_named_update [of name_of f i xs n m] f
    by (simp add: with_named_def get_named_def find_named_def)
next
  case None
  then have "index_named name_of n (xs @ [fresh n]) = Some (length xs)"
    by (simp add: index_named_append fresh)
  then have "find_named name_of m (with_named name_of fresh n f xs) =
      ((\<lambda>m. find_named name_of m (xs @ [fresh n]))(n \<mapsto> f (fresh n))) m"
    using None find_named_update [of name_of f "length xs" "xs @ [fresh n]" n m] f
    by (simp add: with_named_def get_named_def fresh)
  moreover have "m \<noteq> n \<Longrightarrow> find_named name_of m (xs @ [fresh n]) = find_named name_of m xs"
    using index_named_Some [of name_of m xs]
    by (auto simp: find_named_def index_named_append nth_append fresh split: option.split)
  ultimately show ?thesis using None by (simp add: find_named_def)
qed

lemma find_named_name: "find_named name_of n xs = Some x \<Longrightarrow> name_of x = n"
  using index_named_Some by (fastforce simp: find_named_def)

lemma find_named_set: "find_named name_of n xs = Some x \<Longrightarrow> x \<in> set xs"
  using index_named_Some by (fastforce simp: find_named_def)

lemma find_named_map:
  assumes "\<And>x. name_of (f x) = name_of x"
  shows "find_named name_of n (map f xs) = map_option f (find_named name_of n xs)"
proof -
  have "index_named name_of n (map f xs) = index_named name_of n xs"
    by (rule index_named_cong) (simp add: assms)
  then show ?thesis using index_named_Some [of name_of n xs]
    by (cases "index_named name_of n xs") (auto simp: find_named_def)
qed

lemmas named_objects = find_named_name find_with_named new_timeline_def new_timeline_data_range_def new_timeline_event_def

lemma with_named_simps:
  "with_timeline n f ts = with_named tl_name new_timeline n f ts"
  "tl_ranges (with_range n g t) = with_named tdr_name new_timeline_data_range n g (tl_ranges t)"
  "tl_event_str (with_event_str n h t) = with_named te_name new_timeline_event n h (tl_event_str t)"
  "tl_event_int (with_event_int n k t) = with_named te_name new_timeline_event n k (tl_event_int t)"
  by (auto simp: with_named_def get_named_def with_timeline_def timelines_get_def with_range_def get_range_def
      with_event_str_def get_event_str_def with_event_int_def get_event_int_def split: option.split)

lemma with_named_frame:
  "tl_name (with_range n g t) = tl_name t" "tl_event_str (with_range n g t) = tl_event_str t"
  "tl_event_int (with_range n g t) = tl_event_int t"
  "tl_name (with_event_str n h t) = tl_name t" "tl_ranges (with_event_str n h t) = tl_ranges t"
  "tl_event_int (with_event_str n h t) = tl_event_int t"
  "tl_name (with_event_int n k t) = tl_name t" "tl_ranges (with_event_int n k t) = tl_ranges t"
  "tl_event_str (with_event_int n k t) = tl_event_str t"
  by (auto simp: with_range_def get_range_def with_event_str_def get_event_str_def with_event_int_def
      get_event_int_def split: option.split)

interpretation timelines: registry "\<lambda>ts n. find_named tl_name n ts" with_timeline new_timeline tl_name
  by unfold_locales (auto simp: fun_eq_iff with_named_simps named_objects)

interpretation range_series: registry "\<lambda>t n. find_named tdr_name n (tl_ranges t)" with_range
  new_timeline_data_range tdr_name
  by unfold_locales (auto simp: fun_eq_iff with_named_simps named_objects)

interpretation str_series: registry "\<lambda>t n. find_named te_name n (tl_event_str t)" with_event_str
  new_timeline_event te_name
  by unfold_locales (auto simp: fun_eq_iff with_named_simps named_objects)

interpretation int_series: registry "\<lambda>t n. find_named te_name n (tl_event_int t)" with_event_int
  new_timeline_event te_name
  by unfold_locales (auto simp: fun_eq_iff with_named_simps named_objects)

subsection \<open>The reader groups the lines of the file\<close>

text \<open>
  The abstract trace: what a file says about one series of one timeline, line by line. A line counts for
  the first pattern that matches it, and no line matches two.
\<close>

definition decimal :: "string \<Rightarrow> int" where
  "decimal s = int (digits_value 10 s)"

definition range_entry :: "string \<Rightarrow> string \<Rightarrow> string \<Rightarrow> data_range list" where
  "range_entry n m line =
     (case match_range line of
        Some (g1, g2, g3, g4, g5) \<Rightarrow>
          if g1 = n \<and> g2 = m then [\<lparr>dr_start = decimal g4, dr_end = decimal g5, dr_value = g3\<rparr>] else []
      | None \<Rightarrow> [])"

definition str_entry :: "string \<Rightarrow> string \<Rightarrow> string \<Rightarrow> string event list" where
  "str_entry n m line =
     (case match_event_str line of
        Some (g1, g2, g3, g4) \<Rightarrow> if g1 = n \<and> g2 = m then [\<lparr>ev_at = decimal g4, ev_value = g3\<rparr>] else []
      | None \<Rightarrow> [])"

definition int_entry :: "string \<Rightarrow> string \<Rightarrow> string \<Rightarrow> int event list" where
  "int_entry n m line =
     (case match_event_int line of
        Some (g1, g2, g3, g4) \<Rightarrow> if g1 = n \<and> g2 = m then [\<lparr>ev_at = decimal g4, ev_value = decimal g3\<rparr>] else []
      | None \<Rightarrow> [])"

text \<open>The series of a name in the concrete timelines, empty when there is none\<close>

definition ranges_at :: "timelines \<Rightarrow> string \<Rightarrow> string \<Rightarrow> data_range list" where
  "ranges_at ts n m = tdr_ranges (range_series.obj (timelines.obj ts n) m)"

definition str_events_at :: "timelines \<Rightarrow> string \<Rightarrow> string \<Rightarrow> string event list" where
  "str_events_at ts n m = te_events (str_series.obj (timelines.obj ts n) m)"

definition int_events_at :: "timelines \<Rightarrow> string \<Rightarrow> string \<Rightarrow> int event list" where
  "int_events_at ts n m = te_events (int_series.obj (timelines.obj ts n) m)"

lemmas series_at = ranges_at_def str_events_at_def int_events_at_def

lemma digits_decimal: "digits s = Some (d, r) \<Longrightarrow> py_int 10 d = Inr (decimal d)"
  by (auto simp: digits_def decimal_def Let_def list_all_iff split: if_splits
      intro!: py_int_decimal dest: set_takeWhileD)

lemma match_decimal:
  "match_range line = Some (g1, g2, g3, g4, g5) \<Longrightarrow> py_int 10 g4 = Inr (decimal g4) \<and> py_int 10 g5 = Inr (decimal g5)"
  "match_event_str line = Some (h1, h2, h3, h4) \<Longrightarrow> py_int 10 h4 = Inr (decimal h4)"
  "match_event_int line = Some (k1, k2, k3, k4) \<Longrightarrow> py_int 10 k3 = Inr (decimal k3) \<and> py_int 10 k4 = Inr (decimal k4)"
  by (auto simp: match_range_def match_event_str_def match_event_int_def bind_eq_Some_conv dest: digits_decimal)

lemma is_hex_digit: "is_hex c \<Longrightarrow> base_digit 16 c \<and> \<not> py_space c \<and> c \<notin> {CHR ''-'', CHR ''+'', CHR ''x'', CHR ''X''}"
  by (auto simp: is_hex_def base_digit_def digit_val_def py_space_def Let_def)

lemma hex_pair_int:
  assumes "hex_pair s = Some (h, r)"
  shows "py_int 16 h = Inr (int (digits_value 16 h))"
proof -
  obtain a b where h: "h = [a, b]" "is_hex a" "is_hex b"
    using assms by (auto simp: hex_pair_def split: list.splits if_splits)
  then have "py_strip h = h" "base_prefix 16 h = h" "list_all (base_digit 16) h"
      "\<not> py_startswith h ''-''" "\<not> py_startswith h ''+''"
    using is_hex_digit [of a] is_hex_digit [of b]
    by (auto intro!: py_strip_clean simp: base_prefix_def py_startswith_def)
  then show ?thesis using h by (simp add: py_int_def)
qed

lemma match_color_int:
  "match_color line = Some (g1, g2, g3, g4) \<Longrightarrow> py_int 16 g2 = Inr (int (digits_value 16 g2))
    \<and> py_int 16 g3 = Inr (int (digits_value 16 g3)) \<and> py_int 16 g4 = Inr (int (digits_value 16 g4))"
  by (auto simp: match_color_def bind_eq_Some_conv dest: hex_pair_int)

lemma match_exclusive:
  "match_range line = Some x \<Longrightarrow> match_event_str line = None" "match_range line = Some x \<Longrightarrow> match_event_int line = None"
  "match_event_str line = Some y \<Longrightarrow> match_event_int line = None"
  by (auto simp: match_range_def match_event_str_def match_event_int_def expect_def bind_eq_Some_conv py_startswith_iff
      split: if_splits)

lemma keeps_name [simp]:
  "tdr_name (add_range r s) = tdr_name s" "te_name (add_event e q) = te_name q"
  by (simp_all add: add_range_def add_event_def)

lemma obj_frame:
  "str_series.obj (with_range n g t) = str_series.obj t" "int_series.obj (with_range n g t) = int_series.obj t"
  "range_series.obj (with_event_str n h t) = range_series.obj t" "int_series.obj (with_event_str n h t) = int_series.obj t"
  "range_series.obj (with_event_int n k t) = range_series.obj t" "str_series.obj (with_event_int n k t) = str_series.obj t"
  by (simp_all add: fun_eq_iff range_series.obj_def str_series.obj_def int_series.obj_def with_named_frame)

lemma line_cases [case_names range str int other]:
  obtains g1 g2 g3 g4 g5 where "match_range line = Some (g1, g2, g3, g4, g5)"
  | g1 g2 g3 g4 where "match_range line = None" "match_event_str line = Some (g1, g2, g3, g4)"
  | g1 g2 g3 g4 where "match_range line = None" "match_event_str line = None" "match_event_int line = Some (g1, g2, g3, g4)"
  | "match_range line = None" "match_event_str line = None" "match_event_int line = None"
  by (metis option.exhaust prod_cases4 prod_cases5)

lemma read_line_groups:
  obtains cs' ts' where "read_line (cs, ts) line = Inr (cs', ts')"
    "\<And>n m. ranges_at ts' n m = ranges_at ts n m @ range_entry n m line"
    "\<And>n m. str_events_at ts' n m = str_events_at ts n m @ str_entry n m line"
    "\<And>n m. int_events_at ts' n m = int_events_at ts n m @ int_entry n m line"
proof -
  show ?thesis
  proof (cases line rule: line_cases)
    case (range g1 g2 g3 g4 g5)
    show ?thesis
      by (rule that, simp add: read_line_def range match_decimal(1) [OF range])
        (simp_all add: series_at timelines.obj_modify range_series.obj_modify with_named_frame obj_frame range
          range_entry_def str_entry_def int_entry_def match_exclusive(1,2) [OF range] add_range_def)
  next
    case (str g1 g2 g3 g4)
    show ?thesis
      by (rule that, simp add: read_line_def str match_decimal(2) [OF str(2)])
        (simp_all add: series_at timelines.obj_modify str_series.obj_modify with_named_frame obj_frame str
          range_entry_def str_entry_def int_entry_def match_exclusive(3) [OF str(2)] add_event_def)
  next
    case (int g1 g2 g3 g4)
    show ?thesis
      by (rule that, simp add: read_line_def int match_decimal(3) [OF int(3)])
        (simp_all add: series_at timelines.obj_modify int_series.obj_modify with_named_frame obj_frame int
          range_entry_def str_entry_def int_entry_def add_event_def)
  next
    case other
    show ?thesis
    proof (cases "match_color line")
      case None
      show ?thesis by (rule that [of cs ts]) (simp_all add: read_line_def other None range_entry_def str_entry_def int_entry_def)
    next
      case (Some g)
      obtain g1 g2 g3 g4 where g: "match_color line = Some (g1, g2, g3, g4)" using Some by (cases g) auto
      show ?thesis
        by (rule that, simp add: read_line_def other g match_color_int [OF g])
          (simp_all add: other range_entry_def str_entry_def int_entry_def)
    qed
  qed
qed

lemma read_lines_group:
  "\<exists>cs' ts'. res_fold read_line (cs, ts) lines = Inr (cs', ts')
    \<and> (\<forall>n m. ranges_at ts' n m = ranges_at ts n m @ concat (map (range_entry n m) lines))
    \<and> (\<forall>n m. str_events_at ts' n m = str_events_at ts n m @ concat (map (str_entry n m) lines))
    \<and> (\<forall>n m. int_events_at ts' n m = int_events_at ts n m @ concat (map (int_entry n m) lines))"
proof (induction lines arbitrary: cs ts)
  case (Cons line lines)
  obtain cs1 ts1 where l: "read_line (cs, ts) line = Inr (cs1, ts1)"
    "\<And>n m. ranges_at ts1 n m = ranges_at ts n m @ range_entry n m line"
    "\<And>n m. str_events_at ts1 n m = str_events_at ts n m @ str_entry n m line"
    "\<And>n m. int_events_at ts1 n m = int_events_at ts n m @ int_entry n m line"
    using read_line_groups [of cs ts line] by blast
  then show ?case using Cons.IH [of cs1 ts1] by simp
qed simp

lemma sort_cmp_key:
  assumes "\<And>a b. cmp a b \<le> 0 \<longleftrightarrow> f a \<le> f b"
  shows "sort_cmp cmp xs = sort_key f xs"
proof -
  have "insert_cmp cmp x ys = insort_key f x ys" for x ys
    by (induction ys) (simp_all add: assms)
  then have "insert_cmp cmp = insort_key f" by (simp add: fun_eq_iff)
  then show ?thesis by (simp add: sort_cmp_def sort_key_def)
qed

lemma sort_series:
  "sort_cmp ranges_cmp rs = sort_key dr_start rs" "sort_cmp events_cmp es = sort_key ev_at es"
  by (auto intro!: sort_cmp_key simp: ranges_cmp_def events_cmp_def split: if_splits)

lemma find_named_nil [simp]: "find_named name_of n [] = None"
  by (simp add: find_named_def)

lemma sort_keeps_name [simp]:
  "tl_name (sort_timeline t) = tl_name t" "tdr_name (sort_ranges r) = tdr_name r" "te_name (sort_events e) = te_name e"
  by (simp_all add: sort_timeline_def sort_ranges_def sort_events_def)

lemma sort_new [simp]:
  "sort_timeline (new_timeline k) = new_timeline k" "sort_ranges (new_timeline_data_range k) = new_timeline_data_range k"
  "sort_events (new_timeline_event k) = new_timeline_event k"
  by (simp_all add: sort_timeline_def sort_ranges_def sort_events_def new_timeline_def new_timeline_data_range_def
      new_timeline_event_def sort_cmp_def)

lemma sorted_objs:
  "timelines.obj (sort_timelines ts) n = sort_timeline (timelines.obj ts n)"
  "range_series.obj (sort_timeline t) m = sort_ranges (range_series.obj t m)"
  "str_series.obj (sort_timeline t) m = sort_events (str_series.obj t m)"
  "int_series.obj (sort_timeline t) m = sort_events (int_series.obj t m)"
  by (simp_all add: timelines.obj_def range_series.obj_def str_series.obj_def int_series.obj_def sort_timelines_def
      sort_timeline_def [of t] find_named_map split: option.split)

lemma series_at_sorted:
  "ranges_at (sort_timelines ts) n m = sort_key dr_start (ranges_at ts n m)"
  "str_events_at (sort_timelines ts) n m = sort_key ev_at (str_events_at ts n m)"
  "int_events_at (sort_timelines ts) n m = sort_key ev_at (int_events_at ts n m)"
  by (simp_all add: series_at sorted_objs sort_ranges_def sort_events_def sort_series)

lemma series_at_empty [simp]:
  "ranges_at [] n m = []" "str_events_at [] n m = []" "int_events_at [] n m = []"
  by (simp_all add: series_at timelines.obj_def range_series.obj_def str_series.obj_def int_series.obj_def
      new_timeline_def new_timeline_data_range_def new_timeline_event_def)

text \<open>
  C10. The trace reader implements the abstract trace: reading any file that exists succeeds, whatever its
  lines are, and each series of each timeline holds exactly the entries of the lines that name it, sorted by
  time and in the order of the file where times are equal.
\<close>

theorem read_data_refines:
  assumes "files filename = Some lines"
  shows "\<exists>cs ts. read_data files filename = Inr (cs, ts)
    \<and> (\<forall>n m. ranges_at ts n m = sort_key dr_start (concat (map (range_entry n m) lines)))
    \<and> (\<forall>n m. str_events_at ts n m = sort_key ev_at (concat (map (str_entry n m) lines)))
    \<and> (\<forall>n m. int_events_at ts n m = sort_key ev_at (concat (map (int_entry n m) lines)))"
  using read_lines_group [of new_colors "[]" lines] by (auto simp: read_data_def assms series_at_sorted)

definition sample_trace :: "string list" where
  "sample_trace = [''range node0 state tx 12 20'' @ [CHR 0x0A], ''event-int node0 queue 3 15'' @ [CHR 0x0A],
     ''# a comment'' @ [CHR 0x0A], ''range node0 state idle 0 10'' @ [CHR 0x0A], ''color tx #ff0080'' @ [CHR 0x0A]]"

theorem read_data_refines_witness:
  "\<exists>cs ts. read_data [''trace'' \<mapsto> sample_trace] ''trace'' = Inr (cs, ts)
    \<and> ranges_at ts ''node0'' ''state'' = [\<lparr>dr_start = 0, dr_end = 10, dr_value = ''idle''\<rparr>,
         \<lparr>dr_start = 12, dr_end = 20, dr_value = ''tx''\<rparr>]
    \<and> int_events_at ts ''node0'' ''queue'' = [\<lparr>ev_at = 15, ev_value = 3\<rparr>]"
proof -
  have "sort_key dr_start (concat (map (range_entry ''node0'' ''state'') sample_trace))
      = [\<lparr>dr_start = 0, dr_end = 10, dr_value = ''idle''\<rparr>, \<lparr>dr_start = 12, dr_end = 20, dr_value = ''tx''\<rparr>]"
    "sort_key ev_at (concat (map (int_entry ''node0'' ''queue'') sample_trace)) = [\<lparr>ev_at = 15, ev_value = 3\<rparr>]"
    by code_simp+
  then show ?thesis using read_data_refines [of "[''trace'' \<mapsto> sample_trace]" "''trace''" sample_trace] by fastforce
qed

subsection \<open>The colours of the legend\<close>

lemma case_list_snoc: "(case xs @ [x] of [] \<Rightarrow> a | _ \<Rightarrow> b) = b"
  by (cases xs) auto

lemma map_of_keys: "distinct (map fst z) \<Longrightarrow> map (map_of z) (map fst z) = map Some (map snd z)"
  by (auto simp: map_of_eq_Some_iff)

lemma map_of_zip_None: "v \<notin> set ks \<Longrightarrow> map_of (zip ks xs) v = None"
  by (auto simp: map_of_eq_None_iff dest: set_zip_leftD)

lemma lookup_color_known:
  "dict_has (color_table cs) v \<Longrightarrow> \<exists>c. lookup_color v cs = Inr (Some c, cs) \<and> map_of (color_table cs) v = Some c"
  by (auto simp: lookup_color_def dict_has_iff)

lemma lookup_color_new:
  assumes "\<not> dict_has (color_table cs) v" "default_colors cs = ds @ [c]"
  shows "lookup_color v cs = Inr (Some c, cs\<lparr>default_colors := ds, color_table := dict_set v c (color_table cs)\<rparr>)"
  using assms by (simp add: lookup_color_def add_color_def case_list_snoc Let_def)

lemma legend_colors_total:
  assumes "distinct vs" "new = filter (\<lambda>v. \<not> dict_has (color_table cs) v) vs" "length new \<le> length (default_colors cs)"
  shows "\<exists>cs'. legend_colors cs vs = Inr (map (map_of (color_table cs')) vs, cs')
    \<and> map_of (color_table cs') = map_of (color_table cs) ++ map_of (zip new (rev (default_colors cs)))"
  using assms
proof (induction vs arbitrary: cs new)
  case Nil
  then show ?case by simp
next
  case (Cons v vs)
  show ?case
  proof (cases "dict_has (color_table cs) v")
    case True
    then obtain c where c: "lookup_color v cs = Inr (Some c, cs)" "map_of (color_table cs) v = Some c"
      using lookup_color_known by blast
    obtain cs' where cs': "legend_colors cs vs = Inr (map (map_of (color_table cs')) vs, cs')"
        "map_of (color_table cs') = map_of (color_table cs) ++ map_of (zip new (rev (default_colors cs)))"
      using Cons.IH [of new cs] Cons.prems True by auto
    have "v \<notin> set new" using Cons.prems True by auto
    then have "map_of (zip new (rev (default_colors cs))) v = None" by (rule map_of_zip_None)
    then have "map_of (color_table cs') v = Some c" using cs'(2) c(2) by (simp add: map_add_def)
    then show ?thesis using c cs' by auto
  next
    case False
    let ?new = "filter (\<lambda>v. \<not> dict_has (color_table cs) v) vs"
    obtain ds c where ds: "default_colors cs = ds @ [c]"
      using Cons.prems False by (cases "default_colors cs" rule: rev_cases) auto
    define cs1 where "cs1 = cs\<lparr>default_colors := ds, color_table := dict_set v c (color_table cs)\<rparr>"
    have same: "filter (\<lambda>v. \<not> dict_has (color_table cs1) v) vs = ?new"
      using Cons.prems(1) by (auto simp: cs1_def dict_has_iff intro!: filter_cong)
    have "default_colors cs1 = ds" "length ?new \<le> length ds" using Cons.prems False ds by (simp_all add: cs1_def)
    then obtain cs' where cs': "legend_colors cs1 vs = Inr (map (map_of (color_table cs')) vs, cs')"
        "map_of (color_table cs') = map_of (color_table cs1) ++ map_of (zip ?new (rev ds))"
      using Cons.IH [OF _ same [symmetric]] Cons.prems(1) by auto
    have "v \<notin> set ?new" using Cons.prems(1) by auto
    then have n: "map_of (zip ?new (rev ds)) v = None" by (rule map_of_zip_None)
    then have "map_of (color_table cs') v = Some c" using cs'(2) by (simp add: map_add_def cs1_def)
    moreover have "map_of (color_table cs') = map_of (color_table cs) ++ map_of (zip new (rev (default_colors cs)))"
      unfolding cs'(2) using n Cons.prems(2) False ds by (auto simp: cs1_def fun_eq_iff map_add_def split: option.split)
    ultimately show ?thesis using cs'(1) lookup_color_new [OF False ds] by (auto simp: cs1_def)
  qed
qed

lemma legend_table:
  assumes "distinct new" "new = filter (\<lambda>v. \<not> dict_has (color_table cs) v) vs" "length new \<le> length ds"
    and "tbl = map_of (color_table cs) ++ map_of (zip new (rev ds))"
  shows "map tbl new = map Some (take (length new) (rev ds))"
    and "dict_has (color_table cs) v \<Longrightarrow> tbl v = map_of (color_table cs) v"
proof -
  let ?z = "zip new (rev ds)"
  have k: "map fst ?z = new" "map snd ?z = take (length new) (rev ds)"
    using assms(3) by (simp_all add: map_fst_zip_take map_snd_zip_take)
  have "tbl v = map_of ?z v" if "v \<in> set new" for v
    using that assms(2) unfolding assms(4) by (auto simp: map_add_def dict_has_iff split: option.split)
  then show "map tbl new = map Some (take (length new) (rev ds))"
    using map_of_keys [of ?z] assms(1) k by (metis map_cong)
  assume "dict_has (color_table cs) v"
  then have "v \<notin> set new" using assms(2) by auto
  then show "tbl v = map_of (color_table cs) v" unfolding assms(4) by (simp add: map_add_def map_of_zip_None)
qed

lemma legend_colors_exhausted:
  assumes "distinct vs" "length (default_colors cs) < length (filter (\<lambda>v. \<not> dict_has (color_table cs) v) vs)"
  shows "legend_colors cs vs = Inl IndexError"
  using assms
proof (induction vs arbitrary: cs)
  case (Cons v vs)
  show ?case
  proof (cases "dict_has (color_table cs) v")
    case True
    then obtain c where "lookup_color v cs = Inr (Some c, cs)" using lookup_color_known by blast
    then show ?thesis using Cons True by simp
  next
    case new: False
    show ?thesis
    proof (cases "default_colors cs" rule: rev_cases)
      case Nil
      then show ?thesis using new by (simp add: lookup_color_def)
    next
      case (snoc ds c)
      define cs1 where "cs1 = cs\<lparr>default_colors := ds, color_table := dict_set v c (color_table cs)\<rparr>"
      have "filter (\<lambda>v. \<not> dict_has (color_table cs1) v) vs = filter (\<lambda>v. \<not> dict_has (color_table cs) v) vs"
        using Cons.prems(1) by (auto simp: cs1_def dict_has_iff intro!: filter_cong)
      then have "legend_colors cs1 vs = Inl IndexError"
        using Cons.IH [of cs1] Cons.prems new snoc by (simp add: cs1_def)
      then show ?thesis using lookup_color_new [OF new snoc] by (simp add: cs1_def)
    qed
  qed
qed simp

lemma read_data_defaults:
  assumes "read_data files filename = Inr (cs, ts)"
  shows "default_colors cs = default_colors new_colors"
proof -
  obtain lines ts0 where f: "res_fold read_line (new_colors, []) lines = Inr (cs, ts0)"
    using assms by (auto simp: read_data_def res_bind_Inr_iff split: option.splits)
  have "default_colors (fst (cs, ts0)) = default_colors new_colors"
    by (rule res_fold_invariant [where P = "\<lambda>st. default_colors (fst st) = default_colors new_colors", OF _ _ f])
      (auto simp: read_line_def add_color_def res_bind_Inr_iff split: option.splits prod.splits)
  then show ?thesis by simp
qed

lemma range_values_inner:
  "dict_ok d \<Longrightarrow> dict_ok (foldl (\<lambda>d r. dict_set (dr_value r) (1::int) d) d rs)
    \<and> set (dict_keys (foldl (\<lambda>d r. dict_set (dr_value r) (1::int) d) d rs)) = set (dict_keys d) \<union> dr_value ` set rs"
  by (induction rs arbitrary: d) (auto simp: set_dict_keys)

lemma range_values_series:
  "dict_ok d \<Longrightarrow> dict_ok (foldl (\<lambda>d s. foldl (\<lambda>d r. dict_set (dr_value r) (1::int) d) d (tdr_ranges s)) d ss)
    \<and> set (dict_keys (foldl (\<lambda>d s. foldl (\<lambda>d r. dict_set (dr_value r) (1::int) d) d (tdr_ranges s)) d ss))
      = set (dict_keys d) \<union> (\<Union>s \<in> set ss. dr_value ` set (tdr_ranges s))"
  by (induction ss arbitrary: d) (auto simp: range_values_inner)

lemma range_values_all:
  "dict_ok d \<Longrightarrow> dict_ok (foldl (\<lambda>d t. foldl (\<lambda>d s. foldl (\<lambda>d r. dict_set (dr_value r) (1::int) d) d (tdr_ranges s)) d (tl_ranges t)) d ts)
    \<and> set (dict_keys (foldl (\<lambda>d t. foldl (\<lambda>d s. foldl (\<lambda>d r. dict_set (dr_value r) (1::int) d) d (tdr_ranges s)) d (tl_ranges t)) d ts))
      = set (dict_keys d) \<union> (\<Union>t \<in> set ts. \<Union>s \<in> set (tl_ranges t). dr_value ` set (tdr_ranges s))"
  by (induction ts arbitrary: d) (auto simp: range_values_series)

lemma get_all_range_values:
  assumes "\<And>ks. mset (key_order ks) = mset ks"
  shows "distinct (get_all_range_values key_order ts)"
    "set (get_all_range_values key_order ts) = (\<Union>t \<in> set ts. \<Union>s \<in> set (tl_ranges t). dr_value ` set (tdr_ranges s))"
  using range_values_all [of "[]" ts] mset_eq_imp_distinct_iff [OF assms] mset_eq_setD [OF assms]
  by (simp_all add: get_all_range_values_def dict_ok_def)

text \<open>
  The colours of the legend, for any order in which the dictionary's keys are enumerated: the values
  shown are those of all the ranges; if at most six of them have no \<open>color\<close> line, \<open>main\<close> gives each of
  those a default colour of its own, keeps the configured ones, and every later \<open>lookup\<close> of a shown value
  finds its colour without touching the defaults; with a seventh, \<open>main\<close> raises \<open>IndexError\<close>.
\<close>

theorem main_legend_colors:
  assumes "\<And>ks. mset (key_order ks) = mset ks" and rd: "read_data files filename = Inr (cs, ts)"
    and "vs = get_all_range_values key_order ts" "new = filter (\<lambda>v. \<not> dict_has (color_table cs) v) vs"
  shows "set vs = (\<Union>t \<in> set ts. \<Union>s \<in> set (tl_ranges t). dr_value ` set (tdr_ranges s))
    \<and> (if length new \<le> 6 then
        \<exists>cs'. main_legend key_order files filename = Inr (vs, map (map_of (color_table cs')) vs, cs')
          \<and> (\<forall>v \<in> set vs. \<exists>c. lookup_color v cs' = Inr (Some c, cs'))
          \<and> distinct (map (map_of (color_table cs')) new)
          \<and> (\<forall>v. dict_has (color_table cs) v \<longrightarrow> map_of (color_table cs') v = map_of (color_table cs) v)
      else main_legend key_order files filename = Inl IndexError)"
proof -
  note vs = get_all_range_values [OF assms(1), where ts = ts, folded assms(3)]
  have defs: "length (default_colors cs) = 6" "distinct (default_colors cs)"
    using read_data_defaults [OF rd] by (simp_all add: new_colors_def rgb_def)
  have main: "main_legend key_order files filename = res_bind (legend_colors cs vs) (\<lambda>(l, cs). Inr (vs, l, cs))"
    by (simp add: main_legend_def rd assms(3) Let_def)
  show ?thesis
  proof (cases "length new \<le> 6")
    case True
    then obtain cs' where cs': "legend_colors cs vs = Inr (map (map_of (color_table cs')) vs, cs')"
        "map_of (color_table cs') = map_of (color_table cs) ++ map_of (zip new (rev (default_colors cs)))"
      using legend_colors_total [OF vs(1) assms(4)] defs by auto
    note table = legend_table [OF _ assms(4) _ cs'(2)]
    have d: "distinct new" using vs(1) assms(4) by simp
    have new: "map (map_of (color_table cs')) new = map Some (take (length new) (rev (default_colors cs)))"
      using table(1) d True defs(1) by simp
    have known: "map_of (color_table cs') v = map_of (color_table cs) v" if "dict_has (color_table cs) v" for v
      using table(2) [OF d] True defs(1) that by simp
    have "\<exists>c. lookup_color v cs' = Inr (Some c, cs')" if "v \<in> set vs" for v
    proof -
      have "map_of (color_table cs') v \<noteq> None"
      proof (cases "v \<in> set new")
        case True
        then have "map_of (color_table cs') v \<in> set (map (map_of (color_table cs')) new)" by auto
        then show ?thesis unfolding new by auto
      qed (use that assms(4) known in \<open>auto simp: dict_has_iff\<close>)
      then show ?thesis using lookup_color_known [of cs' v] by (auto simp: dict_has_iff)
    qed
    moreover have "distinct (map (map_of (color_table cs')) new)"
      unfolding new using defs(2) by (simp add: distinct_map distinct_take)
    moreover have "main_legend key_order files filename = Inr (vs, map (map_of (color_table cs')) vs, cs')"
      using main cs'(1) by simp
    ultimately show ?thesis unfolding if_P [OF True] using known
      by (intro conjI [OF vs(2)] exI [of _ cs'] conjI) blast+
  next
    case False
    then show ?thesis using legend_colors_exhausted [OF vs(1), of cs] assms(4) vs(2) main defs by auto
  qed
qed

definition sample_colors :: colors where
  "sample_colors = add_color ''tx'' (rgb 1 0 0) new_colors"

definition sample_timelines :: timelines where
  "sample_timelines = [\<lparr>tl_name = ''node0'',
     tl_ranges = [\<lparr>tdr_name = ''state'', tdr_ranges = [\<lparr>dr_start = 0, dr_end = 10, dr_value = ''idle''\<rparr>,
         \<lparr>dr_start = 12, dr_end = 20, dr_value = ''tx''\<rparr>]\<rparr>],
     tl_event_str = [],
     tl_event_int = [\<lparr>te_name = ''queue'', te_events = [\<lparr>ev_at = 15, ev_value = 3\<rparr>]\<rparr>]\<rparr>]"

lemma read_sample_trace: "read_data [''trace'' \<mapsto> sample_trace] ''trace'' = Inr (sample_colors, sample_timelines)"
  by code_simp

theorem main_legend_colors_witness:
  "\<exists>cs'. main_legend (\<lambda>ks. ks) [''trace'' \<mapsto> sample_trace] ''trace''
      = Inr ([''idle'', ''tx''], map (map_of (color_table cs')) [''idle'', ''tx''], cs')
    \<and> map_of (color_table cs') ''tx'' = Some (rgb 1 0 0)"
proof -
  have vs: "get_all_range_values (\<lambda>ks. ks) sample_timelines = [''idle'', ''tx'']" by code_simp
  have new: "length (filter (\<lambda>v. \<not> dict_has (color_table sample_colors) v) [''idle'', ''tx'']) \<le> 6" by code_simp
  have tx: "dict_has (color_table sample_colors) ''tx''" "map_of (color_table sample_colors) ''tx'' = Some (rgb 1 0 0)"
    by code_simp+
  show ?thesis
    using main_legend_colors [OF refl read_sample_trace vs [symmetric] refl, THEN conjunct2, unfolded if_P [OF new]] tx
    by metis
qed

subsection \<open>The bounds of a trace\<close>

definition range_extent :: "timeline_data_range \<Rightarrow> int \<times> int" where
  "range_extent s = (if tdr_ranges s = [] then (0, 0) else (dr_start (hd (tdr_ranges s)), dr_end (last (tdr_ranges s))))"

definition event_extent :: "'v timeline_event \<Rightarrow> int \<times> int" where
  "event_extent s = (if te_events s = [] then (0, 0) else (ev_at (hd (te_events s)), ev_at (last (te_events s))))"

lemma py_get_first: "xs \<noteq> [] \<Longrightarrow> py_get xs 0 = Inr (hd xs)"
  by (simp add: py_get_def hd_conv_nth)

lemma py_get_last: "xs \<noteq> [] \<Longrightarrow> py_get xs (int (length xs) - 1) = Inr (last xs)" "xs \<noteq> [] \<Longrightarrow> py_get xs (- 1) = Inr (last xs)"
  by (cases xs; simp add: py_get_def last_conv_nth nat_diff_distrib Suc_le_eq)+

lemma series_bounds: "range_bounds s = Inr (range_extent s)" "event_bounds e = Inr (event_extent e)"
  by (simp_all add: range_bounds_def event_bounds_def range_extent_def event_extent_def py_get_first py_get_last)

definition extent :: "timeline \<Rightarrow> int \<times> int" where
  "extent t = foldl widen (0, 0) (map range_extent (tl_ranges t) @ map event_extent (tl_event_str t) @ map event_extent (tl_event_int t))"

lemma fold_widen: "res_fold (\<lambda>b x. Inr (widen b (g x))) b xs = Inr (foldl widen b (map g xs))"
  by (induction xs arbitrary: b) auto

lemma timeline_extent: "timeline_bounds t = Inr (extent t)"
  by (simp add: timeline_bounds_def series_bounds fold_widen extent_def)

lemma timelines_extent: "timelines_bounds ts = Inr (foldl widen (0, 0) (map extent ts))"
  by (simp add: timelines_bounds_def timeline_extent fold_widen)

lemma widen_sel: "fst (widen b p) = min (fst b) (fst p)" "snd (widen b p) = max (snd b) (snd p)"
  by (auto simp: widen_def)

lemma widen_foldl_fst: "(\<forall>p \<in> set ps. fst b \<le> fst p) \<Longrightarrow> fst (foldl widen b ps) = fst b"
  by (induction ps arbitrary: b) (auto simp: widen_sel)

lemma widen_foldl_snd: "snd b \<le> snd (foldl widen b ps) \<and> (\<forall>p \<in> set ps. snd p \<le> snd (foldl widen b ps))"
proof (induction ps arbitrary: b)
  case (Cons p ps)
  then show ?case using Cons [of "widen b p"] by (auto simp: widen_sel)
qed simp

lemma with_named_all:
  assumes "\<forall>x \<in> set xs. P x" "P (fresh n)" "\<And>x. P x \<Longrightarrow> P (f x)"
  shows "\<forall>x \<in> set (with_named name_of fresh n f xs). P x"
proof -
  obtain ys i where ys: "get_named name_of fresh n xs = (ys, i)" by fastforce
  then have "i < length ys" "\<forall>x \<in> set ys. P x"
    using assms(1,2) index_named_Some [of name_of n xs] by (auto simp: get_named_def split: option.splits)
  with ys show ?thesis
    using assms(3) by (auto simp: with_named_def dest!: set_update_subset_insert [THEN subsetD])
qed

definition nonneg :: "timeline \<Rightarrow> bool" where
  "nonneg t \<longleftrightarrow> (\<forall>s \<in> set (tl_ranges t). \<forall>r \<in> set (tdr_ranges s). 0 \<le> dr_start r)
     \<and> (\<forall>s \<in> set (tl_event_str t). \<forall>e \<in> set (te_events s). 0 \<le> ev_at e)
     \<and> (\<forall>s \<in> set (tl_event_int t). \<forall>e \<in> set (te_events s). 0 \<le> ev_at e)"

lemma nonneg_steps:
  "nonneg t \<Longrightarrow> 0 \<le> dr_start r \<Longrightarrow> nonneg (with_range m (add_range r) t)"
  "nonneg t \<Longrightarrow> 0 \<le> ev_at e \<Longrightarrow> nonneg (with_event_str m (add_event e) t)"
  "nonneg t \<Longrightarrow> 0 \<le> ev_at k \<Longrightarrow> nonneg (with_event_int m (add_event k) t)"
  unfolding nonneg_def with_named_frame with_named_simps
  by ((elim conjE, intro conjI, assumption?)+,
      (rule with_named_all, assumption, simp add: new_timeline_data_range_def new_timeline_event_def,
       simp add: add_range_def add_event_def | assumption)+)+

lemma decimal_nonneg: "0 \<le> decimal s"
  by (simp add: decimal_def)

lemma read_line_nonneg:
  assumes "read_line (cs, ts) line = Inr (cs', ts')" "\<forall>t \<in> set ts. nonneg t"
  shows "\<forall>t \<in> set ts'. nonneg t"
proof -
  have keep: "\<forall>t \<in> set (with_timeline n f ts). nonneg t" if "\<And>t. nonneg t \<Longrightarrow> nonneg (f t)" for n f
    unfolding with_named_simps
    by (rule with_named_all [OF assms(2) _ that]) (simp add: nonneg_def new_timeline_def)
  show ?thesis
  proof (cases line rule: line_cases)
    case (range g1 g2 g3 g4 g5)
    then have "ts' = with_timeline g1 (with_range g2 (add_range \<lparr>dr_start = decimal g4, dr_end = decimal g5, dr_value = g3\<rparr>)) ts"
      using assms(1) match_decimal(1) [OF range] by (simp add: read_line_def)
    then show ?thesis by (simp only:) (rule keep, rule nonneg_steps(1), simp_all add: decimal_nonneg)
  next
    case (str g1 g2 g3 g4)
    then have "ts' = with_timeline g1 (with_event_str g2 (add_event \<lparr>ev_at = decimal g4, ev_value = g3\<rparr>)) ts"
      using assms(1) match_decimal(2) [OF str(2)] by (simp add: read_line_def)
    then show ?thesis by (simp only:) (rule keep, rule nonneg_steps(2), simp_all add: decimal_nonneg)
  next
    case (int g1 g2 g3 g4)
    then have "ts' = with_timeline g1 (with_event_int g2 (add_event \<lparr>ev_at = decimal g4, ev_value = decimal g3\<rparr>)) ts"
      using assms(1) match_decimal(3) [OF int(3)] by (simp add: read_line_def)
    then show ?thesis by (simp only:) (rule keep, rule nonneg_steps(3), simp_all add: decimal_nonneg)
  next
    case other
    then have "ts' = ts" using assms(1) by (auto simp: read_line_def res_bind_Inr_iff split: option.splits)
    then show ?thesis using assms(2) by simp
  qed
qed

lemma nonneg_sort: "nonneg t \<Longrightarrow> nonneg (sort_timeline t)"
  by (auto simp: nonneg_def sort_timeline_def sort_ranges_def sort_events_def sort_series)

lemma nonneg_extent: "nonneg t \<Longrightarrow> fst (extent t) = 0"
  unfolding extent_def nonneg_def
  by (subst widen_foldl_fst) (auto simp: range_extent_def event_extent_def)

lemma series_extent:
  "s \<in> set (tl_ranges t) \<Longrightarrow> snd (range_extent s) \<le> snd (extent t)"
  "e \<in> set (tl_event_str t) \<Longrightarrow> snd (event_extent e) \<le> snd (extent t)"
  "k \<in> set (tl_event_int t) \<Longrightarrow> snd (event_extent k) \<le> snd (extent t)"
  unfolding extent_def by (rule widen_foldl_snd [THEN conjunct2, THEN bspec], simp)+

lemma obj_cases:
  "timelines.obj ts n = new_timeline n \<or> timelines.obj ts n \<in> set ts"
  "range_series.obj t m = new_timeline_data_range m \<or> range_series.obj t m \<in> set (tl_ranges t)"
  "str_series.obj t m = new_timeline_event m \<or> str_series.obj t m \<in> set (tl_event_str t)"
  "int_series.obj t m = new_timeline_event m \<or> int_series.obj t m \<in> set (tl_event_int t)"
  by (auto simp: timelines.obj_def range_series.obj_def str_series.obj_def int_series.obj_def
      dest: find_named_set split: option.split)

lemma series_below:
  "ranges_at ts n m \<noteq> [] \<Longrightarrow> \<exists>t \<in> set ts. dr_end (last (ranges_at ts n m)) \<le> snd (extent t)"
  "str_events_at ts n m \<noteq> [] \<Longrightarrow> \<exists>t \<in> set ts. ev_at (last (str_events_at ts n m)) \<le> snd (extent t)"
  "int_events_at ts n m \<noteq> [] \<Longrightarrow> \<exists>t \<in> set ts. ev_at (last (int_events_at ts n m)) \<le> snd (extent t)"
proof -
  have empty: "range_series.obj (new_timeline n) m = new_timeline_data_range m"
    "str_series.obj (new_timeline n) m = new_timeline_event m" "int_series.obj (new_timeline n) m = new_timeline_event m"
    by (simp_all add: range_series.obj_def str_series.obj_def int_series.obj_def new_timeline_def)
  note new = empty new_timeline_data_range_def new_timeline_event_def
  let ?t = "timelines.obj ts n"
  show "\<exists>t \<in> set ts. dr_end (last (ranges_at ts n m)) \<le> snd (extent t)" if "ranges_at ts n m \<noteq> []"
    using obj_cases(1) [of ts n] obj_cases(2) [of ?t m] series_extent(1) [of _ ?t] that
    by (fastforce simp: series_at new range_extent_def)
  show "\<exists>t \<in> set ts. ev_at (last (str_events_at ts n m)) \<le> snd (extent t)" if "str_events_at ts n m \<noteq> []"
    using obj_cases(1) [of ts n] obj_cases(3) [of ?t m] series_extent(2) [of _ ?t] that
    by (fastforce simp: series_at new event_extent_def)
  show "\<exists>t \<in> set ts. ev_at (last (int_events_at ts n m)) \<le> snd (extent t)" if "int_events_at ts n m \<noteq> []"
    using obj_cases(1) [of ts n] obj_cases(4) [of ?t m] series_extent(3) [of _ ?t] that
    by (fastforce simp: series_at new event_extent_def)
qed

lemma sorted_key_last: "sorted (map f xs) \<Longrightarrow> x \<in> set xs \<Longrightarrow> f x \<le> f (last xs)"
  by (induction xs) auto

lemma find_named_Cons:
  "find_named name_of n (x # xs) = (if name_of x = n then Some x else find_named name_of n xs)"
  by (auto simp: find_named_def option.map_comp comp_def)

text \<open>
  The bounds of a trace that was read: \<open>get_bounds\<close> never raises, its lower bound is 0 whatever the
  times are (the loops start from 0 and the reader accepts no sign), and its upper bound is not below any
  event time nor below the end of the last range of any series.
\<close>

theorem read_data_bounds:
  assumes "read_data files filename = Inr (cs, ts)"
  shows "\<exists>hi. timelines_bounds ts = Inr (0, hi) \<and> 0 \<le> hi
    \<and> (\<forall>n m. \<forall>e \<in> set (str_events_at ts n m). ev_at e \<le> hi)
    \<and> (\<forall>n m. \<forall>e \<in> set (int_events_at ts n m). ev_at e \<le> hi)
    \<and> (\<forall>n m. ranges_at ts n m \<noteq> [] \<longrightarrow> dr_end (last (ranges_at ts n m)) \<le> hi)"
proof -
  obtain lines ts0 where f: "res_fold read_line (new_colors, []) lines = Inr (cs, ts0)" "ts = sort_timelines ts0"
    using assms by (auto simp: read_data_def res_bind_Inr_iff split: option.splits)
  have "\<forall>t \<in> set (snd (cs, ts0)). nonneg t"
    by (rule res_fold_invariant [where P = "\<lambda>st. \<forall>t \<in> set (snd st). nonneg t", OF _ _ f(1)])
      (auto dest: read_line_nonneg)
  then have "\<forall>t \<in> set ts. fst (extent t) = 0" using f(2) nonneg_sort nonneg_extent by (auto simp: sort_timelines_def)
  then have lo: "fst (foldl widen (0, 0) (map extent ts)) = 0" by (subst widen_foldl_fst) auto
  define hi where "hi = snd (foldl widen (0, 0) (map extent ts))"
  have hi: "0 \<le> hi" "\<And>t. t \<in> set ts \<Longrightarrow> snd (extent t) \<le> hi"
    using widen_foldl_snd [of "(0, 0)" "map extent ts"] by (auto simp: hi_def)
  have b: "timelines_bounds ts = Inr (0, hi)" using lo by (simp add: timelines_extent hi_def prod_eq_iff)
  have s: "sorted (map ev_at (str_events_at ts n m))" "sorted (map ev_at (int_events_at ts n m))" for n m
    by (simp_all add: f(2) series_at_sorted)
  have "ev_at e \<le> hi" if "e \<in> set (str_events_at ts n m)" for n m e
    using series_below(2) [of ts n m] sorted_key_last [OF s(1) that] hi(2) that by force
  moreover have "ev_at e \<le> hi" if "e \<in> set (int_events_at ts n m)" for n m e
    using series_below(3) [of ts n m] sorted_key_last [OF s(2) that] hi(2) that by force
  moreover have "dr_end (last (ranges_at ts n m)) \<le> hi" if "ranges_at ts n m \<noteq> []" for n m
    using series_below(1) [OF that] hi(2) by force
  ultimately show ?thesis using b hi(1) by blast
qed

theorem read_data_bounds_witness:
  "\<exists>hi. timelines_bounds sample_timelines = Inr (0, hi) \<and> 20 \<le> hi"
proof -
  have r: "ranges_at sample_timelines ''node0'' ''state'' \<noteq> []"
    "dr_end (last (ranges_at sample_timelines ''node0'' ''state'')) = 20"
    by (simp_all add: series_at timelines.obj_def range_series.obj_def find_named_Cons sample_timelines_def)
  show ?thesis using read_data_bounds [OF read_sample_trace] r by metis
qed

end
