(* ===== verification/Grid_View.thy ===== *)
theory Grid_View
  imports Py_Number Grid_Trace
begin

text \<open>
  The view of the timeline viewer (\<open>utils/grid.py\<close>, lines 500 to 1690) without its drawing: the layouts of the
  legend, the data and the scales, the selected range of \<open>GraphicRenderer\<close>, and the mouse handlers and zoom
  buttons of \<open>GtkGraphicRenderer\<close> as functions on the widget's state. Numbers are those of \<open>Py_Number\<close>. The size
  cairo gives a text is the parameter \<open>text_extents\<close> (width and height). Requests to redraw and the shape of
  the pointer have no effect on the state and are left out. An attribute that a method may read before it was set is
  an \<open>option\<close>; reading it then raises \<open>AttributeError\<close>.
\<close>

type_synonym extents = "string \<Rightarrow> pynum \<times> pynum"

definition attr :: "'a option \<Rightarrow> 'a result" where
  "attr a = (case a of None \<Rightarrow> Inl AttributeError | Some x \<Rightarrow> Inr x)"

definition alphabet :: string where
  "alphabet = ''ABCDEFGHIJKLMNOPQRSTUVWXYZabcedefghijklmnopqrstuvwxyz0123456789''"

subsection \<open>TopLegendRenderer\<close>

record top_legend =
  lg_padding :: pynum
  lg_legends :: "string list"
  lg_width :: pynum
  lg_height :: pynum

definition new_top_legend :: "string list \<Rightarrow> top_legend" where
  "new_top_legend legends = \<lparr>lg_padding = PyInt 10, lg_legends = legends, lg_width = PyInt 0, lg_height = PyInt 0\<rparr>"

definition legend_step ::
  "extents \<Rightarrow> pynum \<Rightarrow> pynum \<Rightarrow> pynum \<times> pynum \<times> pynum \<Rightarrow> string \<Rightarrow> pynum \<times> pynum \<times> pynum" where
  "legend_step te padding width st legend =
     (case st of (line_height, total_height, line_used) \<Rightarrow>
        let (t_width, t_height) = te legend;
            item_width = num_add (num_add (num_add padding padding) t_width) padding;
            item_height = num_add t_height padding;
            line_height = (if val line_height < val item_height then item_height else line_height)
        in if val width < val (num_add line_used item_width)
           then (line_height, num_add total_height line_height, num_add padding item_width)
           else (line_height, total_height, num_add line_used item_width))"

definition legend_layout :: "extents \<Rightarrow> pynum \<Rightarrow> top_legend \<Rightarrow> top_legend" where
  "legend_layout te width lg =
     (case foldl (legend_step te (lg_padding lg) width) (PyInt 0, lg_padding lg, lg_padding lg) (lg_legends lg) of
        (line_height, total_height, line_used) \<Rightarrow>
          lg\<lparr>lg_width := width, lg_height := num_add total_height line_height\<rparr>)"

subsection \<open>TimelinesRenderer\<close>

record data_view =
  dv_padding :: pynum
  dv_timelines :: timelines
  dv_start :: pynum
  dv_end :: pynum
  dv_left_width :: pynum
  dv_right_width :: pynum
  dv_max_text_height :: pynum
  dv_width :: pynum
  dv_height :: pynum

definition new_data_view :: "timelines \<Rightarrow> data_view" where
  "new_data_view ts = \<lparr>dv_padding = PyInt 10, dv_timelines = ts, dv_start = PyInt 0, dv_end = PyInt 0, dv_left_width = PyInt 0,
     dv_right_width = PyInt 0, dv_max_text_height = PyInt 0, dv_width = PyInt 0, dv_height = PyInt 0\<rparr>"

definition set_render_range :: "pynum \<Rightarrow> pynum \<Rightarrow> data_view \<Rightarrow> data_view" where
  "set_render_range start stop d = d\<lparr>dv_start := start, dv_end := stop\<rparr>"

text \<open>\<open>padding\<close> is the integer 10, so that \<open>padding / 2\<close> is 5.\<close>

definition half :: "pynum \<Rightarrow> pynum" where
  "half a = (case num_div a (PyInt 2) of Inr h \<Rightarrow> h | Inl _ \<Rightarrow> a)"

definition get_data_x_start :: "data_view \<Rightarrow> pynum" where
  "get_data_x_start d =
     num_add (num_add (num_add (num_add (half (dv_padding d)) (dv_left_width d)) (dv_padding d)) (dv_right_width d))
       (half (dv_padding d))"

text \<open>The names of the right column of one timeline, in the order of the three loops\<close>

definition right_names :: "timeline \<Rightarrow> string list" where
  "right_names t = map tdr_name (tl_ranges t) @ map te_name (tl_event_int t) @ map te_name (tl_event_str t)"

definition widest :: "extents \<Rightarrow> string list \<Rightarrow> pynum" where
  "widest te names = foldl (\<lambda>m n. num_max m (fst (te n))) (PyInt 0) names"

definition data_layout :: "extents \<Rightarrow> pynum \<Rightarrow> data_view \<Rightarrow> data_view" where
  "data_layout te width d =
     (let ts = dv_timelines d;
          max_text_height = snd (te alphabet);
          left_width = widest te (map tl_name ts);
          right_width = widest te (concat (map right_names ts));
          left_n_lines = PyInt (int (length ts));
          range_n = PyInt (int (length (concat (map tl_ranges ts))));
          eventint_n = PyInt (int (length (concat (map tl_event_int ts))));
          eventstr_n = PyInt (int (length (concat (map tl_event_str ts))));
          left_height = num_add (num_mul left_n_lines max_text_height)
                          (num_mul (num_sub left_n_lines (PyInt 1)) (dv_padding d));
          right_n_lines = num_add (num_add range_n eventint_n) eventstr_n;
          right_height = num_add (num_mul (num_sub right_n_lines (PyInt 1)) (dv_padding d))
                           (num_mul right_n_lines max_text_height);
          right_data_height = num_add (num_mul (num_add eventint_n eventstr_n) (num_add max_text_height (PyInt 5)))
                                (num_mul range_n (PyInt 10));
          right_data_height = num_add right_data_height (num_mul (num_sub right_n_lines (PyInt 1)) (dv_padding d));
          height = num_max left_height right_height;
          height = num_max height right_data_height
      in d\<lparr>dv_left_width := left_width, dv_right_width := right_width, dv_max_text_height := max_text_height,
           dv_width := width, dv_height := num_add height (dv_padding d)\<rparr>)"

subsection \<open>ScaleRenderer\<close>

record scale =
  sc_top :: int
  sc_lo :: pynum
  sc_hi :: pynum
  sc_delta :: pynum
  sc_width :: pynum
  sc_height :: pynum

definition new_scale :: scale where
  "new_scale = \<lparr>sc_top = 0, sc_lo = PyInt 0, sc_hi = PyInt 0, sc_delta = PyInt 0, sc_width = PyInt 0, sc_height = PyInt 0\<rparr>"

definition set_bounds :: "pynum \<Rightarrow> pynum \<Rightarrow> scale \<Rightarrow> scale" where
  "set_bounds lo hi s = s\<lparr>sc_lo := lo, sc_hi := hi\<rparr>"

definition get_position :: "scale \<Rightarrow> pynum \<Rightarrow> pynum result" where
  "get_position s x = num_div (num_mul (num_sub x (sc_lo s)) (sc_width s)) (num_sub (sc_hi s) (sc_lo s))"

lemma power_exceeds: "int k < 10 ^ k"
proof (induction k)
  case (Suc k)
  then show ?case by (simp only: power_Suc of_nat_Suc)
qed simp

text \<open>\<open>while (closest*10) < data_delta: closest *= 10\<close>, with \<open>closest\<close> the power \<open>10 ^ k\<close>\<close>

function closest_loop :: "rat \<Rightarrow> nat \<Rightarrow> int" where
  "closest_loop data_delta k =
     (if of_int (10 ^ k * 10) < data_delta then closest_loop data_delta (Suc k) else 10 ^ k)"
  by pat_completeness auto

termination
proof (relation "measure (\<lambda>(d, k). nat \<lceil>d\<rceil> - k)")
  fix d :: rat and k :: nat
  assume "of_int (10 ^ k * 10) < d"
  then have "10 ^ k * 10 < \<lceil>d\<rceil>" by (simp add: less_ceiling_iff)
  then have "k < nat \<lceil>d\<rceil>" using power_exceeds [of k] by linarith
  then show "((d, Suc k), d, k) \<in> measure (\<lambda>(d, k). nat \<lceil>d\<rceil> - k)" by simp
qed simp

declare closest_loop.simps [simp del]

definition scale_layout :: "extents \<Rightarrow> pynum \<Rightarrow> scale \<Rightarrow> scale result" where
  "scale_layout te width s =
     (let data_delta = num_sub (sc_hi s) (sc_lo s);
          closest = PyInt (closest_loop (val data_delta) 0) in
      res_bind (num_div data_delta closest) (\<lambda>q.
      res_bind (if val q = 0 then Inr closest
                else if val q = 1 then num_div closest (PyInt 10)
                else Inr closest) (\<lambda>delta.
      res_bind (num_mod (sc_lo s) delta) (\<lambda>_.
      res_bind (num_mod (sc_hi s) delta) (\<lambda>_.
      Inr (s\<lparr>sc_delta := delta, sc_width := width, sc_height := num_add (snd (te alphabet)) (PyInt 10)\<rparr>))))))"

subsection \<open>GraphicRenderer\<close>

record graphic =
  g_start :: pynum
  g_end :: pynum
  mid_scale :: scale
  bot_scale :: scale
  g_width :: pynum
  g_height :: pynum
  r_range :: "(pynum \<times> pynum) option"
  g_data :: data_view
  g_top_legend :: top_legend

definition new_graphic :: "pynum \<Rightarrow> pynum \<Rightarrow> top_legend \<Rightarrow> data_view \<Rightarrow> graphic" where
  "new_graphic start stop lg d =
     \<lparr>g_start = num_float start, g_end = num_float stop, mid_scale = new_scale\<lparr>sc_top := 1\<rparr>,
      bot_scale = set_bounds start stop new_scale, g_width = PyInt 1, g_height = PyInt 1, r_range = None,
      g_data = d, g_top_legend = lg\<rparr>"

definition get_data_rectangle :: "graphic \<Rightarrow> pynum \<times> pynum \<times> pynum \<times> pynum" where
  "get_data_rectangle g =
     (let y_start = lg_height (g_top_legend g); x_start = get_data_x_start (g_data g)
      in (x_start, y_start, num_sub (g_width g) x_start, dv_height (g_data g)))"

definition get_range_of :: "graphic \<Rightarrow> (pynum \<times> pynum) result" where
  "get_range_of g = attr (r_range g)"

definition scale_data :: "graphic \<Rightarrow> pynum \<Rightarrow> pynum result" where
  "scale_data g x =
     res_bind (get_range_of g) (\<lambda>(a, b).
     res_bind (num_div x (num_sub (g_width g) (get_data_x_start (g_data g)))) (\<lambda>q.
     Inr (num_mul q (num_sub b a))))"

definition get_selection_rectangle :: "graphic \<Rightarrow> (pynum \<times> pynum \<times> pynum \<times> pynum) result" where
  "get_selection_rectangle g =
     (let y_start = num_add (num_add (num_add (lg_height (g_top_legend g)) (dv_height (g_data g)))
                       (sc_height (mid_scale g))) (PyInt 20);
          y_height = num_add (sc_height (bot_scale g)) (PyInt 20) in
      res_bind (get_range_of g) (\<lambda>(a, b).
      res_bind (get_position (bot_scale g) a) (\<lambda>x_start.
      res_bind (get_position (bot_scale g) b) (\<lambda>x_end.
      Inr (x_start, y_start, num_sub x_end x_start, y_height)))))"

definition scale_selection :: "graphic \<Rightarrow> pynum \<Rightarrow> pynum result" where
  "scale_selection g x =
     res_bind (num_div x (g_width g)) (\<lambda>q. Inr (num_mul q (num_sub (g_end g) (g_start g))))"

definition graphic_layout :: "extents \<Rightarrow> pynum \<Rightarrow> pynum \<Rightarrow> graphic \<Rightarrow> graphic result" where
  "graphic_layout te width height g =
     (let lg = legend_layout te width (g_top_legend g);
          d = data_layout te width (g_data g) in
      res_bind (scale_layout te (num_sub width (get_data_x_start d)) (mid_scale g)) (\<lambda>mid.
      res_bind (scale_layout te width (bot_scale g)) (\<lambda>bot.
      Inr (g\<lparr>g_width := width, g_height := height, g_top_legend := lg, g_data := d, mid_scale := mid, bot_scale := bot\<rparr>))))"

definition set_range :: "extents \<Rightarrow> pynum \<Rightarrow> pynum \<Rightarrow> graphic \<Rightarrow> graphic result" where
  "set_range te start stop g =
     (let s = num_min start stop; e = num_max start stop;
          start = num_max (g_start g) s;
          stop = num_min (g_end g) e;
          g = g\<lparr>r_range := Some (start, stop), g_data := set_render_range start stop (g_data g),
                mid_scale := set_bounds start stop (mid_scale g)\<rparr>
      in graphic_layout te (g_width g) (g_height g) g)"

text \<open>\<open>main\<close> after the legend: the initial range is a tenth of the data around its middle.\<close>

definition main_graphic :: "extents \<Rightarrow> int \<Rightarrow> int \<Rightarrow> string list \<Rightarrow> timelines \<Rightarrow> graphic result" where
  "main_graphic te lower_bound upper_bound range_values ts =
     (let range_mid = (upper_bound - lower_bound) div 2;
          range_width = (upper_bound - lower_bound) div 10;
          range_lo = range_mid - range_width div 2;
          range_hi = range_mid + range_width div 2
      in set_range te (PyInt range_lo) (PyInt range_hi)
           (new_graphic (PyInt lower_bound) (PyInt upper_bound) (new_top_legend range_values) (new_data_view ts)))"

subsection \<open>GtkGraphicRenderer\<close>

record gtk =
  graph :: graphic
  moving_left :: bool
  moving_right :: bool
  moving_both :: bool
  moving_top :: bool
  force_full_redraw :: bool
  moving_left_cur :: "pynum option"
  moving_right_cur :: "pynum option"
  moving_both_start :: "pynum option"
  moving_both_cur :: "pynum option"
  moving_top_start :: "pynum option"
  moving_top_cur :: "pynum option"
  gtk_width :: "pynum option"
  gtk_height :: "pynum option"

definition new_gtk :: "graphic \<Rightarrow> gtk" where
  "new_gtk data = \<lparr>graph = data, moving_left = False, moving_right = False, moving_both = False, moving_top = False,
     force_full_redraw = True, moving_left_cur = None, moving_right_cur = None, moving_both_start = None,
     moving_both_cur = None, moving_top_start = None, moving_top_cur = None, gtk_width = None, gtk_height = None\<rparr>"

definition set_gtk_range :: "extents \<Rightarrow> pynum \<Rightarrow> pynum \<Rightarrow> gtk \<Rightarrow> gtk result" where
  "set_gtk_range te start stop w =
     res_bind (set_range te start stop (graph w)) (\<lambda>g. Inr (w\<lparr>graph := g, force_full_redraw := True\<rparr>))"



definition num_near :: "pynum \<Rightarrow> pynum \<Rightarrow> bool" where
  "num_near a b \<longleftrightarrow> \<bar>val a - val b\<bar> < 5"

definition between :: "pynum \<Rightarrow> pynum \<Rightarrow> pynum \<Rightarrow> bool" where
  "between a lo len \<longleftrightarrow> val lo < val a \<and> val a < val lo + val len"

definition button_press :: "pynum \<Rightarrow> pynum \<Rightarrow> gtk \<Rightarrow> (bool \<times> gtk) result" where
  "button_press ex ey w =
     res_bind (get_selection_rectangle (graph w)) (\<lambda>(x, y, width, height).
     case get_data_rectangle (graph w) of (d_x, d_y, d_width, d_height) \<Rightarrow> Inr
       (if between ey y height \<and> num_near ex x then (True, w\<lparr>moving_left := True\<rparr>)
        else if between ey y height \<and> num_near ex (num_add x width) then (True, w\<lparr>moving_right := True\<rparr>)
        else if between ey y height \<and> between ex x width then
          (True, w\<lparr>moving_both := True, moving_both_start := Some ex, moving_both_cur := Some ex\<rparr>)
        else if between ey d_y d_height \<and> between ex d_x d_width then
          (True, w\<lparr>moving_top := True, moving_top_start := Some ex, moving_top_cur := Some ex\<rparr>)
        else (False, w)))"

definition button_release :: "extents \<Rightarrow> gtk \<Rightarrow> (bool \<times> gtk) result" where
  "button_release te w =
     (if moving_left w then
        let w = w\<lparr>moving_left := False\<rparr> in
        res_bind (attr (moving_left_cur w)) (\<lambda>cur.
        res_bind (scale_selection (graph w) cur) (\<lambda>left.
        res_bind (get_range_of (graph w)) (\<lambda>(_, right).
        res_bind (set_gtk_range te left right w) (\<lambda>w. Inr (True, w)))))
      else if moving_right w then
        let w = w\<lparr>moving_right := False\<rparr> in
        res_bind (attr (moving_right_cur w)) (\<lambda>cur.
        res_bind (scale_selection (graph w) cur) (\<lambda>right.
        res_bind (get_range_of (graph w)) (\<lambda>(left, _).
        res_bind (set_gtk_range te left right w) (\<lambda>w. Inr (True, w)))))
      else if moving_both w then
        let w = w\<lparr>moving_both := False\<rparr> in
        res_bind (attr (moving_both_cur w)) (\<lambda>cur.
        res_bind (attr (moving_both_start w)) (\<lambda>start.
        res_bind (scale_selection (graph w) (num_sub cur start)) (\<lambda>delta.
        res_bind (get_range_of (graph w)) (\<lambda>(left, right).
        res_bind (set_gtk_range te (num_add left delta) (num_add right delta) w) (\<lambda>w. Inr (True, w))))))
      else Inr (False, if moving_top w then w\<lparr>moving_top := False\<rparr> else w))"

text \<open>
  The branches of \<open>motion_notify\<close> for the four drags; without a drag only the pointer's shape changes. In the
  second branch, a pointer beyond the right border sets \<open>moving_right\<close> itself to the width, which is true
  unless it is 0.
\<close>

definition motion_left :: "pynum \<Rightarrow> pynum \<Rightarrow> pynum \<Rightarrow> gtk \<Rightarrow> gtk" where
  "motion_left ex x width w =
     w\<lparr>moving_left_cur := Some (if val ex \<le> 0 then PyInt 0
          else if val x + val width \<le> val ex then num_add x width else ex)\<rparr>"

definition motion_right :: "pynum \<Rightarrow> pynum \<Rightarrow> pynum \<Rightarrow> gtk \<Rightarrow> gtk" where
  "motion_right ex x full w =
     (if val full \<le> val ex then w\<lparr>moving_right := val full \<noteq> 0\<rparr>
      else w\<lparr>moving_right_cur := Some (if val ex < val x then x else ex)\<rparr>)"

definition motion_both :: "pynum \<Rightarrow> pynum \<Rightarrow> pynum \<Rightarrow> pynum \<Rightarrow> pynum \<Rightarrow> gtk \<Rightarrow> gtk" where
  "motion_both ex x width full start w =
     (let cur_e = num_sub full (num_sub (num_add x width) start);
          cur_s = num_sub start x
      in w\<lparr>moving_both_cur := Some (if val ex < val cur_s then cur_s else if val cur_e < val ex then cur_e else ex)\<rparr>)"

definition motion_top :: "extents \<Rightarrow> pynum \<Rightarrow> gtk \<Rightarrow> gtk result" where
  "motion_top te ex w =
     (let w = w\<lparr>moving_top_cur := Some ex\<rparr> in
      res_bind (attr (moving_top_start w)) (\<lambda>start.
      res_bind (scale_data (graph w) (num_sub start ex)) (\<lambda>delta.
      res_bind (get_range_of (graph w)) (\<lambda>(left, right).
      res_bind (set_gtk_range te (num_add left delta) (num_add right delta) w) (\<lambda>w.
      Inr (w\<lparr>moving_top_start := Some ex\<rparr>))))))"

definition motion_notify :: "extents \<Rightarrow> pynum \<Rightarrow> pynum \<Rightarrow> gtk \<Rightarrow> (bool \<times> gtk) result" where
  "motion_notify te ex ey w =
     res_bind (get_selection_rectangle (graph w)) (\<lambda>(x, y, width, height).
       if moving_left w then
         res_bind (attr (gtk_width w)) (\<lambda>_. Inr (True, motion_left ex x width w))
       else if moving_right w then
         res_bind (attr (gtk_width w)) (\<lambda>full. Inr (True, motion_right ex x full w))
       else if moving_both w then
         res_bind (attr (gtk_width w)) (\<lambda>full.
         res_bind (attr (moving_both_start w)) (\<lambda>start. Inr (True, motion_both ex x width full start w)))
       else if moving_top w then res_bind (motion_top te ex w) (\<lambda>w. Inr (True, w))
       else
         case get_data_rectangle (graph w) of (d_x, d_y, d_width, d_height) \<Rightarrow> Inr
           (between ey y height \<and> (num_near ex x \<or> num_near ex (num_add x width) \<or> between ex x width)
            \<or> between ey d_y d_height \<and> between ex d_x d_width, w))"

definition size_allocate :: "extents \<Rightarrow> pynum \<Rightarrow> pynum \<Rightarrow> gtk \<Rightarrow> gtk result" where
  "size_allocate te width height w =
     res_bind (graphic_layout te width height (graph w)) (\<lambda>g.
       Inr (w\<lparr>gtk_width := Some width, gtk_height := Some height, graph := g, force_full_redraw := True\<rparr>))"

subsection \<open>The scale\<close>

lemma closest_loop_bounds:
  "\<exists>k. closest_loop d i = 10 ^ k \<and> d \<le> 10 * 10 ^ k \<and> (k \<noteq> i \<longrightarrow> 10 ^ k < d) \<and> i \<le> k"
proof (induction d i rule: closest_loop.induct)
  case (1 d i)
  show ?case
  proof (cases "of_int (10 ^ i * 10) < d")
    case True
    then obtain k where k: "closest_loop d (Suc i) = 10 ^ k" "d \<le> 10 * 10 ^ k" "k \<noteq> Suc i \<longrightarrow> 10 ^ k < d" "Suc i \<le> k"
      using 1 by blast
    moreover have "10 ^ k < d" if "k = Suc i" using True that by (simp add: mult.commute)
    ultimately show ?thesis using True by (subst closest_loop.simps) (auto intro!: exI [of _ k])
  next
    case False
    then show ?thesis by (subst closest_loop.simps) (auto intro!: exI [of _ i])
  qed
qed

text \<open>
  The scale divides its bounds by a step that is a power of ten: the layout raises \<open>ZeroDivisionError\<close> exactly
  if the bounds are one apart (the step is then \<open>1 / 10\<close>, which is 0); otherwise it succeeds with a
  positive step and the bounds are at most twenty steps apart.
\<close>

theorem scale_layout_ticks:
  "(if val (sc_hi s) - val (sc_lo s) = 1 then scale_layout te width s = Inl ZeroDivisionError
    else \<exists>s'. scale_layout te width s = Inr s' \<and> 0 < val (sc_delta s')
      \<and> val (sc_hi s) - val (sc_lo s) \<le> 20 * val (sc_delta s') \<and> sc_width s' = width
      \<and> sc_lo s' = sc_lo s \<and> sc_hi s' = sc_hi s)"
proof -
  define dd where "dd = num_sub (sc_hi s) (sc_lo s)"
  define d where "d = val dd"
  have d: "d = val (sc_hi s) - val (sc_lo s)" by (simp add: d_def dd_def)
  obtain k where k: "closest_loop d 0 = 10 ^ k" "d \<le> 10 * 10 ^ k" "k \<noteq> 0 \<longrightarrow> 10 ^ k < d"
    using closest_loop_bounds [of d 0] by blast
  obtain q where q: "num_div dd (PyInt (10 ^ k)) = Inr q" using num_div_ok(1) [of "PyInt (10 ^ k)" dd] by auto
  have qb: "val q \<le> d / 10 ^ k" "d / 10 ^ k < val q + 1" using num_div_Inr(1,2) [OF q] by (simp_all add: d_def)
  have mods: "0 < val delta \<Longrightarrow> \<exists>r. num_mod a delta = Inr r" for a delta using num_div_ok(2) [of delta a] by auto
  have lay: "scale_layout te width s = res_bind
      (if val q = 0 then Inr (PyInt (10 ^ k)) else if val q = 1 then num_div (PyInt (10 ^ k)) (PyInt 10) else Inr (PyInt (10 ^ k)))
      (\<lambda>delta. res_bind (num_mod (sc_lo s) delta) (\<lambda>_. res_bind (num_mod (sc_hi s) delta) (\<lambda>_.
        Inr (s\<lparr>sc_delta := delta, sc_width := width, sc_height := num_add (snd (te alphabet)) (PyInt 10)\<rparr>))))"
    using q k(1) by (simp add: scale_layout_def Let_def flip: dd_def d_def)
  have ok: ?thesis if "d \<noteq> 1" "0 < val delta" "d \<le> 20 * val delta"
      "(if val q = 0 then Inr (PyInt (10 ^ k)) else if val q = 1 then num_div (PyInt (10 ^ k)) (PyInt 10) else Inr (PyInt (10 ^ k))) = Inr delta" for delta
    using that mods [of delta "sc_lo s"] mods [of delta "sc_hi s"] unfolding lay by (auto simp: d)
  show ?thesis
  proof (cases "val q = 1")
    case False
    have "d \<noteq> 1"
    proof
      assume "d = 1"
      moreover have "1 \<le> (10 :: rat) ^ k" by simp
      ultimately have "k = 0" using k(3) by (metis not_less)
      then have "val q = 1" using q \<open>d = 1\<close> by (auto simp: d_def num_div_def split: pynum.splits)
      then show False using False by simp
    qed
    moreover have "d \<le> 20 * 10 ^ k" using k(2) zero_less_power [of "10 :: rat" k] by linarith
    ultimately show ?thesis using ok [of "PyInt (10 ^ k)"] False by simp
  next
    case True
    show ?thesis
    proof (cases k)
      case 0
      then have "d = 1" using True q by (auto simp: d_def num_div_def split: pynum.splits)
      then show ?thesis using 0 True unfolding lay by (simp add: num_div_def num_mod_def d)
    next
      case (Suc j)
      then have "1 < d" using k(3) one_le_power [of "10 :: rat" k] by (auto intro: le_less_trans)
      moreover have "d < 20 * 10 ^ j" using qb(2) True Suc by (simp add: divide_less_eq mult.commute)
      moreover have "num_div (PyInt (10 ^ k)) (PyInt 10) = Inr (PyInt (10 ^ j))" using Suc by (simp add: num_div_def)
      ultimately show ?thesis using ok [of "PyInt (10 ^ j)"] True by simp
    qed
  qed
qed

subsection \<open>The selected range\<close>

definition range_ok :: "graphic \<Rightarrow> bool" where
  "range_ok g \<longleftrightarrow> (\<exists>a b. r_range g = Some (a, b) \<and> val (g_start g) \<le> val a \<and> val a \<le> val b \<and> val b \<le> val (g_end g))"

lemma scale_layout_frame:
  assumes "scale_layout te width s = Inr s'"
  shows "sc_width s' = width \<and> sc_lo s' = sc_lo s \<and> sc_hi s' = sc_hi s"
  using assms by (auto simp: scale_layout_def Let_def res_bind_Inr_iff)

lemma graphic_layout_frame:
  assumes "graphic_layout te width height g = Inr g'"
  shows "g_start g' = g_start g \<and> g_end g' = g_end g \<and> r_range g' = r_range g \<and> g_width g' = width \<and> g_height g' = height
    \<and> sc_width (bot_scale g') = width \<and> sc_lo (bot_scale g') = sc_lo (bot_scale g) \<and> sc_hi (bot_scale g') = sc_hi (bot_scale g)"
  using assms by (auto simp: graphic_layout_def Let_def res_bind_Inr_iff dest: scale_layout_frame)

lemma set_range_frame:
  assumes "set_range te s e g = Inr g'"
  shows "g_start g' = g_start g \<and> g_end g' = g_end g \<and> g_width g' = g_width g \<and> g_height g' = g_height g
    \<and> r_range g' = Some (num_max (g_start g) (num_min s e), num_min (g_end g) (num_max s e))
    \<and> sc_width (bot_scale g') = g_width g \<and> sc_lo (bot_scale g') = sc_lo (bot_scale g) \<and> sc_hi (bot_scale g') = sc_hi (bot_scale g)"
proof -
  let ?a = "num_max (g_start g) (num_min s e)" and ?b = "num_min (g_end g) (num_max s e)"
  have "graphic_layout te (g_width g) (g_height g) (g\<lparr>r_range := Some (?a, ?b), g_data := set_render_range ?a ?b (g_data g),
      mid_scale := set_bounds ?a ?b (mid_scale g)\<rparr>) = Inr g'"
    using assms by (simp add: set_range_def Let_def)
  from graphic_layout_frame [OF this] show ?thesis by simp
qed

text \<open>
  \<open>set_range\<close> orders and clips: the new range never leaves the data on the side it is clipped on, and it is a
  proper range (start before end, inside the data) exactly if the requested window meets the data; a window
  that lies wholly beside the data leaves a range whose start is after its end.
\<close>

theorem set_range_clips:
  assumes "set_range te s e g = Inr g'" "val (g_start g) \<le> val (g_end g)"
  shows "range_ok g' \<longleftrightarrow> min (val s) (val e) \<le> val (g_end g) \<and> val (g_start g) \<le> max (val s) (val e)"
  using set_range_frame [OF assms(1)] assms(2) by (auto simp: range_ok_def)

subsection \<open>Mouse and buttons\<close>





subsection \<open>Dragging the selection\<close>







lemma press_branches:
  assumes "(r, w') = (if P then (True, w1) else if Q then (True, w2) else if R then (True, w3) else if S then (True, w4) else (False, w))"
  shows "w' = w1 \<or> w' = w2 \<or> w' = w3 \<and> \<not> P \<and> \<not> Q \<and> R \<or> w' = w4 \<or> w' = w"
  using assms by (auto split: if_splits)

lemma button_press_cases:
  assumes "button_press ex ey w = Inr (r, w')"
  obtains x y width height where "get_selection_rectangle (graph w) = Inr (x, y, width, height)"
    "w' = w\<lparr>moving_left := True\<rparr> \<or> w' = w\<lparr>moving_right := True\<rparr>
     \<or> w' = w\<lparr>moving_both := True, moving_both_start := Some ex, moving_both_cur := Some ex\<rparr>
       \<and> \<not> (between ey y height \<and> num_near ex x) \<and> \<not> (between ey y height \<and> num_near ex (num_add x width))
       \<and> between ey y height \<and> between ex x width
     \<or> w' = w\<lparr>moving_top := True, moving_top_start := Some ex, moving_top_cur := Some ex\<rparr> \<or> w' = w"
proof -
  obtain x y width height where s: "get_selection_rectangle (graph w) = Inr (x, y, width, height)"
    using assms by (auto simp: button_press_def res_bind_Inr_iff)
  obtain d_x d_y d_width d_height where d: "get_data_rectangle (graph w) = (d_x, d_y, d_width, d_height)"
    by (metis prod_cases4)
  have eq: "(r, w') = (if between ey y height \<and> num_near ex x then (True, w\<lparr>moving_left := True\<rparr>)
      else if between ey y height \<and> num_near ex (num_add x width) then (True, w\<lparr>moving_right := True\<rparr>)
      else if between ey y height \<and> between ex x width then
        (True, w\<lparr>moving_both := True, moving_both_start := Some ex, moving_both_cur := Some ex\<rparr>)
      else if between ey d_y d_height \<and> between ex d_x d_width then
        (True, w\<lparr>moving_top := True, moving_top_start := Some ex, moving_top_cur := Some ex\<rparr>)
      else (False, w))"
    using assms s d by (simp add: button_press_def)
  show ?thesis by (rule that [OF s press_branches [OF eq]])
qed

















theorem set_range_clips_witness:
  "\<exists>g'. set_range (\<lambda>s. (PyInt 5, PyInt 8)) (PyInt 90) (PyInt 20)
     (new_graphic (PyInt 0) (PyInt 50) (new_top_legend []) (new_data_view [])) = Inr g' \<and> range_ok g'"
proof -
  let ?g = "new_graphic (PyInt 0) (PyInt 50) (new_top_legend []) (new_data_view [])"
  have "case set_range (\<lambda>s. (PyInt 5, PyInt 8)) (PyInt 90) (PyInt 20) ?g of Inr g' \<Rightarrow> True | Inl e \<Rightarrow> False"
    by code_simp
  then obtain g' where g': "set_range (\<lambda>s. (PyInt 5, PyInt 8)) (PyInt 90) (PyInt 20) ?g = Inr g'"
    by (auto split: sum.splits)
  from set_range_clips [OF this] have "range_ok g'" by (simp add: new_graphic_def)
  then show ?thesis using g' by blast
qed

text \<open>
  \<open>moving_left_cur\<close> and \<open>moving_right_cur\<close> are set by the first motion of a handle only. Before that, a click on a
  handle (press and release with no motion between) raises \<open>AttributeError\<close> in the release; and so does a drag
  of the right handle beyond the right border, since that branch of \<open>motion_notify\<close> assigns \<open>moving_right\<close>
  instead of \<open>moving_right_cur\<close>.
\<close>

theorem handle_click_raises:
  assumes "button_press ex ey w = Inr (r, w')" "moving_left w' \<or> moving_right w'"
    and "moving_left_cur w = None" "moving_right_cur w = None"
  shows "button_release te w' = Inl AttributeError
    \<and> (\<not> moving_left w' \<and> gtk_width w = Some full \<and> 0 < val full \<and> val full \<le> val ex' \<longrightarrow>
         (\<exists>w''. motion_notify te ex' ey' w' = Inr (True, w'') \<and> button_release te w'' = Inl AttributeError))"
proof -
  from assms(1) obtain x y width height where s: "get_selection_rectangle (graph w) = Inr (x, y, width, height)"
      and f: "graph w' = graph w \<and> gtk_width w' = gtk_width w \<and> moving_left_cur w' = moving_left_cur w \<and> moving_right_cur w' = moving_right_cur w"
    by (elim button_press_cases disjE conjE) auto
  then show ?thesis using assms(2-4)
    by (auto simp: button_release_def motion_notify_def motion_right_def Let_def attr_def)
qed

theorem handle_click_raises_witness:
  "\<exists>w r w'. button_press (PyFloat 110) (PyFloat 80) w = Inr (r, w') \<and> moving_right w'
     \<and> button_release (\<lambda>s. (PyInt 5, PyInt 8)) w' = Inl AttributeError
     \<and> (\<exists>w''. motion_notify (\<lambda>s. (PyInt 5, PyInt 8)) (PyFloat 250) (PyFloat 80) w' = Inr (True, w'')
          \<and> button_release (\<lambda>s. (PyInt 5, PyInt 8)) w'' = Inl AttributeError)"
proof -
  let ?te = "\<lambda>s :: string. (PyInt 5, PyInt 8)"
  have "res_bind (main_graphic ?te 0 100 [''a''] []) (\<lambda>g.
      res_bind (size_allocate ?te (PyInt 200) (PyInt 100) (new_gtk g)) (\<lambda>w.
      res_bind (button_press (PyFloat 110) (PyFloat 80) w) (\<lambda>(_, w').
      Inr (gtk_width w, moving_left_cur w, moving_right_cur w, moving_left w', moving_right w'))))
    = Inr (Some (PyInt 200), None, None, False, True)"
    by code_simp
  then obtain w r w' where w: "button_press (PyFloat 110) (PyFloat 80) w = Inr (r, w')" "gtk_width w = Some (PyInt 200)"
      "moving_left_cur w = None" "moving_right_cur w = None" "\<not> moving_left w'" "moving_right w'"
    by (auto simp: res_bind_Inr_iff)
  show ?thesis
    using handle_click_raises [OF w(1) _ w(3,4), of ?te "PyInt 200" "PyFloat 250" "PyFloat 80"] w by auto
qed

end
