(* ===== verification/Wutils.thy ===== *)
theory Wutils
  imports Shellcmd
begin

text \<open>
  \<open>src/wutils.py\<close>: how the build finds a program of the simulator and runs it. What waf knows (the task
  generators, the build environment, the options, the directories) is the record \<open>waf\<close>; the paths of its
  node objects appear in it as strings. Starting a process is the parameter \<open>popen\<close>, which gives the return code
  and what was written to the standard error, or raises.
\<close>

subsection \<open>What waf provides\<close>

record task_gen =
  is_ns3_program :: bool
  tg_name :: string
  tg_path :: string
  tg_bld_path :: string
  tg_target_path :: string

type_synonym environment = "(string, string) dict"

record waf =
  all_task_gen :: "task_gen list"
  NS3_MODULE_PATH :: "string list"
  NS3_EXECUTABLE_PATH :: "string list"
  VALGRIND_PROGS :: "string list"
  PYTHON_PROGS :: "string list"
  pymoddir :: string
  pyvizdir :: string
  launch_dir :: string
  getcwd :: string
  sys_platform :: string
  os_environ :: environment
  command_template_opt :: "string option"
  valgrind_option :: bool
  cwd_launch_opt :: "string option"
  cwd_launch :: string

type_synonym proc_start = "string list \<Rightarrow> environment \<Rightarrow> string option \<Rightarrow> (int \<times> string) result"

subsection \<open>Programs\<close>

text \<open>\<open>x or '%s'\<close>: \<open>None\<close> and the empty string are false\<close>

definition get_command_template :: "waf \<Rightarrow> string list \<Rightarrow> string" where
  "get_command_template w arguments =
     foldl (\<lambda>cmd arg. cmd @ '' '' @ arg)
       (case command_template_opt w of None \<Rightarrow> ''%s'' | Some t \<Rightarrow> if t = [] then ''%s'' else t) arguments"

definition program_names :: "waf \<Rightarrow> task_gen \<Rightarrow> string list result" where
  "program_names w obj =
     res_bind (relpath (getcwd w) (tg_path obj) (abspath (getcwd w) (launch_dir w))) (\<lambda>r.
       Inr [tg_name obj, path_join r [tg_name obj]])"

fun find_program_loop :: "waf \<Rightarrow> string \<Rightarrow> task_gen list \<Rightarrow> task_gen result" where
  "find_program_loop w program_name [] = Inl ValueError"
| "find_program_loop w program_name (obj # objs) =
     (let launch = abspath (getcwd w) (launch_dir w) in
      if \<not> is_ns3_program obj then find_program_loop w program_name objs
      else if \<not> (py_startswith (tg_path obj) launch \<or> py_startswith (tg_bld_path obj) launch)
      then find_program_loop w program_name objs
      else
        res_bind (program_names w obj) (\<lambda>names.
          if program_name \<in> set names then Inr obj else find_program_loop w program_name objs))"

definition find_program :: "waf \<Rightarrow> string \<Rightarrow> task_gen result" where
  "find_program w program_name = find_program_loop w program_name (all_task_gen w)"

subsection \<open>The environment of a process\<close>

definition path_variable :: "waf \<Rightarrow> string" where
  "path_variable w =
     (if sys_platform w = ''linux2'' \<or> sys_platform w = ''linux'' then ''LD_LIBRARY_PATH''
      else if sys_platform w = ''darwin'' then ''DYLD_LIBRARY_PATH''
      else if sys_platform w = ''win32'' then ''PATH''
      else if sys_platform w = ''cygwin'' then ''PATH''
      else if py_startswith (sys_platform w) ''freebsd'' then ''LD_LIBRARY_PATH''
      else ''LD_LIBRARY_PATH'')"

definition pathsep :: "waf \<Rightarrow> string" where
  "pathsep w = (if sys_platform w = ''win32'' then '';'' else '':'')"

definition dict_update :: "('k, 'v) dict \<Rightarrow> ('k, 'v) dict \<Rightarrow> ('k, 'v) dict" where
  "dict_update d e = foldl (\<lambda>d (k, v). dict_set k v d) d e"

definition prepend_path :: "waf \<Rightarrow> string \<Rightarrow> string list \<Rightarrow> environment \<Rightarrow> environment" where
  "prepend_path w var dirs env =
     (case map_of env var of
        Some old \<Rightarrow> dict_set var (py_join (pathsep w) (dirs @ [old])) env
      | None \<Rightarrow> dict_set var (py_join (pathsep w) dirs) env)"

definition get_proc_env :: "waf \<Rightarrow> environment option \<Rightarrow> environment" where
  "get_proc_env w os_env =
     (let proc_env = (case os_env of None \<Rightarrow> os_environ w | Some e \<Rightarrow> dict_update (os_environ w) e);
          proc_env = prepend_path w (path_variable w) (NS3_MODULE_PATH w) proc_env;
          proc_env = prepend_path w ''PYTHONPATH'' [pymoddir w, pyvizdir w] proc_env
      in prepend_path w ''PATH'' (NS3_EXECUTABLE_PATH w) proc_env)"

subsection \<open>Running\<close>

text \<open>
  The text of the standard error is decoded and then enumerated character by character; \<open>leak_seen\<close> is the
  test made on each.
\<close>

definition leak_seen :: "string \<Rightarrow> bool" where
  "leak_seen stderrdata \<longleftrightarrow> list_ex (\<lambda>c. py_contains ''== LEAK SUMMARY'' [c]) stderrdata"

definition run_argv ::
  "proc_start \<Rightarrow> waf \<Rightarrow> string list \<Rightarrow> environment option \<Rightarrow> string option \<Rightarrow> bool \<Rightarrow> int result" where
  "run_argv popen w args os_env cwd force_no_valgrind =
     (let proc_env = get_proc_env w os_env in
      res_bind
        (if valgrind_option w \<and> \<not> force_no_valgrind then
           if command_template_opt w \<noteq> None \<and> command_template_opt w \<noteq> Some [] then Inl WafError
           else case VALGRIND_PROGS w of
             [] \<Rightarrow> Inl WafError
           | valgrind # _ \<Rightarrow>
               res_bind (popen ([valgrind, ''--leak-check=full'', ''--show-reachable=yes'', ''--error-exitcode=1''] @ args)
                           proc_env cwd) (\<lambda>(retval, stderrdata).
               res_bind (py_decode stderrdata) (\<lambda>stderrdata.
               Inr (if retval = 0 \<and> leak_seen stderrdata then 1 else retval)))
         else
           case popen args proc_env cwd of
             Inl e \<Rightarrow> Inl (if sys_platform w = ''win32'' \<and> e = OSError then WafError else e)
           | Inr (retval, _) \<Rightarrow> Inr retval)
        (\<lambda>retval. if retval \<noteq> 0 then Inl WafError else Inr retval))"

text \<open>
  \<open>template % (arg,)\<close>. Only the conversions \<open>%s\<close> and \<open>%%\<close> are in the model; any other one is
  marked with \<open>NotImplementedError\<close>. A second \<open>%s\<close> and an argument that is left over raise \<open>TypeError\<close>.
\<close>

fun percent :: "string \<Rightarrow> string list \<Rightarrow> string result" where
  "percent [] args = (if args = [] then Inr [] else Inl TypeError)"
| "percent (c # cs) args =
     (if c \<noteq> CHR ''%'' then res_bind (percent cs args) (\<lambda>r. Inr (c # r))
      else case cs of
        [] \<Rightarrow> Inl ValueError
      | d # ds \<Rightarrow>
          if d = CHR ''%'' then res_bind (percent ds args) (\<lambda>r. Inr (CHR ''%'' # r))
          else if d = CHR ''s'' then
            (case args of [] \<Rightarrow> Inl TypeError | a # as \<Rightarrow> res_bind (percent ds as) (\<lambda>r. Inr (a @ r)))
          else Inl NotImplementedError)"

definition double_backslashes :: "string \<Rightarrow> string" where
  "double_backslashes s = concat (map (\<lambda>c. if c = backslash then [backslash, backslash] else [c]) s)"

definition find_program_waf :: "waf \<Rightarrow> string \<Rightarrow> task_gen result" where
  "find_program_waf w name = (case find_program w name of Inl ValueError \<Rightarrow> Inl WafError | r \<Rightarrow> r)"

definition get_run_program :: "waf \<Rightarrow> string \<Rightarrow> string option \<Rightarrow> (string \<times> string list) result" where
  "get_run_program w program_string command_template =
     (case command_template of
        None \<Rightarrow>
          res_bind (shlex_split program_string) (\<lambda>args.
          res_bind (py_get args 0) (\<lambda>program_name.
          res_bind (find_program_waf w program_name) (\<lambda>obj.
          Inr (program_name, tg_target_path obj # py_slice_from args 1))))
      | Some template \<Rightarrow>
          if template = ''%s'' then
            res_bind (shlex_split program_string) (\<lambda>args.
            res_bind (py_get args 0) (\<lambda>program_name.
            res_bind (find_program_waf w program_name) (\<lambda>obj.
            Inr (program_name, tg_target_path obj # py_slice_from args 1))))
          else
            res_bind (find_program_waf w program_string) (\<lambda>obj.
            res_bind (percent template [tg_target_path obj]) (\<lambda>tmpl.
            res_bind (shlex_split (double_backslashes tmpl)) (\<lambda>execvec.
            Inr (program_string, execvec)))))"

definition visual_flag :: "bool \<Rightarrow> string list \<Rightarrow> string list" where
  "visual_flag visualize execvec =
     (if visualize then execvec @ [''--SimulatorImplementationType=ns3::VisualSimulatorImpl''] else execvec)"

definition launch_cwd :: "waf \<Rightarrow> string" where
  "launch_cwd w = (case cwd_launch_opt w of None \<Rightarrow> cwd_launch w | Some d \<Rightarrow> if d = [] then cwd_launch w else d)"

definition run_program ::
  "proc_start \<Rightarrow> waf \<Rightarrow> string \<Rightarrow> string option \<Rightarrow> string option \<Rightarrow> bool \<Rightarrow> int result" where
  "run_program popen w program_string command_template cwd visualize =
     res_bind (get_run_program w program_string command_template) (\<lambda>(_, execvec).
       run_argv popen w (visual_flag visualize execvec) None
         (Some (case cwd of None \<Rightarrow> launch_cwd w | Some d \<Rightarrow> d)) False)"

definition run_python_program :: "proc_start \<Rightarrow> waf \<Rightarrow> string \<Rightarrow> bool \<Rightarrow> int result" where
  "run_python_program popen w program_string visualize =
     res_bind (shlex_split program_string) (\<lambda>execvec.
     res_bind (py_get (PYTHON_PROGS w) 0) (\<lambda>python.
       run_argv popen w ([python] @ visual_flag visualize execvec) None (Some (launch_cwd w)) False))"

subsection \<open>uniquify_list\<close>

fun uniquify_seen :: "'a set \<Rightarrow> 'a list \<Rightarrow> 'a list" where
  "uniquify_seen seen [] = []"
| "uniquify_seen seen (x # xs) = (if x \<in> seen then uniquify_seen seen xs else x # uniquify_seen (insert x seen) xs)"

definition uniquify_list :: "'a list \<Rightarrow> 'a list" where
  "uniquify_list xs = uniquify_seen {} xs"

subsection \<open>The environment\<close>

lemma map_of_dict_update: "dict_ok e \<Longrightarrow> map_of (dict_update d e) = map_of d ++ map_of e"
proof (induction e arbitrary: d)
  case (Cons kv e)
  obtain k v where kv: "kv = (k, v)" by fastforce
  then have ok: "dict_ok e" "k \<notin> set (dict_keys e)" using Cons.prems by (auto simp: dict_ok_def)
  then have "map_of e k = None" by (simp add: set_dict_keys domIff)
  then show ?case
    using Cons.IH [OF ok(1), of "dict_set k v d"] kv
    by (auto simp: dict_update_def fun_eq_iff map_add_def split: option.split)
qed (simp add: dict_update_def)

definition path_value :: "waf \<Rightarrow> string list \<Rightarrow> string option \<Rightarrow> string" where
  "path_value w dirs old = py_join (pathsep w) (dirs @ (case old of None \<Rightarrow> [] | Some o' \<Rightarrow> [o']))"

lemma map_of_prepend_path:
  "map_of (prepend_path w var dirs env) = (map_of env)(var \<mapsto> path_value w dirs (map_of env var))"
  by (auto simp: prepend_path_def path_value_def split: option.split)

text \<open>
  The environment of a started program: the caller's variables override the inherited ones; the directories
  of the modules, of the Python bindings and of the executables come first in the library path of the
  platform, in \<open>PYTHONPATH\<close> and in \<open>PATH\<close>, followed by the former value if there is one; on the
  platforms whose library path is \<open>PATH\<close> itself, \<open>PATH\<close> gets both; no other variable changes.
\<close>

theorem get_proc_env_spec:
  assumes "dict_ok e" "base = map_of (os_environ w) ++ map_of e"
  shows "map_of (get_proc_env w (Some e)) v =
    (if v = ''PATH'' then
       Some (path_value w (NS3_EXECUTABLE_PATH w)
         (if path_variable w = ''PATH'' then Some (path_value w (NS3_MODULE_PATH w) (base ''PATH'')) else base ''PATH''))
     else if v = ''PYTHONPATH'' then Some (path_value w [pymoddir w, pyvizdir w] (base ''PYTHONPATH''))
     else if v = path_variable w then Some (path_value w (NS3_MODULE_PATH w) (base v))
     else base v)"
proof -
  have "path_variable w \<noteq> ''PYTHONPATH''" by (simp add: path_variable_def)
  then show ?thesis
    by (simp add: get_proc_env_def Let_def map_of_prepend_path map_of_dict_update [OF assms(1)] assms(2))
qed

definition sample_waf :: waf where
  "sample_waf = \<lparr>all_task_gen = [\<lparr>is_ns3_program = True, tg_name = ''first'', tg_path = ''/ns3/examples'',
       tg_bld_path = ''/ns3/build/examples'', tg_target_path = ''/ns3/build/examples/first''\<rparr>],
     NS3_MODULE_PATH = [''/ns3/build''], NS3_EXECUTABLE_PATH = [''/ns3/build/utils''], VALGRIND_PROGS = [''/usr/bin/valgrind''],
     PYTHON_PROGS = [''python3''], pymoddir = ''/ns3/build/bindings/python'', pyvizdir = ''/ns3/src/visualizer'',
     launch_dir = ''/ns3'', getcwd = ''/ns3'', sys_platform = ''linux'',
     os_environ = [(''PATH'', ''/bin''), (''HOME'', ''/root'')], command_template_opt = None, valgrind_option = True,
     cwd_launch_opt = None, cwd_launch = ''/ns3''\<rparr>"

theorem get_proc_env_spec_witness:
  "map_of (get_proc_env sample_waf (Some [(''HOME'', ''/tmp'')])) ''PATH'' = Some ''/ns3/build/utils:/bin''
    \<and> map_of (get_proc_env sample_waf (Some [(''HOME'', ''/tmp'')])) ''HOME'' = Some ''/tmp''"
proof -
  note spec = get_proc_env_spec [of "[(''HOME'', ''/tmp'')]" _ sample_waf, OF _ refl]
  show ?thesis using spec [of "''PATH''"] spec [of "''HOME''"]
    by (simp add: dict_ok_def path_value_def pathsep_def path_variable_def sample_waf_def)
qed

subsection \<open>Running\<close>

lemma no_leak_seen: "\<not> leak_seen s"
  by (auto simp: leak_seen_def list_ex_iff py_startswith_def)

text \<open>
  \<open>run_argv\<close> under valgrind: the loop that looks for a leak summary enumerates the characters of the error
  output, not its lines, so no output whatever is taken for a leak: a program that exits with 0 is
  reported as a success although valgrind has printed a summary of leaks, and every other exit code raises
  \<open>WafError\<close>.
\<close>

theorem valgrind_leaks_ignored:
  assumes "valgrind_option w" "command_template_opt w = None" "VALGRIND_PROGS w = valgrind # others"
    and "popen ([valgrind, ''--leak-check=full'', ''--show-reachable=yes'', ''--error-exitcode=1''] @ args)
      (get_proc_env w os_env) cwd = Inr (retval, err)" "utf8_valid err"
  shows "run_argv popen w args os_env cwd False = (if retval = 0 then Inr 0 else Inl WafError)"
  using assms by (simp add: run_argv_def Let_def py_decode_def no_leak_seen)

theorem valgrind_leaks_ignored_witness:
  "run_argv (\<lambda>_ _ _. Inr (0, ''==42== LEAK SUMMARY:'')) sample_waf [''./a.out''] None None False = Inr 0"
proof -
  have "utf8_valid ''==42== LEAK SUMMARY:''" by (rule utf8_ascii) auto
  then show ?thesis
    using valgrind_leaks_ignored [of sample_waf "''/usr/bin/valgrind''" "[]" "\<lambda>_ _ _. Inr (0, ''==42== LEAK SUMMARY:'')"
        "[''./a.out'']" None None 0 "''==42== LEAK SUMMARY:''"]
    by (simp add: sample_waf_def)
qed

subsection \<open>The program and its arguments\<close>




lemma double_backslashes_simps [simp]:
  "double_backslashes [] = []"
  "double_backslashes (c # s) = (if c = backslash then backslash # backslash # double_backslashes s else c # double_backslashes s)"
  "double_backslashes (s @ t) = double_backslashes s @ double_backslashes t"
  by (simp_all add: double_backslashes_def)










subsection \<open>uniquify_list\<close>

lemma uniquify_filter: "uniquify_seen seen xs = filter (\<lambda>x. x \<notin> seen) (uniquify_list xs)"
proof (induction xs arbitrary: seen)
  case (Cons x xs)
  have "uniquify_list (x # xs) = x # filter (\<lambda>y. y \<noteq> x) (uniquify_list xs)"
    using Cons [of "{x}"] by (simp add: uniquify_list_def)
  then show ?case using Cons [of seen] Cons [of "insert x seen"] by (auto simp: conj_commute intro: filter_cong)
qed (simp add: uniquify_list_def)

lemma uniquify_list_Cons: "uniquify_list (x # xs) = x # filter (\<lambda>y. y \<noteq> x) (uniquify_list xs)"
  using uniquify_filter [of "{x}" xs] by (simp add: uniquify_list_def)

lemma uniquify_list_spec: "distinct (uniquify_list xs) \<and> set (uniquify_list xs) = set xs"
proof (induction xs)
  case Nil
  then show ?case by (simp add: uniquify_list_def)
qed (auto simp: uniquify_list_Cons)

end
