(* ===== verification/Cflags.thy ===== *)
theory Cflags
  imports Py_String
begin

text \<open>
  \<open>src/waf-tools/cflags.py\<close>: the compiler flags of a build profile. The three classes of traits are the
  constructors of \<open>traits\<close>; a method that returns \<open>None\<close> at the end of its chain of tests gives \<open>None\<close>. The
  environment of the configuration is a function from names to lists of flags; waf's method
  \<open>append_value\<close> is a parameter of \<open>configure\<close>. \<open>warnings.remove\<close>, whose \<open>ValueError\<close> is caught, is \<open>remove1\<close>.
\<close>

datatype traits = GccTraits | IccTraits | MsvcTraits

text \<open>The lists of warnings per level, set by the classes' initializers\<close>

definition gcc_warnings_flags :: "string list list" where
  "gcc_warnings_flags = [[''-Wall''], [''-Werror''], [''-Wextra'']]"

definition icc_warnings_flags :: "string list list" where
  "icc_warnings_flags = [[], [], [''-Wall'']]"

definition msvc_warnings_flags :: "string list list" where
  "msvc_warnings_flags = [[''/W2''], [''/WX''], [''/Wall'']]"

fun warnings_flags :: "traits \<Rightarrow> string list list" where
  "warnings_flags GccTraits = gcc_warnings_flags"
| "warnings_flags IccTraits = icc_warnings_flags"
| "warnings_flags MsvcTraits = msvc_warnings_flags"

text \<open>The three classes have the same loop.\<close>

fun warnings_loop :: "string list list \<Rightarrow> int list \<Rightarrow> string list \<Rightarrow> string list" where
  "warnings_loop flags [] warnings = warnings"
| "warnings_loop flags (l # ls) warnings =
     (if l < int (length flags) then warnings_loop flags ls (warnings @ flags ! nat l) else warnings)"

definition get_warnings_flags :: "traits \<Rightarrow> int \<Rightarrow> string list" where
  "get_warnings_flags t level = warnings_loop (warnings_flags t) (map int [0..<nat level]) []"

definition gcc_optimization_flags :: "int \<Rightarrow> string list option" where
  "gcc_optimization_flags level =
     (if level = 0 then Some [''-O0''] else if level = 1 then Some [''-O'']
      else if level = 2 then Some [''-O2''] else if level = 3 then Some [''-O3''] else None)"

definition icc_optimization_flags :: "int \<Rightarrow> string list option" where
  "icc_optimization_flags level =
     (if level = 0 then Some [''-O0''] else if level = 1 then Some [''-O'']
      else if level = 2 then Some [''-O2''] else if level = 3 then Some [''-O3''] else None)"

definition msvc_optimization_flags :: "int \<Rightarrow> string list option" where
  "msvc_optimization_flags level =
     (if level = 0 then Some [''/Od''] else if level = 1 then Some []
      else if level = 2 then Some [''/O2''] else if level = 3 then Some [''/Ox''] else None)"

fun get_optimization_flags :: "traits \<Rightarrow> int \<Rightarrow> string list option" where
  "get_optimization_flags GccTraits level = gcc_optimization_flags level"
| "get_optimization_flags IccTraits level = icc_optimization_flags level"
| "get_optimization_flags MsvcTraits level = msvc_optimization_flags level"

definition gcc_debug_flags :: "int \<Rightarrow> (string list \<times> string list) option" where
  "gcc_debug_flags level =
     (if level = 0 then Some ([''-g0''], [''NDEBUG'']) else if level = 1 then Some ([''-g''], [])
      else if 2 \<le> level then Some ([''-ggdb'', ''-g3''], [''_DEBUG'']) else None)"

definition icc_debug_flags :: "int \<Rightarrow> (string list \<times> string list) option" where
  "icc_debug_flags level =
     (if level = 0 then Some ([''-g0''], [''NDEBUG'']) else if level = 1 then Some ([''-g''], [])
      else if 2 \<le> level then Some ([''-ggdb'', ''-g3''], [''_DEBUG'']) else None)"

definition msvc_debug_flags :: "int \<Rightarrow> (string list \<times> string list) option" where
  "msvc_debug_flags level =
     (if level = 0 then Some ([], [''NDEBUG'']) else if level = 1 then Some ([''/ZI'', ''/RTC1''], [])
      else if 2 \<le> level then Some ([''/ZI'', ''/RTC1''], [''_DEBUG'']) else None)"

fun get_debug_flags :: "traits \<Rightarrow> int \<Rightarrow> (string list \<times> string list) option" where
  "get_debug_flags GccTraits level = gcc_debug_flags level"
| "get_debug_flags IccTraits level = icc_debug_flags level"
| "get_debug_flags MsvcTraits level = msvc_debug_flags level"

lemmas flag_tables = gcc_warnings_flags_def icc_warnings_flags_def msvc_warnings_flags_def
  gcc_optimization_flags_def icc_optimization_flags_def msvc_optimization_flags_def
  gcc_debug_flags_def icc_debug_flags_def msvc_debug_flags_def

definition compiler_mapping :: "(string, traits) dict" where
  "compiler_mapping =
     [(''gcc'', GccTraits), (''g++'', GccTraits), (''msvc'', MsvcTraits), (''icc'', IccTraits), (''icpc'', IccTraits),
      (''clang'', GccTraits), (''clang++'', GccTraits)]"

text \<open>Profile name: optimization level, warnings level, debug level\<close>

definition profiles :: "(string, int \<times> int \<times> int) dict" where
  "profiles = [(''default'', 2, 1, 1), (''debug'', 0, 2, 3), (''release'', 3, 1, 0)]"

type_synonym conf_env = "string \<Rightarrow> string list"

text \<open>
  A compiler of the environment is a name, or nothing (\<open>x or None\<close>); the key looked up first is the C
  compiler's. The early return with a warning leaves the environment as it is.
\<close>

definition find_traits :: "string option \<Rightarrow> string option \<Rightarrow> traits option" where
  "find_traits cc cxx =
     (case Option.bind cc (map_of compiler_mapping) of
        Some t \<Rightarrow> Some t
      | None \<Rightarrow> Option.bind cxx (map_of compiler_mapping))"

definition add_flags ::
  "(string \<Rightarrow> string list option \<Rightarrow> conf_env \<Rightarrow> conf_env) \<Rightarrow> string \<Rightarrow> string \<Rightarrow> string option
    \<Rightarrow> string list option \<Rightarrow> string list \<Rightarrow> string list \<Rightarrow> string list \<Rightarrow> conf_env \<Rightarrow> conf_env" where
  "add_flags append_value flags_var defines_var comp_name optimizations debug warnings debug_defs env =
     (if comp_name \<noteq> None \<and> env flags_var = [] then
        (let env = append_value flags_var optimizations env;
             env = append_value flags_var (Some debug) env;
             env = append_value flags_var (Some warnings) env
         in append_value defines_var (Some debug_defs) env)
      else env)"

definition configure ::
  "(string \<Rightarrow> string list option \<Rightarrow> conf_env \<Rightarrow> conf_env) \<Rightarrow> string \<Rightarrow> bool
    \<Rightarrow> string option \<Rightarrow> string option \<Rightarrow> conf_env \<Rightarrow> conf_env result" where
  "configure append_value build_profile disable_werror cc cxx env =
     (if cc = None \<and> cxx = None then Inl WafError
      else case find_traits cc cxx of
        None \<Rightarrow> Inr env
      | Some compiler \<Rightarrow>
          res_bind (dict_get profiles build_profile) (\<lambda>(opt_level, warn_level, dbg_level).
            let optimizations = get_optimization_flags compiler opt_level in
            case get_debug_flags compiler dbg_level of
              None \<Rightarrow> Inl TypeError
            | Some (debug, debug_defs) \<Rightarrow>
                let warnings = get_warnings_flags compiler warn_level;
                    warnings = (if disable_werror then remove1 ''-Werror'' warnings else warnings);
                    env = add_flags append_value ''CCFLAGS'' ''CCDEFINES'' cc optimizations debug warnings debug_defs env
                in Inr (add_flags append_value ''CXXFLAGS'' ''CXXDEFINES'' cxx optimizations debug warnings debug_defs env)))"

subsection \<open>The flags of a profile\<close>

lemma warnings_loop_range:
  "warnings_loop flags (map int [i..<j]) ws = ws @ concat (take (j - i) (drop i flags))"
proof (induction "j - i" arbitrary: i ws)
  case (Suc n)
  then have ij: "[i..<j] = i # [Suc i..<j]" "j - i = Suc (j - Suc i)" by (simp_all add: upt_conv_Cons)
  show ?case
  proof (cases "i < length flags")
    case True
    then show ?thesis using Suc(1) [of "Suc i"] Suc(2) ij by (simp flip: Cons_nth_drop_Suc)
  qed (simp add: ij)
qed simp

text \<open>The levels are cumulative.\<close>

lemma get_warnings_flags_cumulative:
  "get_warnings_flags t level = concat (take (nat level) (warnings_flags t))"
  using warnings_loop_range [of "warnings_flags t" 0 "nat level" "[]"] by (simp add: get_warnings_flags_def)

lemma profile_levels:
  "map_of profiles p = Some (ol, wl, dl) \<Longrightarrow> ol \<in> {0, 2, 3} \<and> wl \<in> {1, 2} \<and> 0 \<le> dl"
  by (auto simp: profiles_def split: if_splits)

lemma flags_defined:
  assumes "map_of profiles p = Some (ol, wl, dl)"
  shows "\<exists>opts debug defs. get_optimization_flags t ol = Some opts \<and> get_debug_flags t dl = Some (debug, defs)"
  using profile_levels [OF assms] by (cases t) (auto simp: flag_tables)

lemma warnings_distinct: "distinct (get_warnings_flags t level)"
proof -
  have "distinct (concat (take n (warnings_flags t)))" for n
    by (cases t; cases n) (auto simp: flag_tables take_Cons')
  then show ?thesis by (simp add: get_warnings_flags_cumulative)
qed

lemma add_flags_at:
  assumes "\<And>k v e. append_value k (Some v) e = e(k := e k @ v)" "fv \<noteq> dv"
  shows "add_flags append_value fv dv c (Some opts) debug ws defs env fv =
      (if c \<noteq> None \<and> env fv = [] then opts @ debug @ ws else env fv)"
    and "add_flags append_value fv dv c (Some opts) debug ws defs env dv = env dv @ (if c \<noteq> None \<and> env fv = [] then defs else [])"
    and "v \<noteq> fv \<Longrightarrow> v \<noteq> dv \<Longrightarrow> add_flags append_value fv dv c (Some opts) debug ws defs env v = env v"
  using assms(2) by (simp_all add: add_flags_def assms(1))

text \<open>
  C33. \<open>configure\<close> for a known compiler and one of the profiles, with \<open>append_value\<close> extending the list of a
  variable: it returns normally; each of \<open>CCFLAGS\<close> and \<open>CXXFLAGS\<close> whose compiler is given and which is not set
  in advance becomes the optimization, debug and warning flags of the profile, its definitions follow, and nothing
  else changes. The warning flags are those of all lower levels together, and \<open>--disable-werror\<close> leaves no
  \<open>-Werror\<close> among them.
\<close>

theorem configure_flags:
  assumes "\<And>k v e. append_value k (Some v) e = e(k := e k @ v)"
    and "map_of profiles p = Some (ol, wl, dl)" "find_traits cc cxx = Some t"
  shows "\<exists>opts debug defs ws env'. get_optimization_flags t ol = Some opts \<and> get_debug_flags t dl = Some (debug, defs)
    \<and> ws = (if dw then remove1 ''-Werror'' else id) (concat (take (nat wl) (warnings_flags t)))
    \<and> (dw \<longrightarrow> ''-Werror'' \<notin> set ws)
    \<and> configure append_value p dw cc cxx env = Inr env'
    \<and> env' ''CCFLAGS'' = (if cc \<noteq> None \<and> env ''CCFLAGS'' = [] then opts @ debug @ ws else env ''CCFLAGS'')
    \<and> env' ''CCDEFINES'' = env ''CCDEFINES'' @ (if cc \<noteq> None \<and> env ''CCFLAGS'' = [] then defs else [])
    \<and> env' ''CXXFLAGS'' = (if cxx \<noteq> None \<and> env ''CXXFLAGS'' = [] then opts @ debug @ ws else env ''CXXFLAGS'')
    \<and> env' ''CXXDEFINES'' = env ''CXXDEFINES'' @ (if cxx \<noteq> None \<and> env ''CXXFLAGS'' = [] then defs else [])
    \<and> (\<forall>v. v \<notin> {''CCFLAGS'', ''CCDEFINES'', ''CXXFLAGS'', ''CXXDEFINES''} \<longrightarrow> env' v = env v)"
proof -
  obtain opts debug defs where f: "get_optimization_flags t ol = Some opts" "get_debug_flags t dl = Some (debug, defs)"
    using flags_defined [OF assms(2)] by blast
  define ws where "ws = (if dw then remove1 ''-Werror'' else id) (concat (take (nat wl) (warnings_flags t)))"
  have w: "ws = (if dw then remove1 ''-Werror'' (get_warnings_flags t wl) else get_warnings_flags t wl)"
    by (simp add: ws_def get_warnings_flags_cumulative)
  have nw: "dw \<longrightarrow> ''-Werror'' \<notin> set ws" using warnings_distinct [of t wl] by (simp add: w)
  have "cc \<noteq> None \<or> cxx \<noteq> None" using assms(3) by (cases cc; cases cxx) (auto simp: find_traits_def)
  then have conf: "configure append_value p dw cc cxx env =
      Inr (add_flags append_value ''CXXFLAGS'' ''CXXDEFINES'' cxx (Some opts) debug ws defs
            (add_flags append_value ''CCFLAGS'' ''CCDEFINES'' cc (Some opts) debug ws defs env))"
    using assms(2,3) f unfolding w by (auto simp: configure_def dict_get_def Let_def)
  show ?thesis unfolding conf
    by (intro exI conjI, rule f(1), rule f(2), rule ws_def, rule nw, rule refl)
      (simp_all add: add_flags_at [OF assms(1)])
qed

theorem configure_flags_witness:
  "\<exists>env'. configure (\<lambda>k v e. e(k := e k @ (case v of None \<Rightarrow> [] | Some x \<Rightarrow> x))) ''debug'' True (Some ''gcc'') (Some ''g++'') (\<lambda>_. []) = Inr env'
    \<and> env' ''CXXFLAGS'' = [''-O0'', ''-ggdb'', ''-g3'', ''-Wall''] \<and> env' ''CXXDEFINES'' = [''_DEBUG'']"
proof -
  have p: "map_of profiles ''debug'' = Some (0, 2, 3)" by (simp add: profiles_def)
  have t: "find_traits (Some ''gcc'') (Some ''g++'') = Some GccTraits" by (simp add: find_traits_def compiler_mapping_def)
  have "get_optimization_flags GccTraits 0 = Some [''-O0'']" "get_debug_flags GccTraits 3 = Some ([''-ggdb'', ''-g3''], [''_DEBUG''])"
      "remove1 ''-Werror'' (concat (take (nat 2) (warnings_flags GccTraits))) = [''-Wall'']"
    by code_simp+
  then show ?thesis
    using configure_flags [of "\<lambda>k v e. e(k := e k @ (case v of None \<Rightarrow> [] | Some x \<Rightarrow> x))", OF _ p t, of True "\<lambda>_. []"]
    by auto
qed

end
