(* ===== verification/Viz_Thread.thy ===== *)
theory Viz_Thread
  imports Complex_Main Prelude
begin

text \<open>
  The two threads of the visualizer (\<open>src/visualizer/visualizer/core.py\<close>): \<open>SimulationThread.run\<close> and the handlers
  of the GTK thread that talk to it, \<open>update_view_timeout\<close>, \<open>update_model\<close>, the timer, the play button, the
  speed control and \<open>_quit\<close>. They share the simulation lock, the event \<open>go\<close>, \<open>quit\<close>, \<open>target_time\<close> and the list of
  pause messages.

  A step of the simulation thread is one statement of its loop. A handler of the GTK thread is one step, except
  \<open>update_view_timeout\<close>: it runs the main loop while it cannot get the lock, so that other handlers (also the
  same one for another timer) run inside it; the stack \<open>frames\<close> holds the calls that wait for the lock
  (\<open>None\<close>) or have released it again (\<open>Some\<close> the messages taken). The lock is never held by the GTK thread between two steps.
  What the simulator does in \<open>SimulatorRunUntil\<close> is left open: the clock moves forward, not beyond the target time
  (\<open>pyviz.cc\<close> schedules a stop there), and any pause messages may appear. Times are rational seconds. The other
  handlers that take the lock (node drags, tooltips, information windows) leave this state alone.

  The last six fields record the history of a run; no step depends on them.
\<close>

subsection \<open>State\<close>

datatype sim_pc = Loop_test | Waiting_go | Clear_go | Quit_test | Acquire | Run | Release | Stopped

record viz =
  sim :: sim_pc
  lock_held :: bool
  go_flag :: bool
  quit_flag :: bool
  target_time :: rat
  now :: rat
  sample_period :: rat
  pause_messages :: "string list"
  idle_updates :: nat
  play_active :: bool
  timeout_id :: "nat option"
  sources :: "nat list"
  next_source :: nat
  frames :: "(nat \<times> string list option) list"
  joining :: bool
  main_quit :: bool
  viewed_at :: rat
  produced :: "string list"
  shown :: "string list"
  run_no :: nat
  sampled :: "nat list"
  bad_removals :: nat

definition SAMPLE_PERIOD :: rat where
  "SAMPLE_PERIOD = 1 / 10"

subsection \<open>The simulation thread\<close>

text \<open>One statement of \<open>run\<close>; \<open>t\<close> and \<open>ms\<close> are the clock and the pause messages after \<open>SimulatorRunUntil\<close>.\<close>

definition sim_next :: "rat \<Rightarrow> string list \<Rightarrow> viz \<Rightarrow> viz option" where
  "sim_next t ms v =
     (case sim v of
        Loop_test \<Rightarrow> Some (v\<lparr>sim := if quit_flag v then Stopped else Waiting_go\<rparr>)
      | Waiting_go \<Rightarrow> if go_flag v then Some (v\<lparr>sim := Clear_go\<rparr>) else None
      | Clear_go \<Rightarrow> Some (v\<lparr>sim := Quit_test, go_flag := False\<rparr>)
      | Quit_test \<Rightarrow> Some (v\<lparr>sim := if quit_flag v then Stopped else Acquire\<rparr>)
      | Acquire \<Rightarrow> if lock_held v then None else Some (v\<lparr>sim := Run, lock_held := True\<rparr>)
      | Run \<Rightarrow>
          if now v \<le> t \<and> t \<le> max (now v) (target_time v)
          then Some (v\<lparr>sim := Release, now := t, pause_messages := pause_messages v @ ms, produced := produced v @ ms,
                       idle_updates := Suc (idle_updates v), run_no := Suc (run_no v)\<rparr>)
          else None
      | Release \<Rightarrow> Some (v\<lparr>sim := Loop_test, lock_held := False\<rparr>)
      | Stopped \<Rightarrow> None)"

subsection \<open>The handlers of the view\<close>

text \<open>\<open>GLib.source_remove\<close>: removing a source that does not exist any more is an error GLib reports.\<close>

definition source_remove :: "nat \<Rightarrow> viz \<Rightarrow> viz" where
  "source_remove i v =
     (if i \<in> set (sources v) then v\<lparr>sources := removeAll i (sources v)\<rparr> else v\<lparr>bad_removals := Suc (bad_removals v)\<rparr>)"

definition start_update_timer :: "viz \<Rightarrow> viz" where
  "start_update_timer v =
     (let v = (case timeout_id v of None \<Rightarrow> v | Some i \<Rightarrow> source_remove i v)
      in v\<lparr>timeout_id := Some (next_source v), sources := next_source v # sources v, next_source := Suc (next_source v)\<rparr>)"

definition on_play_button_toggled :: "viz \<Rightarrow> viz" where
  "on_play_button_toggled v =
     (if play_active v then start_update_timer v
      else case timeout_id v of None \<Rightarrow> v | Some i \<Rightarrow> source_remove i v)"

text \<open>\<open>set_active\<close> of a toggle button emits \<open>toggled\<close> when the state changes.\<close>

definition set_active :: "bool \<Rightarrow> viz \<Rightarrow> viz" where
  "set_active b v = (if play_active v = b then v else on_play_button_toggled (v\<lparr>play_active := b\<rparr>))"

definition speed_changed :: "rat \<Rightarrow> viz \<Rightarrow> viz" where
  "speed_changed speed v = start_update_timer (v\<lparr>sample_period := SAMPLE_PERIOD * speed\<rparr>)"

definition update_model :: "viz \<Rightarrow> viz" where
  "update_model v = v\<lparr>sampled := sampled v @ [run_no v]\<rparr>"

definition quit_handler :: "viz \<Rightarrow> viz" where
  "quit_handler v =
     (case timeout_id v of None \<Rightarrow> v | Some i \<Rightarrow> (source_remove i v)\<lparr>timeout_id := None\<rparr>)
       \<lparr>quit_flag := True, go_flag := True, joining := True\<rparr>"

text \<open>\<open>update_view_timeout\<close> from the lock to its release, and the rest; returning \<open>False\<close> destroys the source.\<close>

definition update_view_locked :: "viz \<Rightarrow> viz" where
  "update_view_locked v =
     v\<lparr>pause_messages := [], target_time := now v + sample_period v, viewed_at := now v\<rparr>"

definition update_view_rest :: "nat \<Rightarrow> string list \<Rightarrow> viz \<Rightarrow> viz" where
  "update_view_rest i ms v =
     (let v = (if ms \<noteq> [] then set_active False (v\<lparr>shown := shown v @ ms\<rparr>) else v)
      in if play_active v then v\<lparr>go_flag := True\<rparr>
         else v\<lparr>timeout_id := None, sources := removeAll i (sources v)\<rparr>)"

subsection \<open>Steps\<close>

datatype gui_event = Fire nat | Locked | Finish | Update_model | Toggle | Speed rat | Quit | Join

text \<open>
  The GTK thread can dispatch an event unless it is inside \<open>join\<close>, in the second half of \<open>update_view_timeout\<close>, or the
  main loop has ended. A timer does not fire while its own callback is running.
\<close>

definition gui_ready :: "viz \<Rightarrow> bool" where
  "gui_ready v \<longleftrightarrow> \<not> joining v
     \<and> (case frames v of [] \<Rightarrow> \<not> main_quit v | (_, None) # _ \<Rightarrow> True | (_, Some _) # _ \<Rightarrow> False)"

fun gui_next :: "gui_event \<Rightarrow> viz \<Rightarrow> viz option" where
  "gui_next (Fire i) v =
     (if gui_ready v \<and> i \<in> set (sources v) \<and> i \<notin> fst ` set (frames v) then Some (v\<lparr>frames := (i, None) # frames v\<rparr>) else None)"
| "gui_next Locked v =
     (case frames v of
        (i, None) # fs \<Rightarrow>
          if joining v \<or> lock_held v then None
          else Some ((update_view_locked v)\<lparr>frames := (i, Some (pause_messages v)) # fs\<rparr>)
      | _ \<Rightarrow> None)"
| "gui_next Finish v =
     (case frames v of (i, Some ms) # fs \<Rightarrow> Some ((update_view_rest i ms v)\<lparr>frames := fs\<rparr>) | _ \<Rightarrow> None)"
| "gui_next Update_model v =
     (case idle_updates v of
        0 \<Rightarrow> None
      | Suc n \<Rightarrow> if gui_ready v \<and> \<not> lock_held v then Some ((update_model v)\<lparr>idle_updates := n\<rparr>) else None)"
| "gui_next Toggle v = (if gui_ready v then Some (set_active (\<not> play_active v) v) else None)"
| "gui_next (Speed s) v = (if gui_ready v \<and> 1 / 100 \<le> s \<and> s \<le> 10 then Some (speed_changed s v) else None)"
| "gui_next Quit v = (if gui_ready v then Some (quit_handler v) else None)"
| "gui_next Join v = (if joining v \<and> sim v = Stopped then Some (v\<lparr>joining := False, main_quit := True\<rparr>) else None)"

inductive viz_step :: "viz \<Rightarrow> viz \<Rightarrow> bool" where
  sim_moves: "sim_next t ms v = Some w \<Longrightarrow> viz_step v w"
| gui_moves: "gui_next e v = Some w \<Longrightarrow> viz_step v w"

text \<open>The state in which \<open>start\<close> enters the main loop: the constructor has set the speed and thereby started a timer.\<close>

definition viz_init :: viz where
  "viz_init = speed_changed 1
     \<lparr>sim = Loop_test, lock_held = False, go_flag = False, quit_flag = False, target_time = 0, now = 0, sample_period = SAMPLE_PERIOD,
      pause_messages = [], idle_updates = 0, play_active = False, timeout_id = None, sources = [], next_source = 1, frames = [],
      joining = False, main_quit = False, viewed_at = 0, produced = [], shown = [], run_no = 0, sampled = [], bad_removals = 0\<rparr>"

text \<open>A sequence of moves, to evaluate runs\<close>

datatype move = Sim rat "string list" | Gui gui_event

fun run_moves :: "move list \<Rightarrow> viz \<Rightarrow> viz option" where
  "run_moves [] v = Some v"
| "run_moves (Sim t ms # mvs) v = (case sim_next t ms v of None \<Rightarrow> None | Some w \<Rightarrow> run_moves mvs w)"
| "run_moves (Gui e # mvs) v = (case gui_next e v of None \<Rightarrow> None | Some w \<Rightarrow> run_moves mvs w)"

subsection \<open>What the timer handlers leave alone\<close>

definition timer_only :: "viz \<Rightarrow> viz \<Rightarrow> bool" where
  "timer_only v w \<longleftrightarrow> w = v\<lparr>play_active := play_active w, timeout_id := timeout_id w, sources := sources w,
     next_source := next_source w, bad_removals := bad_removals w\<rparr>"

lemma timer_only_trans: "timer_only u v \<Longrightarrow> timer_only v w \<Longrightarrow> timer_only u w"
  unfolding timer_only_def by (cases u; cases v; cases w) simp

lemma timer_only_handlers:
  "timer_only v (source_remove i v)" "timer_only v (start_update_timer v)" "timer_only v (on_play_button_toggled v)"
  "timer_only v (set_active b v)"
  by (simp_all add: timer_only_def source_remove_def start_update_timer_def on_play_button_toggled_def set_active_def Let_def
      split: option.split)

lemma timer_only_fields:
  assumes "timer_only v w"
  shows "sim w = sim v" "lock_held w = lock_held v" "go_flag w = go_flag v" "quit_flag w = quit_flag v" "target_time w = target_time v"
    "now w = now v" "sample_period w = sample_period v" "pause_messages w = pause_messages v" "idle_updates w = idle_updates v"
    "frames w = frames v" "joining w = joining v" "main_quit w = main_quit v" "viewed_at w = viewed_at v" "produced w = produced v"
    "shown w = shown v" "run_no w = run_no v" "sampled w = sampled v"
  by (subst assms [unfolded timer_only_def], simp)+

lemmas timer_fields [simp] = timer_only_handlers [THEN timer_only_fields(1)] timer_only_handlers [THEN timer_only_fields(2)]
  timer_only_handlers [THEN timer_only_fields(3)] timer_only_handlers [THEN timer_only_fields(4)]
  timer_only_handlers [THEN timer_only_fields(5)] timer_only_handlers [THEN timer_only_fields(6)]
  timer_only_handlers [THEN timer_only_fields(7)] timer_only_handlers [THEN timer_only_fields(8)]
  timer_only_handlers [THEN timer_only_fields(9)] timer_only_handlers [THEN timer_only_fields(10)]
  timer_only_handlers [THEN timer_only_fields(11)] timer_only_handlers [THEN timer_only_fields(12)]
  timer_only_handlers [THEN timer_only_fields(13)] timer_only_handlers [THEN timer_only_fields(14)]
  timer_only_handlers [THEN timer_only_fields(15)] timer_only_handlers [THEN timer_only_fields(16)]
  timer_only_handlers [THEN timer_only_fields(17)]

inductive_cases viz_stepE: "viz_step v w"

lemma speed_changed_fields [simp]:
  "sim (speed_changed s v) = sim v" "lock_held (speed_changed s v) = lock_held v" "go_flag (speed_changed s v) = go_flag v"
  "quit_flag (speed_changed s v) = quit_flag v" "target_time (speed_changed s v) = target_time v" "now (speed_changed s v) = now v"
  "sample_period (speed_changed s v) = SAMPLE_PERIOD * s" "pause_messages (speed_changed s v) = pause_messages v"
  "frames (speed_changed s v) = frames v" "joining (speed_changed s v) = joining v" "viewed_at (speed_changed s v) = viewed_at v"
  "produced (speed_changed s v) = produced v" "shown (speed_changed s v) = shown v"
  by (simp_all add: speed_changed_def)

lemma update_view_rest_fields [simp]:
  "sim (update_view_rest i ms v) = sim v" "lock_held (update_view_rest i ms v) = lock_held v"
  "quit_flag (update_view_rest i ms v) = quit_flag v" "target_time (update_view_rest i ms v) = target_time v"
  "now (update_view_rest i ms v) = now v" "sample_period (update_view_rest i ms v) = sample_period v"
  "pause_messages (update_view_rest i ms v) = pause_messages v" "joining (update_view_rest i ms v) = joining v"
  "viewed_at (update_view_rest i ms v) = viewed_at v" "produced (update_view_rest i ms v) = produced v"
  "shown (update_view_rest i ms v) = shown v @ ms" "go_flag v \<Longrightarrow> go_flag (update_view_rest i ms v)"
  by (simp_all add: update_view_rest_def Let_def)

lemma quit_handler_fields [simp]:
  "sim (quit_handler v) = sim v" "lock_held (quit_handler v) = lock_held v" "go_flag (quit_handler v)" "quit_flag (quit_handler v)"
  "target_time (quit_handler v) = target_time v" "now (quit_handler v) = now v" "sample_period (quit_handler v) = sample_period v"
  "pause_messages (quit_handler v) = pause_messages v" "frames (quit_handler v) = frames v" "joining (quit_handler v)"
  "viewed_at (quit_handler v) = viewed_at v" "produced (quit_handler v) = produced v" "shown (quit_handler v) = shown v"
  by (simp_all add: quit_handler_def split: option.split)

lemma gui_next_Locked:
  assumes "gui_next Locked v = Some w"
  obtains i fs where "frames v = (i, None) # fs" "\<not> joining v" "\<not> lock_held v"
    "w = (update_view_locked v)\<lparr>frames := (i, Some (pause_messages v)) # fs\<rparr>"
  using assms by (auto split: list.splits option.splits if_splits)

lemma gui_next_Finish:
  assumes "gui_next Finish v = Some w"
  obtains i ms fs where "frames v = (i, Some ms) # fs" "w = (update_view_rest i ms v)\<lparr>frames := fs\<rparr>"
  using assms by (auto split: list.splits option.splits if_splits)

lemma gui_next_Update:
  assumes "gui_next Update_model v = Some w"
  obtains n where "idle_updates v = Suc n" "gui_ready v" "\<not> lock_held v" "w = (update_model v)\<lparr>idle_updates := n\<rparr>"
  using assms by (auto split: nat.splits if_splits)

declare gui_next.simps(2-4) [simp del]

subsection \<open>The view and the simulation in step\<close>

definition time_inv :: "viz \<Rightarrow> bool" where
  "time_inv v \<longleftrightarrow> 0 < sample_period v \<and> sample_period v \<le> 1 \<and> 0 \<le> viewed_at v \<and> viewed_at v \<le> now v
     \<and> now v \<le> target_time v \<and> target_time v \<le> viewed_at v + 1"

lemma time_inv_sim: "time_inv v \<Longrightarrow> sim_next t ms v = Some w \<Longrightarrow> time_inv w"
  by (auto simp: time_inv_def sim_next_def split: sim_pc.splits if_splits)

lemma time_inv_gui: "time_inv v \<Longrightarrow> gui_next e v = Some w \<Longrightarrow> time_inv w"
  by (cases e)
    (auto simp: time_inv_def update_view_locked_def update_model_def SAMPLE_PERIOD_def split: if_splits
      elim!: gui_next_Locked gui_next_Finish gui_next_Update)

interpretation time_sys: invariant_system viz_step time_inv
  by unfold_locales (auto elim!: viz_stepE intro: time_inv_sim time_inv_gui)

subsection \<open>Pause messages\<close>

definition taken :: "viz \<Rightarrow> string list" where
  "taken v = (case frames v of (_, Some ms) # _ \<Rightarrow> ms | _ \<Rightarrow> [])"

definition message_inv :: "viz \<Rightarrow> bool" where
  "message_inv v \<longleftrightarrow> produced v = shown v @ taken v @ pause_messages v \<and> list_all (\<lambda>f. snd f = None) (tl (frames v))"




subsection \<open>Quitting\<close>

definition quit_inv :: "viz \<Rightarrow> bool" where
  "quit_inv v \<longleftrightarrow> (lock_held v \<longleftrightarrow> sim v \<in> {Run, Release}) \<and> (quit_flag v \<and> sim v = Waiting_go \<longrightarrow> go_flag v)
     \<and> (joining v \<longrightarrow> quit_flag v \<and> (case frames v of (_, Some _) # _ \<Rightarrow> False | _ \<Rightarrow> True))"

lemma quit_inv_sim: "quit_inv v \<Longrightarrow> sim_next t ms v = Some w \<Longrightarrow> quit_inv w"
  by (auto simp: quit_inv_def sim_next_def split: sim_pc.splits if_splits)

lemma quit_inv_gui: "quit_inv v \<Longrightarrow> gui_next e v = Some w \<Longrightarrow> quit_inv w"
proof (cases e)
  case (Fire i)
  assume "quit_inv v" "gui_next e v = Some w"
  with Fire show ?thesis by (auto simp: quit_inv_def gui_ready_def split: if_splits)
next
  case Quit
  assume "quit_inv v" "gui_next e v = Some w"
  with Quit show ?thesis
    by (cases "frames v") (auto simp: quit_inv_def gui_ready_def split: if_splits option.splits)
qed (auto simp: quit_inv_def update_view_locked_def update_model_def split: if_splits
    elim!: gui_next_Locked gui_next_Finish gui_next_Update)

interpretation quit_sys: invariant_system viz_step quit_inv
  by unfold_locales (auto elim!: viz_stepE intro: quit_inv_sim quit_inv_gui)

definition sim_step :: "viz \<Rightarrow> viz \<Rightarrow> bool" where
  "sim_step v w \<longleftrightarrow> (\<exists>t ms. sim_next t ms v = Some w)"

fun steps_left :: "sim_pc \<Rightarrow> nat" where
  "steps_left Acquire = 4"
| "steps_left Run = 3"
| "steps_left Waiting_go = 3"
| "steps_left Release = 2"
| "steps_left Clear_go = 2"
| "steps_left Loop_test = 1"
| "steps_left Quit_test = 1"
| "steps_left Stopped = 0"

definition join_inv :: "viz \<Rightarrow> bool" where
  "join_inv v \<longleftrightarrow> quit_inv v \<and> joining v"

lemma join_inv_step:
  assumes "join_inv v" "sim_step v w"
  shows "join_inv w \<and> steps_left (sim w) < steps_left (sim v)"
proof -
  obtain t ms where s: "sim_next t ms v = Some w" using assms(2) by (auto simp: sim_step_def)
  have "joining w = joining v \<and> steps_left (sim w) < steps_left (sim v)"
    using s assms(1) by (auto simp: sim_next_def join_inv_def quit_inv_def split: sim_pc.splits if_splits)
  then show ?thesis using assms(1) quit_inv_sim [OF _ s] by (auto simp: join_inv_def)
qed

lemma join_inv_progress:
  assumes "join_inv v" "sim v \<noteq> Stopped"
  shows "\<exists>w. sim_step v w"
proof -
  have "\<exists>w. sim_next (now v) [] v = Some w"
    using assms by (auto simp: sim_next_def join_inv_def quit_inv_def split: sim_pc.splits)
  then show ?thesis by (auto simp: sim_step_def)
qed

interpretation join_sys: terminating_system sim_step join_inv "\<lambda>v. steps_left (sim v)" sim_step "\<lambda>v. sim v = Stopped"
  by unfold_locales (use join_inv_step join_inv_progress in auto)

lemma run_moves_steps: "run_moves mvs v = Some w \<Longrightarrow> viz_step\<^sup>*\<^sup>* v w"
proof (induction mvs arbitrary: v)
  case (Cons m mvs)
  then show ?case
    by (cases m) (auto split: option.splits intro: viz_step.intros converse_rtranclp_into_rtranclp)
qed simp

lemma viz_init_inv: "time_inv viz_init" "message_inv viz_init" "quit_inv viz_init"
  by (simp_all add: viz_init_def time_inv_def message_inv_def quit_inv_def taken_def SAMPLE_PERIOD_def)

text \<open>
  C16. The simulation never runs away from the view: in every interleaving, the clock of the simulator is between the time of
  the last update of the view and the target time set then, which is at most one second later (a tenth of a second at the
  normal speed).
\<close>

theorem simulation_stays_near_view:
  assumes "viz_step\<^sup>*\<^sup>* viz_init v"
  shows "0 \<le> viewed_at v \<and> viewed_at v \<le> now v \<and> now v \<le> target_time v \<and> target_time v \<le> viewed_at v + 1"
  using time_sys.inv_reachable [OF assms viz_init_inv(1)] by (simp add: time_inv_def)

definition demo_moves :: "move list" where
  "demo_moves = [Gui Toggle, Gui (Fire 2), Gui Locked, Gui Finish, Sim 0 [], Sim 0 [], Sim 0 [], Sim 0 [], Sim 0 [],
     Sim (1 / 10) [''paused''], Sim 0 [], Gui (Fire 2), Gui Locked]"

theorem simulation_stays_near_view_witness:
  "\<exists>v. viz_step\<^sup>*\<^sup>* viz_init v \<and> now v = 1 / 10 \<and> target_time v = 1 / 5 \<and> viewed_at v \<le> now v"
proof -
  have "map_option (\<lambda>v. (now v, target_time v)) (run_moves demo_moves viz_init) = Some (1 / 10, 1 / 5)" by code_simp
  then obtain v where v: "run_moves demo_moves viz_init = Some v" "now v = 1 / 10" "target_time v = 1 / 5" by auto
  with simulation_stays_near_view [OF run_moves_steps [OF v(1)]] run_moves_steps [OF v(1)] show ?thesis by blast
qed



text \<open>
  C15. Closing the window ends the program: when \<open>_quit\<close> waits in \<open>join\<close>, in whatever state the simulation thread was, only that thread
  moves until the join returns, it makes at most four more steps, and it is not stuck before it has ended.
\<close>

theorem quit_joins:
  assumes "viz_step\<^sup>*\<^sup>* viz_init v" "joining v"
  shows "(\<forall>w. viz_step v w \<longrightarrow> sim_step v w \<or> sim v = Stopped \<and> main_quit w)
    \<and> (\<forall>n w. (sim_step ^^ n) v w \<longrightarrow> n \<le> 4 \<and> joining w \<and> (sim w = Stopped \<or> (\<exists>u. sim_step w u)))"
proof -
  have q: "join_inv v" using quit_sys.inv_reachable [OF assms(1) viz_init_inv(3)] assms(2) by (simp add: join_inv_def)
  have "sim_step v w \<or> sim v = Stopped \<and> main_quit w" if "viz_step v w" for w
    using that
  proof cases
    case (gui_moves e)
    have nr: "\<not> gui_ready v" and nf: "\<nexists>i ms fs. frames v = (i, Some ms) # fs"
      using q by (auto simp: gui_ready_def join_inv_def quit_inv_def split: list.splits)
    then show ?thesis using gui_moves assms(2)
      by (cases e) (auto split: if_splits elim!: gui_next_Locked gui_next_Finish gui_next_Update)
  qed (auto simp: sim_step_def)
  moreover have "n \<le> 4 \<and> joining w \<and> (sim w = Stopped \<or> (\<exists>u. sim_step w u))" if "(sim_step ^^ n) v w" for n w
  proof -
    have "join_inv w" "n + steps_left (sim w) \<le> steps_left (sim v)" using join_sys.steps_bounded [OF that q] by auto
    moreover have "steps_left (sim v) \<le> 4" by (cases "sim v") auto
    ultimately show ?thesis using join_sys.progress by (auto simp: join_inv_def)
  qed
  ultimately show ?thesis by blast
qed

definition quit_moves :: "move list" where
  "quit_moves = [Gui Toggle, Gui (Fire 2), Gui Locked, Gui Finish, Sim 0 [], Sim 0 [], Sim 0 [], Sim 0 [], Sim 0 [], Gui (Fire 2), Gui Quit]"

theorem quit_joins_witness:
  "\<exists>v. viz_step\<^sup>*\<^sup>* viz_init v \<and> joining v \<and> sim v = Run \<and> (\<exists>u. sim_step v u)"
proof -
  have "map_option (\<lambda>v. (joining v, sim v)) (run_moves quit_moves viz_init) = Some (True, Run)" by code_simp
  then obtain v where v: "run_moves quit_moves viz_init = Some v" "joining v" "sim v = Run" by auto
  have "(sim_step ^^ 0) v v" by simp
  then have "sim v = Stopped \<or> (\<exists>u. sim_step v u)" using quit_joins [OF run_moves_steps [OF v(1)] v(2)] by blast
  then show ?thesis using run_moves_steps [OF v(1)] v by auto
qed

text \<open>
  The samples of a period can be lost and those of another counted twice: \<open>update_model\<close> is queued by the simulation thread,
  but the view can give the next go before it has run, and \<open>SimulatorRunUntil\<close> starts by clearing the samples.
  There is a run in which, after two periods, both calls of \<open>update_model\<close> have taken the samples of the second.
\<close>

theorem samples_counted_twice:
  "\<exists>v. viz_step\<^sup>*\<^sup>* viz_init v \<and> run_no v = 2 \<and> sampled v = [2, 2] \<and> idle_updates v = 0"
proof -
  let ?mvs = "[Gui Toggle, Gui (Fire 2), Gui Locked, Gui Finish, Sim 0 [], Sim 0 [], Sim 0 [], Sim 0 [], Sim 0 [], Gui (Fire 2),
     Sim (1 / 10) [], Sim 0 [], Gui Locked, Gui Finish, Sim 0 [], Sim 0 [], Sim 0 [], Sim 0 [], Sim 0 [], Sim (1 / 5) [], Sim 0 [],
     Gui Update_model, Gui Update_model]"
  have "map_option (\<lambda>v. (run_no v, sampled v, idle_updates v)) (run_moves ?mvs viz_init) = Some (2, [2, 2], 0)" by code_simp
  then obtain v where "run_moves ?mvs viz_init = Some v" "run_no v = 2" "sampled v = [2, 2]" "idle_updates v = 0" by auto
  then show ?thesis using run_moves_steps by blast
qed

text \<open>
  The timer of the view is not accounted for correctly. Pausing with the button leaves the identifier of the removed timer,
  so the next start removes it again, which GLib reports as an error. And while an update waits for the lock, a
  pause followed by a change of the speed starts a timer that the update then forgets: starting again gives two timers at work.
\<close>

theorem update_timers_leak:
  "(\<exists>v. viz_step\<^sup>*\<^sup>* viz_init v \<and> 0 < bad_removals v \<and> frames v = [])
   \<and> (\<exists>v. viz_step\<^sup>*\<^sup>* viz_init v \<and> play_active v \<and> length (sources v) = 2 \<and> distinct (sources v) \<and> frames v = [])"
proof
  let ?mvs = "[Gui Toggle, Gui Toggle, Gui Toggle]"
  have "map_option (\<lambda>v. (bad_removals v, frames v)) (run_moves ?mvs viz_init) = Some (1, [])" by code_simp
  then obtain v where "run_moves ?mvs viz_init = Some v" "bad_removals v = 1" "frames v = []" by auto
  then show "\<exists>v. viz_step\<^sup>*\<^sup>* viz_init v \<and> 0 < bad_removals v \<and> frames v = []" using run_moves_steps by fastforce
next
  let ?mvs = "[Gui Toggle, Gui (Fire 2), Gui Toggle, Gui (Speed 1), Gui Locked, Gui Finish, Gui Toggle]"
  have "map_option (\<lambda>v. (play_active v, sources v, frames v)) (run_moves ?mvs viz_init) = Some (True, [4, 3], [])" by code_simp
  then obtain v where "run_moves ?mvs viz_init = Some v" "play_active v" "sources v = [4, 3]" "frames v = []" by auto
  then show "\<exists>v. viz_step\<^sup>*\<^sup>* viz_init v \<and> play_active v \<and> length (sources v) = 2 \<and> distinct (sources v) \<and> frames v = []"
    using run_moves_steps by fastforce
qed

end
