(* ===== verification/Viz_Scene.thy ===== *)
theory Viz_Scene
  imports Complex_Main Py_String Py_Path
begin

text \<open>
  The scene of the visualizer (\<open>src/visualizer/visualizer/core.py\<close>, \<open>base.py\<close> and \<open>svgitem.py\<close>): the node, channel and
  link objects on the canvas, the update of the positions, dragging, selection. Node and link objects refer
  to each other, so they live in a store: nodes and channels in the visualizer's two dictionaries, links in a list whose
  indices are their identities.

  The positions of the mobility models are part of the state, since dragging a node sets them. Coordinates are rational numbers.
  Requests to the canvas that have no effect on the objects (stacking order, cursors) are left out.
\<close>

unbundle bit_operations_syntax

type_synonym point = "rat \<times> rat"

subsection \<open>base.py\<close>

definition PIXELS_PER_METER :: rat where
  "PIXELS_PER_METER = 3"

definition transform_distance_simulation_to_canvas :: "rat \<Rightarrow> rat" where
  "transform_distance_simulation_to_canvas d = d * PIXELS_PER_METER"

definition transform_point_simulation_to_canvas :: "point \<Rightarrow> point" where
  "transform_point_simulation_to_canvas p = (fst p * PIXELS_PER_METER, snd p * PIXELS_PER_METER)"

definition transform_distance_canvas_to_simulation :: "rat \<Rightarrow> rat" where
  "transform_distance_canvas_to_simulation d = d / PIXELS_PER_METER"

definition transform_point_canvas_to_simulation :: "point \<Rightarrow> point" where
  "transform_point_canvas_to_simulation p = (fst p / PIXELS_PER_METER, snd p / PIXELS_PER_METER)"

record device_traits =
  is_wireless :: "bool option"
  is_virtual :: bool

definition new_traits :: "bool option \<Rightarrow> bool \<Rightarrow> device_traits result" where
  "new_traits wireless virt =
     (if virt \<or> wireless \<noteq> None then Inr \<lparr>is_wireless = wireless, is_virtual = virt\<rparr> else Inl AssertionError)"

definition netdevice_traits :: "(string, device_traits) dict" where
  "netdevice_traits =
     [(''PointToPointNetDevice'', \<lparr>is_wireless = Some False, is_virtual = False\<rparr>),
      (''CsmaNetDevice'', \<lparr>is_wireless = Some False, is_virtual = False\<rparr>),
      (''WifiNetDevice'', \<lparr>is_wireless = Some True, is_virtual = False\<rparr>),
      (''BridgeNetDevice'', \<lparr>is_wireless = None, is_virtual = True\<rparr>),
      (''LoopbackNetDevice'', \<lparr>is_wireless = Some False, is_virtual = True\<rparr>),
      (''MeshPointDevice'', \<lparr>is_wireless = None, is_virtual = True\<rparr>),
      (''SubscriberStationNetDevice'', \<lparr>is_wireless = Some True, is_virtual = False\<rparr>),
      (''BaseStationNetDevice'', \<lparr>is_wireless = Some True, is_virtual = False\<rparr>),
      (''LteUeNetDevice'', \<lparr>is_wireless = Some True, is_virtual = False\<rparr>),
      (''LteEnbNetDevice'', \<lparr>is_wireless = Some True, is_virtual = False\<rparr>)]"

text \<open>An unknown class is registered as wireless, after a warning.\<close>

definition lookup_netdevice_traits ::
  "string \<Rightarrow> (string, device_traits) dict \<Rightarrow> device_traits \<times> (string, device_traits) dict" where
  "lookup_netdevice_traits cls table =
     (case map_of table cls of
        Some t \<Rightarrow> (t, table)
      | None \<Rightarrow> let t = \<lparr>is_wireless = Some True, is_virtual = False\<rparr> in (t, dict_set cls t table))"

text \<open>
  Importing a plugin module fails, or gives a module without or with a \<open>register\<close> function. \<open>listdir\<close> is the content of the
  plugin directory.
\<close>

datatype plugin_import = Import_error | No_register | Has_register

record plugin_state =
  plugins :: "string list"
  plugin_modules :: "(string, string) dict"
  plugins_loaded :: bool

definition register_plugin :: "string \<Rightarrow> string \<Rightarrow> string option \<Rightarrow> plugin_state \<Rightarrow> plugin_state" where
  "register_plugin func name modu p =
     (let p = p\<lparr>plugins := plugins p @ [func]\<rparr>
      in case modu of None \<Rightarrow> p | Some m \<Rightarrow> p\<lparr>plugin_modules := dict_set name m (plugin_modules p)\<rparr>)"

definition load_plugin :: "(string \<Rightarrow> plugin_import) \<Rightarrow> plugin_state \<Rightarrow> string \<Rightarrow> plugin_state" where
  "load_plugin imp p filename =
     (case splitext filename of (name, ext) \<Rightarrow>
        if ext \<noteq> ''.py'' then p
        else case imp name of
          Import_error \<Rightarrow> p | No_register \<Rightarrow> p
        | Has_register \<Rightarrow> register_plugin name name (Some name) p)"

definition load_plugins :: "(string \<Rightarrow> plugin_import) \<Rightarrow> string list \<Rightarrow> plugin_state \<Rightarrow> plugin_state" where
  "load_plugins imp listdir p =
     (if plugins_loaded p then p else foldl (load_plugin imp) (p\<lparr>plugins_loaded := True\<rparr>) listdir)"

subsection \<open>svgitem.py\<close>

text \<open>
  An icon: position, scale factors, the size of the image file, the displayed size, the size asked for. The alignment belongs
  to the node but is kept here.
\<close>

record svg_item =
  svg_pos :: point
  svg_sx :: rat
  svg_sy :: rat
  svg_handle :: point
  svg_width :: rat
  svg_height :: rat
  custom_width :: "rat option"
  custom_height :: "rat option"
  svg_align :: point

definition new_svg_item :: "point \<Rightarrow> point \<Rightarrow> svg_item" where
  "new_svg_item p handle =
     \<lparr>svg_pos = p, svg_sx = 1, svg_sy = 1, svg_handle = handle, svg_width = fst handle, svg_height = snd handle,
      custom_width = None, custom_height = None, svg_align = (0, 0)\<rparr>"

definition svg_size_changed :: "svg_item \<Rightarrow> svg_item" where
  "svg_size_changed g =
     (let (w0, h0) = svg_handle g in
      case (custom_width g, custom_height g) of
        (None, None) \<Rightarrow> g\<lparr>svg_width := w0, svg_height := h0, svg_sx := 1, svg_sy := 1\<rparr>
      | (Some w, None) \<Rightarrow> g\<lparr>svg_width := w, svg_sx := w / w0, svg_sy := w / w0, svg_height := h0 * (w / w0)\<rparr>
      | (None, Some h) \<Rightarrow> g\<lparr>svg_height := h, svg_sy := h / h0, svg_sx := h / h0, svg_width := w0 * (h / h0)\<rparr>
      | (Some w, Some h) \<Rightarrow> g\<lparr>svg_width := w, svg_height := h, svg_sx := w / w0, svg_sy := h / h0\<rparr>)"

text \<open>\<open>do_set_property\<close>, \<open>do_get_property\<close>: the reader of \<open>width\<close> resets the displayed size.\<close>

datatype svg_property = Svg_x | Svg_y | Svg_width | Svg_height

fun svg_set_property :: "svg_property \<Rightarrow> rat \<Rightarrow> svg_item \<Rightarrow> svg_item" where
  "svg_set_property Svg_x v g = g\<lparr>svg_pos := (v, snd (svg_pos g))\<rparr>"
| "svg_set_property Svg_y v g = g\<lparr>svg_pos := (fst (svg_pos g), v)\<rparr>"
| "svg_set_property Svg_width v g = svg_size_changed (g\<lparr>custom_width := Some v\<rparr>)"
| "svg_set_property Svg_height v g = svg_size_changed (g\<lparr>custom_height := Some v\<rparr>)"

fun svg_get_property :: "svg_property \<Rightarrow> svg_item \<Rightarrow> rat \<times> svg_item" where
  "svg_get_property Svg_x g = (fst (svg_pos g), g)"
| "svg_get_property Svg_y g = (snd (svg_pos g), g)"
| "svg_get_property Svg_width g =
     (let g = g\<lparr>svg_width := fst (svg_handle g), svg_height := snd (svg_handle g)\<rparr> in (svg_width g, g))"
| "svg_get_property Svg_height g = (svg_height g, g)"

definition svg_bounds :: "svg_item \<Rightarrow> point \<times> point" where
  "svg_bounds g = (svg_pos g, (fst (svg_pos g) + svg_width g, snd (svg_pos g) + svg_height g))"

definition svg_is_item_at :: "point \<Rightarrow> svg_item \<Rightarrow> bool" where
  "svg_is_item_at p g \<longleftrightarrow>
     \<not> ((fst p < fst (svg_pos g) \<or> fst p > fst (svg_pos g) + svg_width g)
        \<or> (snd p < snd (svg_pos g) \<or> snd p > snd (svg_pos g) + svg_height g))"

subsection \<open>Nodes, channels, links\<close>

text \<open>
  How an ellipse looks: radius, fill colour, line width, whether it is highlighted in yellow
\<close>

type_synonym look = "rat \<times> int \<times> rat \<times> bool"

record node_view =
  nv_pos :: point
  nv_links :: "nat list"
  nv_has_mobility :: "bool option"
  nv_selected :: bool
  nv_highlighted :: bool
  nv_color :: int
  nv_size :: rat
  nv_svg :: "svg_item option"
  nv_label :: "string option"
  nv_label_pos :: "point option"
  nv_look :: look

record channel_view =
  cv_pos :: point
  cv_links :: "nat list"

datatype endpoint = Node_end nat | Channel_end nat

record link_view =
  ln_node1 :: nat
  ln_node2 :: endpoint
  ln_data :: "(point \<times> point) option"

datatype transmissions_mode = Show_all | Show_none | Show_selected

record drag_state =
  dr_canvas :: point
  dr_sim :: point

record scene =
  vs_nodes :: "(nat, node_view) dict"
  vs_channels :: "(nat, channel_view) dict"
  vs_links :: "link_view list"
  vs_bounds :: "point \<times> point"
  vs_mobility :: "point option list"
  vs_selected :: "nat option"
  vs_mode :: transmissions_mode
  vs_interest :: "nat list"
  vs_drag :: "drag_state option"

definition upd_node :: "nat \<Rightarrow> (node_view \<Rightarrow> node_view) \<Rightarrow> scene \<Rightarrow> scene" where
  "upd_node i f s = (case map_of (vs_nodes s) i of None \<Rightarrow> s | Some n \<Rightarrow> s\<lparr>vs_nodes := dict_set i (f n) (vs_nodes s)\<rparr>)"

definition upd_channel :: "nat \<Rightarrow> (channel_view \<Rightarrow> channel_view) \<Rightarrow> scene \<Rightarrow> scene" where
  "upd_channel c f s =
     (case map_of (vs_channels s) c of None \<Rightarrow> s | Some n \<Rightarrow> s\<lparr>vs_channels := dict_set c (f n) (vs_channels s)\<rparr>)"

fun end_pos :: "scene \<Rightarrow> endpoint \<Rightarrow> point" where
  "end_pos s (Node_end i) = (case map_of (vs_nodes s) i of None \<Rightarrow> (0, 0) | Some n \<Rightarrow> nv_pos n)"
| "end_pos s (Channel_end c) = (case map_of (vs_channels s) c of None \<Rightarrow> (0, 0) | Some n \<Rightarrow> cv_pos n)"

fun end_links :: "scene \<Rightarrow> endpoint \<Rightarrow> nat list" where
  "end_links s (Node_end i) = (case map_of (vs_nodes s) i of None \<Rightarrow> [] | Some n \<Rightarrow> nv_links n)"
| "end_links s (Channel_end c) = (case map_of (vs_channels s) c of None \<Rightarrow> [] | Some n \<Rightarrow> cv_links n)"

text \<open>\<open>_update_appearance\<close> without its last part, the label\<close>

definition node_look :: "node_view \<Rightarrow> look" where
  "node_look n =
     (let radius = transform_distance_simulation_to_canvas (nv_size n);
          alpha = (if nv_svg n \<noteq> None then 0x80 else 0xff);
          fill = (nv_color n AND 0xffffff00) OR alpha
      in (radius, fill, if nv_selected n then radius * 3 / 10 else radius * 15 / 100, nv_highlighted n))"

definition svg_at :: "point \<Rightarrow> svg_item \<Rightarrow> svg_item" where
  "svg_at p g =
     svg_set_property Svg_y (snd p - (1 - snd (svg_align g)) * svg_height g)
       (svg_set_property Svg_x (fst p - (1 - fst (svg_align g)) * svg_width g) g)"

definition update_points :: "scene \<Rightarrow> nat \<Rightarrow> scene" where
  "update_points s l =
     (if l < length (vs_links s)
      then s\<lparr>vs_links := (vs_links s)[l := (vs_links s ! l)
               \<lparr>ln_data := Some (end_pos s (Node_end (ln_node1 (vs_links s ! l))), end_pos s (ln_node2 (vs_links s ! l)))\<rparr>]\<rparr>
      else s)"

definition grow_bounds :: "point \<Rightarrow> scene \<Rightarrow> scene" where
  "grow_bounds p s =
     (case vs_bounds s of ((min_x, min_y), (max_x, max_y)) \<Rightarrow>
        s\<lparr>vs_bounds := ((min (fst p) min_x, min (snd p) min_y), (max (fst p) max_x, max (snd p) max_y))\<rparr>)"

definition set_node_position :: "nat \<Rightarrow> point \<Rightarrow> scene \<Rightarrow> scene" where
  "set_node_position i p s =
     (let s = upd_node i (\<lambda>n. n\<lparr>nv_pos := p, nv_svg := map_option (svg_at p) (nv_svg n)\<rparr>) s;
          s = foldl update_points s (end_links s (Node_end i));
          s = upd_node i (\<lambda>n. n\<lparr>nv_label_pos := map_option (\<lambda>_. (fst p, snd p + nv_size n * 3)) (nv_label_pos n)\<rparr>) s
      in grow_bounds p s)"

definition set_channel_position :: "nat \<Rightarrow> point \<Rightarrow> scene \<Rightarrow> scene" where
  "set_channel_position c p s =
     (let s = upd_channel c (\<lambda>n. n\<lparr>cv_pos := p\<rparr>) s
      in foldl update_points s (end_links s (Channel_end c)))"

text \<open>A label, when there is one, is placed by setting the node's position again.\<close>

definition update_appearance :: "nat \<Rightarrow> scene \<Rightarrow> scene" where
  "update_appearance i s =
     (let s = upd_node i (\<lambda>n. n\<lparr>nv_look := node_look n\<rparr>) s
      in case map_of (vs_nodes s) i of
           None \<Rightarrow> s
         | Some n \<Rightarrow>
             if nv_label n = None then s
             else let s = (if nv_label_pos n = None then upd_node i (\<lambda>n. n\<lparr>nv_label_pos := Some (0, 0)\<rparr>) s else s)
                  in set_node_position i (nv_pos n) s)"

definition set_node_selected :: "nat \<Rightarrow> bool \<Rightarrow> scene \<Rightarrow> scene" where
  "set_node_selected i b s = update_appearance i (upd_node i (\<lambda>n. n\<lparr>nv_selected := b\<rparr>) s)"

definition set_highlighted :: "nat \<Rightarrow> bool \<Rightarrow> scene \<Rightarrow> scene" where
  "set_highlighted i b s = update_appearance i (upd_node i (\<lambda>n. n\<lparr>nv_highlighted := b\<rparr>) s)"

definition set_size :: "nat \<Rightarrow> rat \<Rightarrow> scene \<Rightarrow> scene" where
  "set_size i z s = update_appearance i (upd_node i (\<lambda>n. n\<lparr>nv_size := z\<rparr>) s)"

definition set_color :: "nat \<Rightarrow> int \<Rightarrow> scene \<Rightarrow> scene" where
  "set_color i c s = update_appearance i (upd_node i (\<lambda>n. n\<lparr>nv_color := c\<rparr>) s)"

text \<open>A colour given by name, as the 16 bit components \<open>Gdk.color_parse\<close> returns\<close>

definition color_rgba :: "int \<times> int \<times> int \<Rightarrow> int" where
  "color_rgba rgb =
     (case rgb of (red, green, blue) \<Rightarrow>
        push_bit 24 (drop_bit 8 red) OR push_bit 16 (drop_bit 8 green) OR push_bit 8 (drop_bit 8 blue) OR 0xff)"

definition set_label :: "bool \<Rightarrow> nat \<Rightarrow> string \<Rightarrow> scene \<Rightarrow> scene result" where
  "set_label python3 i label s =
     (if python3 then Inl NameError else Inr (update_appearance i (upd_node i (\<lambda>n. n\<lparr>nv_label := Some label\<rparr>) s)))"

text \<open>The icon's file is loaded by librsvg; \<open>handle\<close> is the size of its image.\<close>

definition set_svg_icon :: "nat \<Rightarrow> point \<Rightarrow> rat option \<Rightarrow> rat option \<Rightarrow> point \<Rightarrow> scene \<Rightarrow> scene result" where
  "set_svg_icon i handle width height align s =
     (if width = None \<and> height = None then Inl ValueError
      else
        let size = (\<lambda>prop given g. case given of None \<Rightarrow> g
                      | Some d \<Rightarrow> svg_set_property prop (transform_distance_simulation_to_canvas d) g);
            icon = (\<lambda>p. svg_at p ((size Svg_height height (size Svg_width width (new_svg_item p handle)))\<lparr>svg_align := align\<rparr>))
        in Inr (update_appearance i (upd_node i (\<lambda>n. n\<lparr>nv_svg := Some (icon (nv_pos n))\<rparr>) s)))"

definition DEFAULT_NODE_SIZE :: rat where
  "DEFAULT_NODE_SIZE = 1"

definition new_node :: node_view where
  "new_node =
     (let n = \<lparr>nv_pos = (0, 0), nv_links = [], nv_has_mobility = None, nv_selected = False, nv_highlighted = False, nv_color = 0x808080ff,
               nv_size = DEFAULT_NODE_SIZE, nv_svg = None, nv_label = None, nv_label_pos = None, nv_look = (0, 0, 0, False)\<rparr>
      in n\<lparr>nv_look := node_look n\<rparr>)"

definition get_node :: "nat \<Rightarrow> scene \<Rightarrow> scene" where
  "get_node i s = (if dict_has (vs_nodes s) i then s else s\<lparr>vs_nodes := dict_set i new_node (vs_nodes s)\<rparr>)"

definition get_channel :: "nat \<Rightarrow> scene \<Rightarrow> scene" where
  "get_channel c s =
     (if dict_has (vs_channels s) c then s else s\<lparr>vs_channels := dict_set c \<lparr>cv_pos = (0, 0), cv_links = []\<rparr> (vs_channels s)\<rparr>)"

definition create_link :: "nat \<Rightarrow> endpoint \<Rightarrow> scene \<Rightarrow> scene" where
  "create_link i e s =
     (let l = length (vs_links s);
          s = s\<lparr>vs_links := vs_links s @ [\<lparr>ln_node1 = i, ln_node2 = e, ln_data = None\<rparr>]\<rparr>;
          s = upd_node i (\<lambda>n. n\<lparr>nv_links := nv_links n @ [l]\<rparr>) s
      in case e of
           Node_end j \<Rightarrow> upd_node j (\<lambda>n. n\<lparr>nv_links := nv_links n @ [l]\<rparr>) s
         | Channel_end c \<Rightarrow> upd_channel c (\<lambda>n. n\<lparr>cv_links := cv_links n @ [l]\<rparr>) s)"

text \<open>The property \<open>has_mobility\<close> asks the simulator once and then keeps the answer.\<close>

definition mobility_of :: "scene \<Rightarrow> nat \<Rightarrow> point option" where
  "mobility_of s i = (if i < length (vs_mobility s) then vs_mobility s ! i else None)"

definition has_mobility :: "nat \<Rightarrow> scene \<Rightarrow> bool \<times> scene" where
  "has_mobility i s =
     (case map_of (vs_nodes s) i of
        None \<Rightarrow> (False, s)
      | Some n \<Rightarrow>
          (case nv_has_mobility n of
             Some b \<Rightarrow> (b, s)
           | None \<Rightarrow> let b = mobility_of s i \<noteq> None in (b, upd_node i (\<lambda>n. n\<lparr>nv_has_mobility := Some b\<rparr>) s)))"

subsection \<open>Updating, dragging, selecting\<close>

definition update_node_position :: "scene \<Rightarrow> nat \<Rightarrow> scene" where
  "update_node_position s i =
     (case has_mobility i s of (mob, s) \<Rightarrow>
        if mob then
          case mobility_of s i of None \<Rightarrow> s | Some p \<Rightarrow> set_node_position i (transform_point_simulation_to_canvas p) s
        else s)"

definition update_node_positions :: "scene \<Rightarrow> scene" where
  "update_node_positions s = foldl update_node_position s (dict_keys (vs_nodes s))"

text \<open>\<open>pointer\<close> is the position of the mouse in canvas coordinates.\<close>

definition begin_node_drag :: "nat \<Rightarrow> point \<Rightarrow> scene \<Rightarrow> scene" where
  "begin_node_drag i pointer s =
     (case mobility_of s i of
        None \<Rightarrow> s
      | Some p \<Rightarrow> if vs_drag s \<noteq> None then s else s\<lparr>vs_drag := Some \<lparr>dr_canvas = pointer, dr_sim = p\<rparr>\<rparr>)"

definition node_drag_motion :: "nat \<Rightarrow> point \<Rightarrow> scene \<Rightarrow> bool \<times> scene" where
  "node_drag_motion i pointer s =
     (case mobility_of s i of
        None \<Rightarrow> (False, s)
      | Some _ \<Rightarrow>
          (case vs_drag s of
             None \<Rightarrow> (False, s)
           | Some d \<Rightarrow>
               let dx = fst pointer - fst (dr_canvas d); dy = snd pointer - snd (dr_canvas d);
                   pos = (fst (dr_sim d) + transform_distance_canvas_to_simulation dx,
                          snd (dr_sim d) + transform_distance_canvas_to_simulation dy)
               in (True, set_node_position i (transform_point_simulation_to_canvas pos)
                           (s\<lparr>vs_mobility := (vs_mobility s)[i := Some pos]\<rparr>))))"

definition end_node_drag :: "scene \<Rightarrow> scene" where
  "end_node_drag s = s\<lparr>vs_drag := None\<rparr>"

definition set_show_transmissions_mode :: "transmissions_mode \<Rightarrow> nat \<Rightarrow> scene \<Rightarrow> scene" where
  "set_show_transmissions_mode mode n_nodes s =
     s\<lparr>vs_mode := mode,
       vs_interest := (case mode of
           Show_all \<Rightarrow> [0 ..< n_nodes]
         | Show_none \<Rightarrow> []
         | Show_selected \<Rightarrow> (case vs_selected s of None \<Rightarrow> [] | Some i \<Rightarrow> [i]))\<rparr>"

text \<open>Selecting a node given by its number raises when there is no such node.\<close>

definition select_node :: "nat option \<Rightarrow> scene \<Rightarrow> scene result" where
  "select_node node s =
     res_bind (case node of None \<Rightarrow> Inr () | Some i \<Rightarrow> res_bind (dict_get (vs_nodes s) i) (\<lambda>_. Inr ())) (\<lambda>_.
       if node = vs_selected s then Inr s
       else
         let s = (case vs_selected s of None \<Rightarrow> s | Some i \<Rightarrow> set_node_selected i False s);
             s = s\<lparr>vs_selected := node\<rparr>;
             s = (case node of None \<Rightarrow> s | Some i \<Rightarrow> set_node_selected i True s)
         in Inr (if vs_mode s = Show_selected
                 then s\<lparr>vs_interest := (case vs_selected s of None \<Rightarrow> [] | Some i \<Rightarrow> [i])\<rparr>
                 else s))"

definition new_scene :: "point option list \<Rightarrow> scene" where
  "new_scene mobility =
     set_show_transmissions_mode Show_all (length mobility)
       \<lparr>vs_nodes = [], vs_channels = [], vs_links = [], vs_bounds = ((-10000, -10000), (10000, 10000)), vs_mobility = mobility,
        vs_selected = None, vs_mode = Show_all, vs_interest = [], vs_drag = None\<rparr>"

subsection \<open>The store\<close>

lemma map_of_upd_node: "map_of (vs_nodes (upd_node i f s)) = (map_of (vs_nodes s))(i := map_option f (map_of (vs_nodes s) i))"
  by (cases "map_of (vs_nodes s) i") (auto simp: upd_node_def)

lemma map_of_upd_channel:
  "map_of (vs_channels (upd_channel i f s)) = (map_of (vs_channels s))(i := map_option f (map_of (vs_channels s) i))"
  by (cases "map_of (vs_channels s) i") (auto simp: upd_channel_def)

lemma upd_frame [simp]:
  "vs_links (upd_node i f s) = vs_links s" "vs_channels (upd_node i f s) = vs_channels s" "vs_mobility (upd_node i f s) = vs_mobility s"
  "vs_selected (upd_node i f s) = vs_selected s" "vs_mode (upd_node i f s) = vs_mode s" "vs_interest (upd_node i f s) = vs_interest s"
  "vs_drag (upd_node i f s) = vs_drag s"
  "vs_links (upd_channel i h s) = vs_links s" "vs_nodes (upd_channel i h s) = vs_nodes s" "vs_mobility (upd_channel i h s) = vs_mobility s"
  by (simp_all add: upd_node_def upd_channel_def split: option.split)

lemma dict_keys_upd_node [simp]: "dict_keys (vs_nodes (upd_node i f s)) = dict_keys (vs_nodes s)"
  by (auto simp: upd_node_def dict_keys_set dict_has_iff split: option.split)

declare end_pos.simps [simp del] end_links.simps [simp del]

lemmas end_simps = end_pos.simps end_links.simps

lemma dict_keys_upd_channel [simp]: "dict_keys (vs_channels (upd_channel i f s)) = dict_keys (vs_channels s)"
  by (auto simp: upd_channel_def dict_keys_set dict_has_iff split: option.split)

definition current :: "scene \<Rightarrow> link_view \<Rightarrow> (point \<times> point) option" where
  "current s L = Some (end_pos s (Node_end (ln_node1 L)), end_pos s (ln_node2 L))"

lemma end_pos_cong: "vs_nodes s = vs_nodes t \<Longrightarrow> vs_channels s = vs_channels t \<Longrightarrow> end_pos s = end_pos t"
proof
  fix e assume "vs_nodes s = vs_nodes t" "vs_channels s = vs_channels t"
  then show "end_pos s e = end_pos t e" by (cases e) (auto simp: end_simps)
qed

lemma update_points_frame [simp]:
  "vs_nodes (update_points s l) = vs_nodes s" "vs_channels (update_points s l) = vs_channels s"
  "vs_mobility (update_points s l) = vs_mobility s" "vs_bounds (update_points s l) = vs_bounds s"
  "vs_selected (update_points s l) = vs_selected s" "vs_mode (update_points s l) = vs_mode s"
  "vs_interest (update_points s l) = vs_interest s" "vs_drag (update_points s l) = vs_drag s"
  "length (vs_links (update_points s l)) = length (vs_links s)"
  by (simp_all add: update_points_def)

lemma current_frame: "vs_nodes s = vs_nodes t \<Longrightarrow> vs_channels s = vs_channels t \<Longrightarrow> current s L = current t L"
  using end_pos_cong [of s t] by (simp add: current_def)

lemma update_points_nth:
  "k < length (vs_links s) \<Longrightarrow>
   vs_links (update_points s l) ! k = (if k = l then (vs_links s ! k)\<lparr>ln_data := current s (vs_links s ! k)\<rparr> else vs_links s ! k)"
  by (simp add: update_points_def current_def nth_list_update)

lemma current_data [simp]: "current s (L\<lparr>ln_data := d\<rparr>) = current s L"
  by (simp add: current_def)

lemma update_all_points:
  "vs_nodes (foldl update_points s ls) = vs_nodes s \<and> vs_channels (foldl update_points s ls) = vs_channels s
   \<and> vs_mobility (foldl update_points s ls) = vs_mobility s \<and> vs_bounds (foldl update_points s ls) = vs_bounds s
   \<and> vs_selected (foldl update_points s ls) = vs_selected s \<and> vs_mode (foldl update_points s ls) = vs_mode s
   \<and> vs_interest (foldl update_points s ls) = vs_interest s \<and> vs_drag (foldl update_points s ls) = vs_drag s
   \<and> length (vs_links (foldl update_points s ls)) = length (vs_links s)
   \<and> (\<forall>k < length (vs_links s). vs_links (foldl update_points s ls) ! k =
        (if k \<in> set ls then (vs_links s ! k)\<lparr>ln_data := current s (vs_links s ! k)\<rparr> else vs_links s ! k))"
proof (induction ls arbitrary: s)
  case (Cons l ls)
  have "current (update_points s l) L = current s L" for L by (rule current_frame) simp_all
  then show ?case using Cons.IH [of "update_points s l"] by (auto simp: update_points_nth)
qed simp

lemmas update_all_frame [simp] =
  update_all_points [THEN conjunct1] update_all_points [THEN conjunct2, THEN conjunct1]
  update_all_points [THEN conjunct2, THEN conjunct2, THEN conjunct1]

subsection \<open>Moving a node or a channel\<close>

definition link_ok :: "scene \<Rightarrow> nat \<Rightarrow> bool" where
  "link_ok s l \<longleftrightarrow> (let L = vs_links s ! l in
     l \<in> set (end_links s (Node_end (ln_node1 L))) \<and> l \<in> set (end_links s (ln_node2 L)) \<and> (ln_data L = None \<or> ln_data L = current s L))"

definition scene_ok :: "scene \<Rightarrow> bool" where
  "scene_ok s \<longleftrightarrow> (\<forall>l < length (vs_links s). link_ok s l)"

definition drawn :: "scene \<Rightarrow> nat \<Rightarrow> bool" where
  "drawn s l \<longleftrightarrow> ln_data (vs_links s ! l) = current s (vs_links s ! l)"

definition link_ends :: "link_view \<Rightarrow> nat \<times> endpoint" where
  "link_ends L = (ln_node1 L, ln_node2 L)"

text \<open>\<open>s'\<close> is \<open>s\<close> with the object \<open>e\<close> moved and its links drawn again.\<close>

definition moves :: "endpoint \<Rightarrow> scene \<Rightarrow> scene \<Rightarrow> bool" where
  "moves e s s' \<longleftrightarrow> length (vs_links s') = length (vs_links s)
     \<and> (\<forall>l < length (vs_links s). link_ends (vs_links s' ! l) = link_ends (vs_links s ! l)
          \<and> ln_data (vs_links s' ! l) = (if l \<in> set (end_links s e) then current s' (vs_links s' ! l) else ln_data (vs_links s ! l)))
     \<and> (\<forall>e'. end_links s' e' = end_links s e') \<and> (\<forall>e'. e' \<noteq> e \<longrightarrow> end_pos s' e' = end_pos s e')"

lemma moves_ok:
  assumes "scene_ok s" "moves e s s'"
  shows "scene_ok s'"
    and "l < length (vs_links s) \<Longrightarrow> drawn s l \<or> e \<in> {Node_end (ln_node1 (vs_links s ! l)), ln_node2 (vs_links s ! l)} \<Longrightarrow> drawn s' l"
proof -
  have len: "length (vs_links s') = length (vs_links s)" and lk: "end_links s' = end_links s" using assms(2) by (auto simp: moves_def)
  {
    fix l assume l: "l < length (vs_links s)"
    let ?L = "vs_links s ! l" and ?L' = "vs_links s' ! l"
    have ends: "ln_node1 ?L' = ln_node1 ?L" "ln_node2 ?L' = ln_node2 ?L" and
      data: "ln_data ?L' = (if l \<in> set (end_links s e) then current s' ?L' else ln_data ?L)"
      using assms(2) l by (auto simp: moves_def link_ends_def)
    have ok: "link_ok s l" using assms(1) l by (simp add: scene_ok_def)
    have cur: "current s' ?L' = current s ?L" if "l \<notin> set (end_links s e)"
    proof -
      have "e \<noteq> Node_end (ln_node1 ?L)" "e \<noteq> ln_node2 ?L" using that ok by (auto simp: link_ok_def Let_def)
      then show ?thesis using assms(2) ends by (simp add: moves_def current_def)
    qed
    show "drawn s' l" if "drawn s l \<or> e \<in> {Node_end (ln_node1 ?L), ln_node2 ?L}"
      using that ok data cur by (auto simp: drawn_def link_ok_def Let_def)
    have "link_ok s' l" using ok ends data cur lk by (auto simp: link_ok_def Let_def)
  }
  then show "scene_ok s'" using len by (auto simp: scene_ok_def)
qed

text \<open>Steps that leave positions, links and the links of every object alone\<close>

definition steady :: "scene \<Rightarrow> scene \<Rightarrow> bool" where
  "steady s s' \<longleftrightarrow> vs_links s' = vs_links s \<and> end_links s' = end_links s \<and> end_pos s' = end_pos s"

lemma steady_ok: "steady s s' \<Longrightarrow> scene_ok s' = scene_ok s \<and> drawn s' l = drawn s l"
  by (simp add: steady_def scene_ok_def link_ok_def drawn_def current_def)

lemma steady_refl [simp]: "steady s s"
  by (simp add: steady_def)

lemma steady_trans: "steady s t \<Longrightarrow> steady t u \<Longrightarrow> steady s u"
  by (simp add: steady_def)

lemma steady_moves: "steady r s \<Longrightarrow> moves e s t \<Longrightarrow> steady t u \<Longrightarrow> moves e r u"
  by (simp add: steady_def moves_def current_def)

lemma steady_upd_node:
  assumes "\<And>n. nv_pos (f n) = nv_pos n \<and> nv_links (f n) = nv_links n"
  shows "steady s (upd_node i f s)"
proof -
  have "end_links (upd_node i f s) e = end_links s e \<and> end_pos (upd_node i f s) e = end_pos s e" for e
    using assms by (cases e) (auto simp: end_simps map_of_upd_node split: option.split)
  then show ?thesis by (auto simp: steady_def fun_eq_iff)
qed

lemma steady_grow_bounds: "steady s (grow_bounds p s)"
proof -
  have "end_links (grow_bounds p s) e = end_links s e \<and> end_pos (grow_bounds p s) e = end_pos s e" for e
    by (cases e) (auto simp: end_simps grow_bounds_def split: prod.split)
  moreover have "vs_links (grow_bounds p s) = vs_links s" by (simp add: grow_bounds_def split: prod.split)
  ultimately show ?thesis by (auto simp: steady_def fun_eq_iff)
qed

lemma end_links_frame: "vs_nodes s = vs_nodes t \<Longrightarrow> vs_channels s = vs_channels t \<Longrightarrow> end_links s e = end_links t e"
  by (cases e) (auto simp: end_simps)

lemma moves_update_all:
  assumes "vs_links t = vs_links s" "\<And>e'. end_links t e' = end_links s e'" "\<And>e'. e' \<noteq> e \<Longrightarrow> end_pos t e' = end_pos s e'"
  shows "moves e s (foldl update_points t (end_links t e))"
proof -
  let ?u = "foldl update_points t (end_links t e)"
  have "end_links ?u e' = end_links t e'" "end_pos ?u e' = end_pos t e'" "current ?u L = current t L" for e' L
    using end_links_frame [of ?u t] end_pos_cong [of ?u t] current_frame [of ?u t] by simp_all
  then show ?thesis using assms update_all_points [of t "end_links t e"] by (auto simp: moves_def link_ends_def)
qed

lemma set_node_position_moves: "moves (Node_end i) s (set_node_position i p s)"
proof -
  let ?t = "upd_node i (\<lambda>n. n\<lparr>nv_pos := p, nv_svg := map_option (svg_at p) (nv_svg n)\<rparr>) s"
  have "end_links ?t e = end_links s e" "e \<noteq> Node_end i \<Longrightarrow> end_pos ?t e = end_pos s e" for e
    by (cases e; auto simp: end_simps map_of_upd_node split: option.split)+
  then have m: "moves (Node_end i) s (foldl update_points ?t (end_links ?t (Node_end i)))" (is "moves _ _ ?u")
    by (intro moves_update_all) auto
  let ?v = "upd_node i (\<lambda>n. n\<lparr>nv_label_pos := map_option (\<lambda>_. (fst p, snd p + nv_size n * 3)) (nv_label_pos n)\<rparr>) ?u"
  have "steady ?u ?v" by (rule steady_upd_node) simp
  then have "steady ?u (grow_bounds p ?v)" by (rule steady_trans [OF _ steady_grow_bounds])
  then show ?thesis unfolding set_node_position_def Let_def by (rule steady_moves [OF steady_refl m])
qed

lemma set_channel_position_moves: "moves (Channel_end c) s (set_channel_position c p s)"
proof -
  let ?t = "upd_channel c (\<lambda>n. n\<lparr>cv_pos := p\<rparr>) s"
  have "end_links ?t e = end_links s e" "e \<noteq> Channel_end c \<Longrightarrow> end_pos ?t e = end_pos s e" for e
    by (cases e; auto simp: end_simps map_of_upd_channel split: option.split)+
  then show ?thesis unfolding set_channel_position_def Let_def by (intro moves_update_all) auto
qed

subsection \<open>What the operations keep\<close>

definition mobile :: "scene \<Rightarrow> nat \<Rightarrow> bool" where
  "mobile s i \<longleftrightarrow> mobility_of s i \<noteq> None"

lemma mobile_frame: "vs_mobility s = vs_mobility t \<Longrightarrow> mobile s i = mobile t i"
  by (simp add: mobile_def mobility_of_def)

definition cache_ok :: "scene \<Rightarrow> bool" where
  "cache_ok s \<longleftrightarrow> (\<forall>i n. map_of (vs_nodes s) i = Some n \<longrightarrow> nv_has_mobility n \<in> {None, Some (mobile s i)})"

definition good :: "scene \<Rightarrow> bool" where
  "good s \<longleftrightarrow> scene_ok s \<and> cache_ok s"

definition evolves :: "scene \<Rightarrow> scene \<Rightarrow> bool" where
  "evolves s s' \<longleftrightarrow> (good s \<longrightarrow> good s' \<and> (\<forall>l < length (vs_links s). drawn s l \<longrightarrow> drawn s' l))
     \<and> map link_ends (vs_links s') = map link_ends (vs_links s) \<and> vs_mobility s' = vs_mobility s
     \<and> set (dict_keys (vs_nodes s)) \<subseteq> set (dict_keys (vs_nodes s')) \<and> set (dict_keys (vs_channels s)) \<subseteq> set (dict_keys (vs_channels s'))"

lemma evolves_refl [simp]: "evolves s s"
  by (simp add: evolves_def)

lemma evolves_trans: "evolves s t \<Longrightarrow> evolves t u \<Longrightarrow> evolves s u"
  unfolding evolves_def by (metis length_map order_trans)

lemma evolves_steady:
  assumes "steady s s'" "cache_ok s \<Longrightarrow> cache_ok s'" "vs_mobility s' = vs_mobility s"
    "set (dict_keys (vs_nodes s)) \<subseteq> set (dict_keys (vs_nodes s'))" "set (dict_keys (vs_channels s)) \<subseteq> set (dict_keys (vs_channels s'))"
  shows "evolves s s'"
  using assms steady_ok [OF assms(1)] by (auto simp: evolves_def good_def steady_def)

lemma evolves_moves:
  assumes "moves e s s'" "cache_ok s \<Longrightarrow> cache_ok s'" "vs_mobility s' = vs_mobility s"
    "set (dict_keys (vs_nodes s)) \<subseteq> set (dict_keys (vs_nodes s'))" "set (dict_keys (vs_channels s)) \<subseteq> set (dict_keys (vs_channels s'))"
  shows "evolves s s'"
proof -
  have "map link_ends (vs_links s') = map link_ends (vs_links s)"
    using assms(1) by (intro nth_equalityI) (auto simp: moves_def)
  then show ?thesis using assms moves_ok [of s e s'] by (auto simp: evolves_def good_def)
qed

lemma cache_ok_upd_node:
  assumes "cache_ok s" "\<And>n. nv_has_mobility (f n) = nv_has_mobility n \<or> nv_has_mobility (f n) = Some (mobile s i)"
  shows "cache_ok (upd_node i f s)"
proof -
  have m: "mobile (upd_node i f s) j = mobile s j" for j by (rule mobile_frame) simp
  have "nv_has_mobility (f n) \<in> {None, Some (mobile s i)}" if "map_of (vs_nodes s) i = Some n" for n
    using assms(2) [of n] assms(1) [unfolded cache_ok_def, rule_format, OF that] by auto
  then show ?thesis using assms(1) by (auto simp: cache_ok_def map_of_upd_node m)
qed

lemma cache_ok_frame:
  assumes "vs_nodes s = vs_nodes t" "vs_mobility s = vs_mobility t"
  shows "cache_ok s = cache_ok t"
  using assms(1) mobile_frame [OF assms(2)] by (simp add: cache_ok_def)

lemma grow_bounds_frame [simp]:
  "vs_channels (grow_bounds p s) = vs_channels s" "vs_nodes (grow_bounds p s) = vs_nodes s" "vs_mobility (grow_bounds p s) = vs_mobility s" "vs_selected (grow_bounds p s) = vs_selected s"
  "vs_mode (grow_bounds p s) = vs_mode s" "vs_interest (grow_bounds p s) = vs_interest s" "vs_drag (grow_bounds p s) = vs_drag s"
  by (simp_all add: grow_bounds_def split: prod.split)

lemma set_node_position_frame [simp]:
  "dict_keys (vs_nodes (set_node_position i p s)) = dict_keys (vs_nodes s)" "vs_mobility (set_node_position i p s) = vs_mobility s"
  "vs_channels (set_node_position i p s) = vs_channels s"
  by (simp_all add: set_node_position_def Let_def)

lemma cache_ok_set_node_position: "cache_ok s \<Longrightarrow> cache_ok (set_node_position i p s)"
proof -
  let ?t = "upd_node i (\<lambda>n. n\<lparr>nv_pos := p, nv_svg := map_option (svg_at p) (nv_svg n)\<rparr>) s"
  let ?u = "foldl update_points ?t (end_links ?t (Node_end i))"
  assume "cache_ok s"
  then have "cache_ok ?t" by (rule cache_ok_upd_node) simp
  then have "cache_ok ?u" using cache_ok_frame [of ?u ?t] by simp
  then have "cache_ok (upd_node i (\<lambda>n. n\<lparr>nv_label_pos := map_option (\<lambda>_. (fst p, snd p + nv_size n * 3)) (nv_label_pos n)\<rparr>) ?u)"
    by (rule cache_ok_upd_node) simp
  then show ?thesis unfolding set_node_position_def Let_def by (subst cache_ok_frame) auto
qed

lemma evolves_set_node_position: "evolves s (set_node_position i p s)"
  by (rule evolves_moves [OF set_node_position_moves]) (simp_all add: cache_ok_set_node_position)

lemma evolves_set_channel_position: "evolves s (set_channel_position c p s)"
proof -
  let ?t = "set_channel_position c p s"
  have "vs_nodes ?t = vs_nodes s" "vs_mobility ?t = vs_mobility s" "dict_keys (vs_channels ?t) = dict_keys (vs_channels s)"
    by (simp_all add: set_channel_position_def Let_def)
  then show ?thesis using evolves_moves [OF set_channel_position_moves] cache_ok_frame [of ?t s] by simp
qed

lemma evolves_upd_node:
  assumes "\<And>n. nv_pos (f n) = nv_pos n \<and> nv_links (f n) = nv_links n"
    "\<And>n. nv_has_mobility (f n) = nv_has_mobility n \<or> nv_has_mobility (f n) = Some (mobile s i)"
  shows "evolves s (upd_node i f s)"
  using steady_upd_node [OF assms(1)] cache_ok_upd_node [of s f i] assms(2) by (intro evolves_steady) auto

lemma evolves_update_appearance: "evolves s (update_appearance i s)"
proof -
  let ?s = "upd_node i (\<lambda>n. n\<lparr>nv_look := node_look n\<rparr>) s"
  let ?t = "upd_node i (\<lambda>n. n\<lparr>nv_label_pos := Some (0, 0)\<rparr>) ?s"
  have 1: "evolves s ?s" by (rule evolves_upd_node) simp_all
  have 2: "evolves ?s ?t" by (rule evolves_upd_node) simp_all
  have 3: "evolves s (if P then ?t else ?s)" for P using 1 evolves_trans [OF 1 2] by simp
  show ?thesis
  proof (cases "map_of (vs_nodes ?s) i")
    case None
    then show ?thesis using 1 by (simp add: update_appearance_def Let_def)
  next
    case (Some n)
    then show ?thesis
      using 1 evolves_trans [OF 3 evolves_set_node_position]
      by (cases "nv_label n = None") (simp_all add: update_appearance_def Let_def)
  qed
qed

lemma evolves_setters:
  "evolves s (set_node_selected i b s)" "evolves s (set_highlighted i b s)" "evolves s (set_size i z s)" "evolves s (set_color i c s)"
  unfolding set_node_selected_def set_highlighted_def set_size_def set_color_def
  by (rule evolves_trans [OF evolves_upd_node evolves_update_appearance]; simp)+

lemma evolves_get_node: "evolves s (get_node i s)"
proof (cases "dict_has (vs_nodes s) i")
  case False
  then have no: "map_of (vs_nodes s) i = None" by (simp add: dict_has_iff)
  have "end_links (get_node i s) e = end_links s e \<and> end_pos (get_node i s) e = end_pos s e" for e
    using no by (cases e) (auto simp: end_simps get_node_def new_node_def Let_def)
  moreover have "cache_ok (get_node i s)" if "cache_ok s"
  proof -
    have "mobile (get_node i s) j = mobile s j" for j by (rule mobile_frame) (simp add: get_node_def)
    then show ?thesis using that no by (auto simp: cache_ok_def) (auto simp: get_node_def new_node_def Let_def split: if_splits)
  qed
  ultimately show ?thesis
    by (intro evolves_steady) (auto simp: steady_def fun_eq_iff get_node_def dict_keys_set)
qed (simp add: get_node_def)

lemma evolves_get_channel: "evolves s (get_channel c s)"
proof (cases "dict_has (vs_channels s) c")
  case False
  then have no: "map_of (vs_channels s) c = None" by (simp add: dict_has_iff)
  have "end_links (get_channel c s) e = end_links s e \<and> end_pos (get_channel c s) e = end_pos s e" for e
    using no by (cases e) (auto simp: end_simps get_channel_def)
  moreover have "cache_ok (get_channel c s) = cache_ok s" by (rule cache_ok_frame) (simp_all add: get_channel_def)
  ultimately show ?thesis
    by (intro evolves_steady) (auto simp: steady_def fun_eq_iff get_channel_def dict_keys_set)
qed (simp add: get_channel_def)

lemma evolves_has_mobility: "has_mobility i s = (b, s') \<Longrightarrow> evolves s s'"
  by (auto simp: has_mobility_def Let_def mobile_def split: option.splits intro!: evolves_upd_node)

lemma has_mobility_value:
  assumes "good s" "map_of (vs_nodes s) i \<noteq> None"
  shows "fst (has_mobility i s) = mobile s i"
proof -
  obtain n where n: "map_of (vs_nodes s) i = Some n" using assms(2) by auto
  then have "nv_has_mobility n \<in> {None, Some (mobile s i)}" using assms(1) by (simp add: good_def cache_ok_def)
  then show ?thesis using n by (cases "nv_has_mobility n") (auto simp: has_mobility_def Let_def mobile_def)
qed

subsection \<open>Dragging\<close>

lemma set_node_position_node:
  "map_of (vs_nodes (set_node_position i p s)) = (map_of (vs_nodes s))(i := map_option
     (\<lambda>n. n\<lparr>nv_pos := p, nv_svg := map_option (svg_at p) (nv_svg n),
             nv_label_pos := map_option (\<lambda>_. (fst p, snd p + nv_size n * 3)) (nv_label_pos n)\<rparr>) (map_of (vs_nodes s) i))"
  by (auto simp: set_node_position_def Let_def map_of_upd_node fun_eq_iff option.map_comp o_def)

lemma set_node_position_state [simp]:
  "vs_drag (set_node_position i p s) = vs_drag s" "vs_selected (set_node_position i p s) = vs_selected s"
  "vs_mode (set_node_position i p s) = vs_mode s" "vs_interest (set_node_position i p s) = vs_interest s"
proof -
  have "vs_drag (foldl update_points t ls) = vs_drag t \<and> vs_selected (foldl update_points t ls) = vs_selected t
      \<and> vs_mode (foldl update_points t ls) = vs_mode t \<and> vs_interest (foldl update_points t ls) = vs_interest t" for t ls
    using update_all_points [of t ls] by blast
  then show "vs_drag (set_node_position i p s) = vs_drag s" "vs_selected (set_node_position i p s) = vs_selected s"
    "vs_mode (set_node_position i p s) = vs_mode s" "vs_interest (set_node_position i p s) = vs_interest s"
    by (simp_all add: set_node_position_def Let_def)
qed

definition drag_to :: "nat \<Rightarrow> scene \<Rightarrow> point \<Rightarrow> scene" where
  "drag_to i s q = snd (node_drag_motion i q s)"




subsection \<open>Selection and appearance\<close>

text \<open>
  The handlers of the window as steps: the mouse over nodes, selecting, the size control, the choice of the transmissions to
  show, dragging, updates of the positions and, from scripts, colours, labels and icons. \<open>n\<close> is the number of
  nodes of the simulation.
\<close>

inductive scene_step :: "nat \<Rightarrow> scene \<Rightarrow> scene \<Rightarrow> bool" for n :: nat where
  "scene_step n s (get_node i s)"
| "select_node node s = Inr t \<Longrightarrow> scene_step n s t"
| "scene_step n s (set_show_transmissions_mode mode n s)"
| "scene_step n s (set_highlighted i b s)"
| "scene_step n s (set_size i z s)"
| "scene_step n s (set_color i c s)"
| "set_label python3 i label s = Inr t \<Longrightarrow> scene_step n s t"
| "set_svg_icon i handle width height align s = Inr t \<Longrightarrow> scene_step n s t"
| "scene_step n s (begin_node_drag i q s)"
| "scene_step n s (drag_to i s q)"
| "scene_step n s (end_node_drag s)"
| "scene_step n s (update_node_positions s)"

definition selected_list :: "scene \<Rightarrow> nat list" where
  "selected_list s = (case vs_selected s of None \<Rightarrow> [] | Some i \<Rightarrow> [i])"

definition node_ok :: "scene \<Rightarrow> nat \<Rightarrow> node_view \<Rightarrow> bool" where
  "node_ok s i n \<longleftrightarrow> nv_selected n = (vs_selected s = Some i) \<and> nv_look n = node_look n"

definition selection_inv :: "nat \<Rightarrow> scene \<Rightarrow> bool" where
  "selection_inv n s \<longleftrightarrow> (\<forall>i. vs_selected s = Some i \<longrightarrow> i \<in> set (dict_keys (vs_nodes s))) \<and> (\<forall>i v. map_of (vs_nodes s) i = Some v \<longrightarrow> node_ok s i v)
     \<and> vs_interest s = (case vs_mode s of Show_all \<Rightarrow> [0 ..< n] | Show_none \<Rightarrow> [] | Show_selected \<Rightarrow> selected_list s)"

text \<open>Steps that change nodes only, and keep what they look like in accordance with their state\<close>

definition repaints :: "scene \<Rightarrow> scene \<Rightarrow> bool" where
  "repaints s t \<longleftrightarrow> vs_selected t = vs_selected s \<and> vs_mode t = vs_mode s \<and> vs_interest t = vs_interest s
     \<and> dict_keys (vs_nodes t) = dict_keys (vs_nodes s) \<and> (\<forall>i v'. map_of (vs_nodes t) i = Some v' \<longrightarrow>
          (\<exists>v. map_of (vs_nodes s) i = Some v \<and> nv_selected v' = nv_selected v \<and> (nv_look v = node_look v \<longrightarrow> nv_look v' = node_look v')))"

lemma selected_list_frame [simp]:
  "selected_list (s\<lparr>vs_nodes := x\<rparr>) = selected_list s" "selected_list (s\<lparr>vs_interest := y\<rparr>) = selected_list s"
  by (simp_all add: selected_list_def)

lemma repaints_inv:
  assumes "repaints s t" "selection_inv n s"
  shows "selection_inv n t"
proof -
  have f: "vs_selected t = vs_selected s" "vs_mode t = vs_mode s" "vs_interest t = vs_interest s"
      "dict_keys (vs_nodes t) = dict_keys (vs_nodes s)"
    using assms(1) by (auto simp: repaints_def)
  have "node_ok t i v'" if v': "map_of (vs_nodes t) i = Some v'" for i v'
  proof -
    obtain v where "map_of (vs_nodes s) i = Some v" "nv_selected v' = nv_selected v" "nv_look v = node_look v \<longrightarrow> nv_look v' = node_look v'"
      using assms(1) v' unfolding repaints_def by blast
    then show ?thesis using assms(2) f(1) by (auto simp: selection_inv_def node_ok_def)
  qed
  moreover have "selected_list t = selected_list s" by (simp add: selected_list_def f(1))
  ultimately show ?thesis using assms(2) f by (simp add: selection_inv_def split: transmissions_mode.split)
qed

lemma repaints_trans: "repaints s t \<Longrightarrow> repaints t u \<Longrightarrow> repaints s u"
  unfolding repaints_def by metis

lemma repaints_refl [simp]: "repaints s s"
  by (simp add: repaints_def)

lemma repaints_upd_node:
  assumes "\<And>v. nv_selected (f v) = nv_selected v" "\<And>v. nv_look v = node_look v \<Longrightarrow> nv_look (f v) = node_look (f v)"
  shows "repaints s (upd_node i f s)"
  using assms by (auto simp: repaints_def map_of_upd_node)

lemma repaints_frame:
  "vs_nodes t = vs_nodes s \<Longrightarrow> vs_selected t = vs_selected s \<Longrightarrow> vs_mode t = vs_mode s \<Longrightarrow> vs_interest t = vs_interest s \<Longrightarrow> repaints s t"
  by (simp add: repaints_def)

lemma node_look_frame [simp]:
  "node_look (v\<lparr>nv_pos := p\<rparr>) = node_look v" "node_look (v\<lparr>nv_look := l\<rparr>) = node_look v"
  "node_look (v\<lparr>nv_label_pos := q\<rparr>) = node_look v" "node_look (v\<lparr>nv_has_mobility := b\<rparr>) = node_look v"
  "(x = None) = (nv_svg v = None) \<Longrightarrow> node_look (v\<lparr>nv_svg := x\<rparr>) = node_look v"
  by (simp_all add: node_look_def)

lemma repaints_set_node_position: "repaints s (set_node_position i p s)"
  by (auto simp: repaints_def set_node_position_node)

lemma update_appearance_effect:
  "vs_selected (update_appearance i s) = vs_selected s" "vs_mode (update_appearance i s) = vs_mode s"
  "vs_interest (update_appearance i s) = vs_interest s" "dict_keys (vs_nodes (update_appearance i s)) = dict_keys (vs_nodes s)"
  "map_of (vs_nodes (update_appearance i s)) j = Some v' \<Longrightarrow>
     \<exists>v. map_of (vs_nodes s) j = Some v \<and> nv_selected v' = nv_selected v \<and> (if j = i then nv_look v' = node_look v' else v' = v)"
proof -
  let ?s = "upd_node i (\<lambda>v. v\<lparr>nv_look := node_look v\<rparr>) s"
  let ?t = "upd_node i (\<lambda>n. n\<lparr>nv_label_pos := Some (0, 0)\<rparr>) ?s"
  consider "update_appearance i s = ?s" | p where "update_appearance i s = set_node_position i p ?s"
    | p where "update_appearance i s = set_node_position i p ?t"
  proof (cases "map_of (vs_nodes ?s) i")
    case None
    then show ?thesis using that(1) by (simp add: update_appearance_def Let_def)
  next
    case (Some v)
    then have "update_appearance i s = (if nv_label v = None then ?s else set_node_position i (nv_pos v) (if nv_label_pos v = None then ?t else ?s))"
      by (simp add: update_appearance_def Let_def)
    then show ?thesis using that(1) that(2,3) [of "nv_pos v"] by (auto split: if_splits)
  qed
  note c = this
  show "vs_selected (update_appearance i s) = vs_selected s" "vs_mode (update_appearance i s) = vs_mode s"
    "vs_interest (update_appearance i s) = vs_interest s" "dict_keys (vs_nodes (update_appearance i s)) = dict_keys (vs_nodes s)"
    by (cases rule: c; simp)+
  show "\<exists>v. map_of (vs_nodes s) j = Some v \<and> nv_selected v' = nv_selected v \<and> (if j = i then nv_look v' = node_look v' else v' = v)"
    if "map_of (vs_nodes (update_appearance i s)) j = Some v'"
    by (cases rule: c) (use that in \<open>auto simp: map_of_upd_node set_node_position_node split: if_splits\<close>)
qed

lemma update_appearance_repaints:
  assumes "\<And>v. nv_selected (f v) = nv_selected v"
  shows "repaints s (update_appearance i (upd_node i f s))"
proof -
  have "\<exists>v. map_of (vs_nodes s) j = Some v \<and> nv_selected v' = nv_selected v \<and> (nv_look v = node_look v \<longrightarrow> nv_look v' = node_look v')"
    if "map_of (vs_nodes (update_appearance i (upd_node i f s))) j = Some v'" for j v'
    using update_appearance_effect(5) [OF that] assms by (auto simp: map_of_upd_node split: if_splits)
  then show ?thesis using update_appearance_effect(1-4) [of i "upd_node i f s"] unfolding repaints_def by simp
qed

lemma repaints_has_mobility: "has_mobility i s = (b, t) \<Longrightarrow> repaints s t"
  by (auto simp: has_mobility_def Let_def split: option.splits intro!: repaints_upd_node)

lemma repaints_update_positions: "repaints s (foldl update_node_position s is)"
proof (induction "is" arbitrary: s)
  case (Cons i "is")
  obtain b t where t: "has_mobility i s = (b, t)" by (metis surj_pair)
  have "repaints s (update_node_position s i)"
    using repaints_has_mobility [OF t] repaints_trans [OF _ repaints_set_node_position]
    by (auto simp: update_node_position_def t split: option.split)
  then show ?case using Cons.IH [of "update_node_position s i"] repaints_trans by auto
qed simp

lemma setters_repaint:
  "repaints s (set_highlighted i b s)" "repaints s (set_size i z s)" "repaints s (set_color i c s)"
  "set_label py3 i label s = Inr t \<Longrightarrow> repaints s t" "set_svg_icon i handle width height align s = Inr t \<Longrightarrow> repaints s t"
  by (auto simp: set_highlighted_def set_size_def set_color_def set_label_def set_svg_icon_def Let_def
      intro!: update_appearance_repaints split: if_splits)

lemma drag_to_repaints: "repaints s (drag_to i s q)"
proof -
  have "repaints s (set_node_position i p (s\<lparr>vs_mobility := m\<rparr>))" for p m
    by (rule repaints_trans [OF repaints_frame repaints_set_node_position]) simp_all
  then show ?thesis by (simp add: drag_to_def node_drag_motion_def Let_def split: option.split)
qed

lemma set_node_selected_effect:
  "vs_selected (set_node_selected i b s) = vs_selected s" "vs_mode (set_node_selected i b s) = vs_mode s"
  "vs_interest (set_node_selected i b s) = vs_interest s" "dict_keys (vs_nodes (set_node_selected i b s)) = dict_keys (vs_nodes s)"
  "map_of (vs_nodes (set_node_selected i b s)) j = Some v' \<Longrightarrow>
     \<exists>v. map_of (vs_nodes s) j = Some v \<and> (if j = i then nv_selected v' = b \<and> nv_look v' = node_look v' else v' = v)"
proof -
  let ?s = "upd_node i (\<lambda>n. n\<lparr>nv_selected := b\<rparr>) s"
  show "vs_selected (set_node_selected i b s) = vs_selected s" "vs_mode (set_node_selected i b s) = vs_mode s"
    "vs_interest (set_node_selected i b s) = vs_interest s" "dict_keys (vs_nodes (set_node_selected i b s)) = dict_keys (vs_nodes s)"
    using update_appearance_effect(1-4) [of i ?s] by (simp_all add: set_node_selected_def)
  show "\<exists>v. map_of (vs_nodes s) j = Some v \<and> (if j = i then nv_selected v' = b \<and> nv_look v' = node_look v' else v' = v)"
    if "map_of (vs_nodes (set_node_selected i b s)) j = Some v'"
    using update_appearance_effect(5) [OF that [unfolded set_node_selected_def]] by (auto simp: map_of_upd_node split: if_splits)
qed

lemma select_node_inv:
  assumes "selection_inv n s" "select_node node s = Inr t"
  shows "selection_inv n t"
proof (cases "node = vs_selected s")
  case True
  then show ?thesis using assms by (auto simp: select_node_def res_bind_Inr_iff)
next
  case False
  define s1 where "s1 = (case vs_selected s of None \<Rightarrow> s | Some i \<Rightarrow> set_node_selected i False s)"
  define s3 where "s3 = (case node of None \<Rightarrow> s1\<lparr>vs_selected := node\<rparr> | Some i \<Rightarrow> set_node_selected i True (s1\<lparr>vs_selected := node\<rparr>))"
  have t: "t = (if vs_mode s3 = Show_selected then s3\<lparr>vs_interest := (case vs_selected s3 of None \<Rightarrow> [] | Some i \<Rightarrow> [i])\<rparr> else s3)"
    using assms(2) [unfolded select_node_def Let_def, folded s1_def, folded s3_def] False by (simp add: res_bind_Inr_iff split: if_splits)
  have f1: "vs_mode s1 = vs_mode s" "vs_interest s1 = vs_interest s" "dict_keys (vs_nodes s1) = dict_keys (vs_nodes s)"
    by (auto simp: s1_def set_node_selected_effect split: option.split)
  have n1: "\<exists>v. map_of (vs_nodes s) j = Some v \<and> \<not> nv_selected v' \<and> nv_look v' = node_look v'" if "map_of (vs_nodes s1) j = Some v'" for j v'
  proof (cases "vs_selected s")
    case None
    then show ?thesis using that assms(1) by (auto simp: s1_def selection_inv_def node_ok_def)
  next
    case (Some i)
    then have "map_of (vs_nodes (set_node_selected i False s)) j = Some v'" using that by (simp add: s1_def)
    from set_node_selected_effect(5) [OF this] show ?thesis
      using assms(1) Some by (auto simp: selection_inv_def node_ok_def split: if_splits)
  qed
  have f3: "vs_selected s3 = node" "vs_mode s3 = vs_mode s" "vs_interest s3 = vs_interest s" "dict_keys (vs_nodes s3) = dict_keys (vs_nodes s)"
    using f1 by (auto simp: s3_def set_node_selected_effect split: option.split)
  have n3: "nv_selected v' = (node = Some j) \<and> nv_look v' = node_look v'" if "map_of (vs_nodes s3) j = Some v'" for j v'
  proof (cases node)
    case None
    then show ?thesis using that n1 [of j v'] by (auto simp: s3_def)
  next
    case (Some i)
    then have "map_of (vs_nodes (set_node_selected i True (s1\<lparr>vs_selected := node\<rparr>))) j = Some v'" using that by (simp add: s3_def)
    from set_node_selected_effect(5) [OF this] show ?thesis
      using n1 [of j v'] Some by (auto split: if_splits)
  qed
  have "i \<in> set (dict_keys (vs_nodes s))" if "node = Some i" for i
    using assms(2) that by (auto simp: select_node_def res_bind_Inr_iff dict_get_def set_dict_keys split: option.splits)
  then show ?thesis
    using n3 f3 assms(1) by (auto simp: t selection_inv_def node_ok_def selected_list_def split: transmissions_mode.split)
qed

lemma new_node_ok: "\<not> nv_selected new_node" "nv_look new_node = node_look new_node"
proof -
  have "\<exists>n. new_node = n\<lparr>nv_look := node_look n\<rparr> \<and> \<not> nv_selected n"
    unfolding new_node_def Let_def by (rule exI, rule conjI, rule refl, simp)
  then obtain n where n: "new_node = n\<lparr>nv_look := node_look n\<rparr>" "\<not> nv_selected n" by blast
  show "\<not> nv_selected new_node" "nv_look new_node = node_look new_node" unfolding n(1) node_look_frame using n(2) by simp_all
qed

lemma scene_step_inv:
  assumes "selection_inv n s" "scene_step n s t"
  shows "selection_inv n t"
  using assms(2)
proof cases
  case (1 i)
  then show ?thesis using assms(1)
    by (auto simp: get_node_def selection_inv_def node_ok_def new_node_ok dict_keys_set dict_has_def
        split: if_splits transmissions_mode.splits)
next
  case (2 node)
  then show ?thesis using select_node_inv [OF assms(1)] by blast
next
  case (3 mode)
  then show ?thesis using assms(1)
    by (cases mode) (auto simp: set_show_transmissions_mode_def selection_inv_def node_ok_def selected_list_def)
next
  case (9 i q)
  then show ?thesis using repaints_inv [OF repaints_frame assms(1)] by (auto simp: begin_node_drag_def split: option.split)
next
  case 11
  then show ?thesis using repaints_inv [OF repaints_frame assms(1)] by (simp add: end_node_drag_def)
qed (use repaints_inv [OF _ assms(1)] setters_repaint drag_to_repaints repaints_update_positions in
  \<open>auto simp: update_node_positions_def\<close>)

interpretation scene_sys: invariant_system "scene_step n" "selection_inv n" for n
  by unfold_locales (rule scene_step_inv)

text \<open>
  C18. Whatever the user does with the window, exactly the selected node is marked as selected, every node looks as its state says (size,
  colour, thicker outline when selected, yellow when under the mouse), and the simulator is told to record the
  transmissions of exactly the nodes the chosen mode asks for.
\<close>

theorem selection_consistent:
  assumes "(scene_step (length mob))\<^sup>*\<^sup>* (new_scene mob) s"
  shows "(\<forall>i v. map_of (vs_nodes s) i = Some v \<longrightarrow> nv_selected v = (vs_selected s = Some i) \<and> nv_look v = node_look v)
    \<and> vs_interest s = (case vs_mode s of Show_all \<Rightarrow> [0 ..< length mob] | Show_none \<Rightarrow> [] | Show_selected \<Rightarrow> selected_list s)"
proof -
  have "selection_inv (length mob) (new_scene mob)"
    by (simp add: selection_inv_def new_scene_def set_show_transmissions_mode_def)
  from scene_sys.inv_reachable [OF assms this] show ?thesis by (simp add: selection_inv_def node_ok_def)
qed

theorem selection_consistent_witness:
  "\<exists>s. (scene_step 2)\<^sup>*\<^sup>* (new_scene [None, None]) s \<and> vs_selected s = Some 1 \<and> vs_mode s = Show_selected \<and> vs_interest s = [1]"
proof -
  let ?s0 = "new_scene [None, None]"
  let ?s2 = "set_show_transmissions_mode Show_selected 2 (get_node 1 ?s0)"
  have "scene_step 2 ?s0 (get_node 1 ?s0)" "scene_step 2 (get_node 1 ?s0) ?s2" by (rule scene_step.intros)+
  moreover have "case select_node (Some 1) ?s2 of Inl e \<Rightarrow> False | Inr t \<Rightarrow> vs_selected t = Some 1 \<and> vs_mode t = Show_selected"
    by code_simp
  then obtain t where t: "select_node (Some 1) ?s2 = Inr t" "vs_selected t = Some 1" "vs_mode t = Show_selected"
    by (auto split: sum.splits)
  moreover have "scene_step 2 ?s2 t" by (rule scene_step.intros(2) [OF t(1)])
  ultimately have st: "(scene_step (length [None, None :: point option]))\<^sup>*\<^sup>* ?s0 t"
    using rtranclp.rtrancl_into_rtrancl [of "scene_step 2"] by (simp add: numeral_2_eq_2)
  from selection_consistent [OF st] show ?thesis using st t by (auto simp: selected_list_def numeral_2_eq_2)
qed

end
