(* ===== verification/Viz_Topology.thy ===== *)
theory Viz_Topology
  imports Viz_Scene
begin

text \<open>
  The scan of the topology (\<open>scan_topology\<close> of \<open>src/visualizer/visualizer/core.py\<close>), which creates the nodes, channels
  and links of the scene and has Graphviz place them. The simulated network is a parameter: the devices of each node with their
  class and channel, and for each channel the nodes of its devices. Graphviz is the parameter \<open>layout\<close>,
  which gives the nodes of a graph their positions, in the order in which the graph enumerates them.
\<close>

subsection \<open>Scanning the topology\<close>

record net_device =
  dev_class :: string
  dev_channel :: "nat option"

record network =
  net_devices :: "net_device list list"
  net_channel :: "nat \<Rightarrow> nat list"

record gv_graph =
  gv_nodes :: "string list"
  gv_edges :: "(string \<times> string) list"

definition add_gv_node :: "string \<Rightarrow> gv_graph \<Rightarrow> gv_graph" where
  "add_gv_node a g = (if a \<in> set (gv_nodes g) then g else g\<lparr>gv_nodes := gv_nodes g @ [a]\<rparr>)"

text \<open>The graph is undirected and strict: an edge is kept once.\<close>

definition add_gv_edge :: "string \<Rightarrow> string \<Rightarrow> gv_graph \<Rightarrow> gv_graph" where
  "add_gv_edge a b g =
     (let g = add_gv_node b (add_gv_node a g)
      in if (a, b) \<in> set (gv_edges g) \<or> (b, a) \<in> set (gv_edges g) then g else g\<lparr>gv_edges := gv_edges g @ [(a, b)]\<rparr>)"

definition node_name :: "nat \<Rightarrow> string" where
  "node_name i = ''Node '' @ nat_str i"

definition channel_name :: "nat \<Rightarrow> string" where
  "channel_name c = ''Channel '' @ nat_str c"

record scan =
  sn_scene :: scene
  sn_graph :: gv_graph
  sn_traits :: "(string, device_traits) dict"

text \<open>The devices of a channel with at most two of them: a link to the other node\<close>

definition scan_other :: "nat \<Rightarrow> bool \<Rightarrow> scan \<Rightarrow> nat \<Rightarrow> scan" where
  "scan_other i has_mob sc j =
     (let s = get_node j (sn_scene sc) in
      if j = i then sc\<lparr>sn_scene := s\<rparr>
      else
        let (other_mobile, s') = (if has_mob then (True, s) else has_mobility j s);
            g = (if \<not> has_mob \<and> \<not> other_mobile then add_gv_edge (node_name i) (node_name j) (sn_graph sc) else sn_graph sc)
        in sc\<lparr>sn_scene := create_link i (Node_end j) (get_node i s'), sn_graph := g\<rparr>)"

text \<open>One device; channels with more than two devices are shown as nodes (\<open>REPRESENT_CHANNELS_AS_NODES\<close> is 1).\<close>

definition scan_device :: "network \<Rightarrow> nat \<Rightarrow> bool \<Rightarrow> scan \<Rightarrow> net_device \<Rightarrow> scan result" where
  "scan_device net i has_mob sc dev =
     (let (t, table) = lookup_netdevice_traits (dev_class dev) (sn_traits sc);
          sc = sc\<lparr>sn_traits := table\<rparr> in
      if is_wireless t = Some True \<or> is_virtual t then Inr sc
      else case dev_channel dev of
        None \<Rightarrow> Inl AttributeError
      | Some c \<Rightarrow>
          if 2 < length (net_channel net c)
          then let g = (if has_mob then sn_graph sc else add_gv_edge (node_name i) (channel_name c) (sn_graph sc));
                   s = get_channel c (get_node i (get_channel c (sn_scene sc)))
               in Inr (sc\<lparr>sn_scene := create_link i (Channel_end c) s, sn_graph := g\<rparr>)
          else Inr (foldl (scan_other i has_mob) sc (net_channel net c)))"

definition red :: "int \<times> int \<times> int" where
  "red = (0xffff, 0, 0)"

definition scan_node :: "network \<Rightarrow> scan \<Rightarrow> nat \<Rightarrow> scan result" where
  "scan_node net sc i =
     (let s = get_node i (sn_scene sc);
          mobility = mobility_of s i;
          sc = (case mobility of
                  Some p \<Rightarrow> sc\<lparr>sn_scene := set_node_position i (transform_point_simulation_to_canvas p)
                                            (set_color i (color_rgba red) s)\<rparr>
                | None \<Rightarrow> sc\<lparr>sn_scene := s, sn_graph := add_gv_node (node_name i) (sn_graph sc)\<rparr>)
      in res_fold (scan_device net i (mobility \<noteq> None)) sc (net_devices net ! i))"

text \<open>A name of the graph is split again into its kind and number.\<close>

definition place_gv_node :: "scene \<times> endpoint option \<Rightarrow> string \<times> point \<Rightarrow> (scene \<times> endpoint option) result" where
  "place_gv_node so np =
     (case (so, np) of ((s, obj), (name, pos)) \<Rightarrow>
        case py_split (CHR '' '') name of
          [node_type, node_id] \<Rightarrow>
            res_bind (if node_type = ''Node'' then
                        res_bind (py_int 10 node_id) (\<lambda>k. if k < 0 then Inl KeyError
                                                    else res_bind (dict_get (vs_nodes s) (nat k)) (\<lambda>_. Inr (Node_end (nat k))))
                      else if node_type = ''Channel'' then
                        res_bind (py_int 10 node_id) (\<lambda>k. if k < 0 then Inl KeyError
                                                    else res_bind (dict_get (vs_channels s) (nat k)) (\<lambda>_. Inr (Channel_end (nat k))))
                      else case obj of None \<Rightarrow> Inl UnboundLocalError | Some e \<Rightarrow> Inr e) (\<lambda>e.
            Inr (case e of Node_end i \<Rightarrow> set_node_position i pos s | Channel_end c \<Rightarrow> set_channel_position c pos s, Some e))
        | _ \<Rightarrow> Inl ValueError)"

definition scan_topology ::
  "(gv_graph \<Rightarrow> (string \<times> point) list) \<Rightarrow> network \<Rightarrow> (string, device_traits) dict \<Rightarrow> scene \<Rightarrow> scene result" where
  "scan_topology layout net table s =
     res_bind (res_fold (scan_node net) \<lparr>sn_scene = s, sn_graph = \<lparr>gv_nodes = [], gv_edges = []\<rparr>, sn_traits = table\<rparr>
                 [0 ..< length (net_devices net)]) (\<lambda>sc.
     res_bind (res_fold place_gv_node (sn_scene sc, None) (layout (sn_graph sc))) (\<lambda>so. Inr (fst so)))"

subsection \<open>The links of the topology\<close>

fun end_exists :: "scene \<Rightarrow> endpoint \<Rightarrow> bool" where
  "end_exists s (Node_end i) = dict_has (vs_nodes s) i"
| "end_exists s (Channel_end c) = dict_has (vs_channels s) c"

lemma end_pos_upd:
  "(\<And>n. nv_pos (f n) = nv_pos n) \<Longrightarrow> end_pos (upd_node i f s) e = end_pos s e"
  "(\<And>n. cv_pos (h n) = cv_pos n) \<Longrightarrow> end_pos (upd_channel c h s) e = end_pos s e"
  by (cases e; simp add: end_simps map_of_upd_node map_of_upd_channel split: option.split)+

lemma end_links_upd:
  "end_links (upd_node i f s) e =
     (if e = Node_end i then case map_of (vs_nodes s) i of None \<Rightarrow> [] | Some n \<Rightarrow> nv_links (f n) else end_links s e)"
  "end_links (upd_channel c h s) e =
     (if e = Channel_end c then case map_of (vs_channels s) c of None \<Rightarrow> [] | Some n \<Rightarrow> cv_links (h n) else end_links s e)"
  by (cases e; simp add: end_simps map_of_upd_node map_of_upd_channel split: option.split)+

lemma ends_frame [simp]: "end_pos (s\<lparr>vs_links := x\<rparr>) e = end_pos s e" "end_links (s\<lparr>vs_links := x\<rparr>) e = end_links s e"
  by (cases e; simp add: end_simps)+

lemma set_end_links_add:
  "set (end_links (upd_node i (\<lambda>n. n\<lparr>nv_links := nv_links n @ [l]\<rparr>) s) e) =
     set (end_links s e) \<union> (if e = Node_end i \<and> dict_has (vs_nodes s) i then {l} else {})"
  "set (end_links (upd_channel c (\<lambda>n. n\<lparr>cv_links := cv_links n @ [l]\<rparr>) s) e) =
     set (end_links s e) \<union> (if e = Channel_end c \<and> dict_has (vs_channels s) c then {l} else {})"
  by (auto simp: end_links_upd end_simps dict_has_iff split: option.splits)

lemma create_link_keeps:
  assumes "good s" "dict_has (vs_nodes s) i" "end_exists s e"
  shows "good (create_link i e s)" "map link_ends (vs_links (create_link i e s)) = map link_ends (vs_links s) @ [(i, e)]"
    "vs_mobility (create_link i e s) = vs_mobility s" "dict_keys (vs_nodes (create_link i e s)) = dict_keys (vs_nodes s)"
    "dict_keys (vs_channels (create_link i e s)) = dict_keys (vs_channels s)"
proof -
  let ?l = "length (vs_links s)" and ?t = "create_link i e s"
  let ?s1 = "s\<lparr>vs_links := vs_links s @ [\<lparr>ln_node1 = i, ln_node2 = e, ln_data = None\<rparr>]\<rparr>"
  let ?s2 = "upd_node i (\<lambda>n. n\<lparr>nv_links := nv_links n @ [?l]\<rparr>) ?s1"
  have t: "?t = (case e of Node_end j \<Rightarrow> upd_node j (\<lambda>n. n\<lparr>nv_links := nv_links n @ [?l]\<rparr>) ?s2
      | Channel_end c \<Rightarrow> upd_channel c (\<lambda>n. n\<lparr>cv_links := cv_links n @ [?l]\<rparr>) ?s2)"
    by (simp add: create_link_def Let_def)
  have links: "vs_links ?t = vs_links s @ [\<lparr>ln_node1 = i, ln_node2 = e, ln_data = None\<rparr>]" by (simp add: t split: endpoint.split)
  show "vs_mobility ?t = vs_mobility s" "dict_keys (vs_nodes ?t) = dict_keys (vs_nodes s)"
      "dict_keys (vs_channels ?t) = dict_keys (vs_channels s)"
    by (simp_all add: t split: endpoint.split)
  show "map link_ends (vs_links ?t) = map link_ends (vs_links s) @ [(i, e)]" by (simp add: links link_ends_def)
  have pos: "end_pos ?t e' = end_pos s e'" for e' unfolding t by (cases e) (simp_all add: end_pos_upd)
  have h2: "dict_has (vs_nodes ?s2) = dict_has (vs_nodes s)" by (simp add: dict_has_def fun_eq_iff)
  have lk: "set (end_links ?t e') = set (end_links s e') \<union> (if e' = Node_end i \<or> e' = e then {?l} else {})" for e'
    unfolding t using assms(2,3) h2 by (cases e) (auto simp: set_end_links_add)
  then have more: "set (end_links s e') \<subseteq> set (end_links ?t e')" for e' by auto
  have new: "?l \<in> set (end_links ?t (Node_end i))" "?l \<in> set (end_links ?t e)" using lk by simp_all
  have "link_ok ?t l" if l: "l < Suc ?l" for l
  proof (cases "l = ?l")
    case True
    then show ?thesis using new by (simp add: link_ok_def links)
  next
    case False
    then have "l < ?l" "vs_links ?t ! l = vs_links s ! l" using l by (auto simp: links nth_append)
    moreover have "link_ok s l" using assms(1) \<open>l < ?l\<close> by (simp add: good_def scene_ok_def)
    moreover have "current ?t L = current s L" for L by (simp add: current_def pos)
    ultimately show ?thesis using more by (auto simp: link_ok_def Let_def)
  qed
  moreover have "cache_ok ?s1" using assms(1) cache_ok_frame [of ?s1 s] by (simp add: good_def)
  then have "cache_ok ?s2" by (rule cache_ok_upd_node) simp
  then have "cache_ok (case e of Node_end j \<Rightarrow> upd_node j (\<lambda>n. n\<lparr>nv_links := nv_links n @ [?l]\<rparr>) ?s2
      | Channel_end c \<Rightarrow> upd_channel c (\<lambda>n. n\<lparr>cv_links := cv_links n @ [?l]\<rparr>) ?s2)"
    using cache_ok_upd_node [of ?s2] cache_ok_frame [of "upd_channel _ _ ?s2" ?s2] by (auto split: endpoint.split)
  then have "cache_ok ?t" by (simp only: t)
  ultimately show "good ?t" by (simp add: good_def scene_ok_def links)
qed

definition wired :: "(string, device_traits) dict \<Rightarrow> string \<Rightarrow> bool" where
  "wired table cls \<longleftrightarrow> (case map_of table cls of None \<Rightarrow> False | Some t \<Rightarrow> is_wireless t \<noteq> Some True \<and> \<not> is_virtual t)"

definition device_links :: "network \<Rightarrow> (string, device_traits) dict \<Rightarrow> nat \<Rightarrow> net_device \<Rightarrow> (nat \<times> endpoint) list" where
  "device_links net table i dev =
     (case dev_channel dev of
        Some c \<Rightarrow>
          if \<not> wired table (dev_class dev) then []
          else if 2 < length (net_channel net c) then [(i, Channel_end c)]
          else map (\<lambda>j. (i, Node_end j)) (filter (\<lambda>j. j \<noteq> i) (net_channel net c))
      | None \<Rightarrow> [])"

definition expected_links :: "network \<Rightarrow> (string, device_traits) dict \<Rightarrow> nat list \<Rightarrow> (nat \<times> endpoint) list" where
  "expected_links net table is = concat (map (\<lambda>i. concat (map (device_links net table i) (net_devices net ! i))) is)"

fun end_name :: "endpoint \<Rightarrow> string" where
  "end_name (Node_end i) = node_name i"
| "end_name (Channel_end c) = channel_name c"

definition scan_inv :: "(string, device_traits) dict \<Rightarrow> point option list \<Rightarrow> (nat \<times> endpoint) list \<Rightarrow> scan \<Rightarrow> bool" where
  "scan_inv table mob ls sc \<longleftrightarrow> good (sn_scene sc) \<and> map link_ends (vs_links (sn_scene sc)) = ls
     \<and> vs_mobility (sn_scene sc) = mob \<and> wired (sn_traits sc) = wired table
     \<and> (\<forall>(i, e) \<in> set ls. dict_has (vs_nodes (sn_scene sc)) i
          \<and> (mobile (sn_scene sc) i \<or> node_name i \<in> set (gv_nodes (sn_graph sc))))
     \<and> set (gv_nodes (sn_graph sc)) \<subseteq> end_name ` {e. end_exists (sn_scene sc) e}"

text \<open>The node being visited: it is in the scene, and in the graph unless it has a mobility model.\<close>

definition visiting :: "nat \<Rightarrow> scan \<Rightarrow> bool" where
  "visiting i sc \<longleftrightarrow> dict_has (vs_nodes (sn_scene sc)) i
     \<and> (mobile (sn_scene sc) i \<or> node_name i \<in> set (gv_nodes (sn_graph sc)))"

lemma evolves_exists: "evolves s t \<Longrightarrow> end_exists s e \<Longrightarrow> end_exists t e"
  by (cases e) (auto simp: evolves_def dict_has_def)

lemma evolves_has: "evolves s t \<Longrightarrow> dict_has (vs_nodes s) i \<Longrightarrow> dict_has (vs_nodes t) i"
  by (auto simp: evolves_def dict_has_def)

lemma evolves_links:
  assumes "evolves s t"
  shows "map link_ends (vs_links t) = map link_ends (vs_links s)" "length (vs_links t) = length (vs_links s)"
    "l < length (vs_links s) \<Longrightarrow> ln_node1 (vs_links t ! l) = ln_node1 (vs_links s ! l)"
proof -
  show ends: "map link_ends (vs_links t) = map link_ends (vs_links s)" using assms by (simp add: evolves_def)
  then show len: "length (vs_links t) = length (vs_links s)" by (metis length_map)
  assume "l < length (vs_links s)"
  then have "link_ends (vs_links t ! l) = link_ends (vs_links s ! l)" using ends len by (metis nth_map)
  then show "ln_node1 (vs_links t ! l) = ln_node1 (vs_links s ! l)" by (simp add: link_ends_def)
qed

lemma scan_inv_evolves:
  assumes "scan_inv table mob ls sc" "evolves (sn_scene sc) s" "set (gv_nodes (sn_graph sc)) \<subseteq> set (gv_nodes g)"
    "set (gv_nodes g) \<subseteq> end_name ` {e. end_exists s e}" "wired tr = wired table"
  shows "scan_inv table mob ls \<lparr>sn_scene = s, sn_graph = g, sn_traits = tr\<rparr>"
proof -
  have m: "mobile s j = mobile (sn_scene sc) j" for j using assms(2) by (intro mobile_frame) (simp add: evolves_def)
  have "good s" "map link_ends (vs_links s) = ls" "vs_mobility s = mob" using assms(1,2) by (auto simp: scan_inv_def evolves_def)
  moreover have "dict_has (vs_nodes s) j \<and> (mobile s j \<or> node_name j \<in> set (gv_nodes g))" if "(j, e) \<in> set ls" for j e
  proof -
    have "dict_has (vs_nodes (sn_scene sc)) j \<and> (mobile (sn_scene sc) j \<or> node_name j \<in> set (gv_nodes (sn_graph sc)))"
      using assms(1) that unfolding scan_inv_def by blast
    then show ?thesis using evolves_has [OF assms(2), of j] assms(3) by (auto simp: m)
  qed
  ultimately show ?thesis using assms(4,5) by (auto simp: scan_inv_def)
qed

lemma scan_evolves:
  assumes "scan_inv table mob ls sc" "visiting i sc" "evolves (sn_scene sc) s" "set (gv_nodes (sn_graph sc)) \<subseteq> set (gv_nodes g)"
    "set (gv_nodes g) \<subseteq> end_name ` {e. end_exists s e}" "wired tr = wired table"
  shows "scan_inv table mob ls \<lparr>sn_scene = s, sn_graph = g, sn_traits = tr\<rparr>" "visiting i \<lparr>sn_scene = s, sn_graph = g, sn_traits = tr\<rparr>"
proof -
  have m: "mobile s j = mobile (sn_scene sc) j" for j using assms(3) by (intro mobile_frame) (simp add: evolves_def)
  show "visiting i \<lparr>sn_scene = s, sn_graph = g, sn_traits = tr\<rparr>"
    using assms(2,4) evolves_has [OF assms(3), of i] unfolding visiting_def by (simp add: m) blast
  show "scan_inv table mob ls \<lparr>sn_scene = s, sn_graph = g, sn_traits = tr\<rparr>" by (rule scan_inv_evolves [OF assms(1,3-6)])
qed

lemma scan_create_link:
  assumes "scan_inv table mob ls sc" "visiting i sc" "end_exists (sn_scene sc) e"
  shows "scan_inv table mob (ls @ [(i, e)]) (sc\<lparr>sn_scene := create_link i e (sn_scene sc)\<rparr>)"
    "visiting i (sc\<lparr>sn_scene := create_link i e (sn_scene sc)\<rparr>)"
proof -
  have h: "dict_has (vs_nodes (sn_scene sc)) i" "good (sn_scene sc)" using assms(1,2) by (auto simp: visiting_def scan_inv_def)
  note c = create_link_keeps [OF h(2,1) assms(3)]
  have "mobile (create_link i e (sn_scene sc)) j = mobile (sn_scene sc) j" for j by (rule mobile_frame) (rule c(3))
  moreover have "dict_has (vs_nodes (create_link i e (sn_scene sc))) = dict_has (vs_nodes (sn_scene sc))"
    by (simp add: dict_has_def c(4) fun_eq_iff)
  moreover have "end_exists (create_link i e (sn_scene sc)) e' = end_exists (sn_scene sc) e'" for e'
    by (cases e') (simp_all add: dict_has_def c(4,5))
  ultimately show "scan_inv table mob (ls @ [(i, e)]) (sc\<lparr>sn_scene := create_link i e (sn_scene sc)\<rparr>)"
    "visiting i (sc\<lparr>sn_scene := create_link i e (sn_scene sc)\<rparr>)"
    using assms(1,2) c by (auto simp: scan_inv_def visiting_def)
qed

lemma gv_nodes_add: "set (gv_nodes (add_gv_node a g)) = insert a (set (gv_nodes g))"
  "set (gv_nodes (add_gv_edge a b g)) = insert a (insert b (set (gv_nodes g)))"
  by (auto simp: add_gv_node_def add_gv_edge_def Let_def)

lemma get_node_has [simp]: "dict_has (vs_nodes (get_node i s)) i"
  by (simp add: get_node_def dict_has_def dict_keys_set)

lemma get_channel_has [simp]: "dict_has (vs_channels (get_channel c s)) c"
  by (simp add: get_channel_def dict_has_def dict_keys_set)

lemma scan_names:
  assumes "scan_inv table mob ls sc" "evolves (sn_scene sc) s"
  shows "set (gv_nodes (sn_graph sc)) \<subseteq> end_name ` {e. end_exists s e}"
  using assms evolves_exists [OF assms(2)] unfolding scan_inv_def by blast

lemma end_name_exists:
  "dict_has (vs_nodes s) i \<Longrightarrow> node_name i \<in> end_name ` {e. end_exists s e}"
  "dict_has (vs_channels s) c \<Longrightarrow> channel_name c \<in> end_name ` {e. end_exists s e}"
  by (metis (mono_tags, lifting) end_exists.simps end_name.simps image_eqI mem_Collect_eq)+

lemma scan_other_step:
  assumes "scan_inv table mob ls sc" "visiting i sc" "m = mobile (sn_scene sc) i"
  shows "scan_inv table mob (ls @ (if j = i then [] else [(i, Node_end j)])) (scan_other i m sc j) \<and> visiting i (scan_other i m sc j)"
proof (cases "j = i")
  case True
  have "wired (sn_traits sc) = wired table" using assms(1) by (simp add: scan_inv_def)
  from scan_evolves [OF assms(1,2) evolves_get_node subset_refl scan_names [OF assms(1) evolves_get_node] this, of j] show ?thesis
    using True by (cases sc) (simp add: scan_other_def)
next
  case False
  let ?s = "get_node j (sn_scene sc)"
  obtain om s' where om: "(if m then (True, ?s) else has_mobility j ?s) = (om, s')" by (metis surj_pair)
  define g where "g = (if \<not> m \<and> \<not> om then add_gv_edge (node_name i) (node_name j) (sn_graph sc) else sn_graph sc)"
  have ev: "evolves ?s s'" using om evolves_has_mobility by (auto split: if_splits)
  then have ev': "evolves (sn_scene sc) (get_node i s')" using evolves_get_node evolves_trans by blast
  have ex: "end_exists (get_node i s') (Node_end j)"
    using evolves_has [OF evolves_trans [OF ev evolves_get_node [of s' i]] get_node_has] by simp
  note ev'
  moreover have "set (gv_nodes (sn_graph sc)) \<subseteq> set (gv_nodes g)" by (auto simp: g_def gv_nodes_add)
  moreover have "set (gv_nodes g) \<subseteq> end_name ` {e. end_exists (get_node i s') e}"
    using scan_names [OF assms(1) ev'] end_name_exists(1) [of "get_node i s'"] ex by (simp add: g_def gv_nodes_add)
  moreover have "wired (sn_traits sc) = wired table" using assms(1) by (simp add: scan_inv_def)
  ultimately have st: "scan_inv table mob ls \<lparr>sn_scene = get_node i s', sn_graph = g, sn_traits = sn_traits sc\<rparr>"
      "visiting i \<lparr>sn_scene = get_node i s', sn_graph = g, sn_traits = sn_traits sc\<rparr>"
    using scan_evolves [OF assms(1,2)] by blast+
  from scan_create_link [OF st, of "Node_end j"] ex have "scan_inv table mob (ls @ [(i, Node_end j)])
      \<lparr>sn_scene = create_link i (Node_end j) (get_node i s'), sn_graph = g, sn_traits = sn_traits sc\<rparr>
    \<and> visiting i \<lparr>sn_scene = create_link i (Node_end j) (get_node i s'), sn_graph = g, sn_traits = sn_traits sc\<rparr>"
    by simp
  moreover have "scan_other i m sc j =
      \<lparr>sn_scene = create_link i (Node_end j) (get_node i s'), sn_graph = g, sn_traits = sn_traits sc\<rparr>"
    using False om by (simp add: scan_other_def Let_def g_def)
  ultimately show ?thesis using False by simp
qed

lemma scan_inv_mobile: "scan_inv table mob ls sc \<Longrightarrow> scan_inv table mob ls' sc' \<Longrightarrow> mobile (sn_scene sc') i = mobile (sn_scene sc) i"
  by (rule mobile_frame) (simp add: scan_inv_def)

lemma scan_others_step:
  assumes "scan_inv table mob ls sc" "visiting i sc" "m = mobile (sn_scene sc) i"
  shows "scan_inv table mob (ls @ map (\<lambda>j. (i, Node_end j)) (filter (\<lambda>j. j \<noteq> i) js)) (foldl (scan_other i m) sc js)
    \<and> visiting i (foldl (scan_other i m) sc js)"
  using assms
proof (induction js arbitrary: ls sc)
  case (Cons j js)
  let ?ls = "ls @ (if j = i then [] else [(i, Node_end j)])"
  have st: "scan_inv table mob ?ls (scan_other i m sc j)" "visiting i (scan_other i m sc j)"
    using scan_other_step [OF Cons.prems] by auto
  have "m = mobile (sn_scene (scan_other i m sc j)) i" using scan_inv_mobile [OF Cons.prems(1) st(1)] Cons.prems(3) by simp
  from Cons.IH [OF st this] show ?case by (cases "j = i") simp_all
qed simp

lemma lookup_wired:
  assumes "lookup_netdevice_traits cls tr = (t, tr')"
  shows "wired tr' = wired tr" "(is_wireless t = Some True \<or> is_virtual t) \<longleftrightarrow> \<not> wired tr cls"
proof -
  have "wired (dict_set cls \<lparr>is_wireless = Some True, is_virtual = False\<rparr> tr) = wired tr" if "map_of tr cls = None"
    using that by (auto simp: wired_def fun_eq_iff)
  then show "wired tr' = wired tr" "(is_wireless t = Some True \<or> is_virtual t) \<longleftrightarrow> \<not> wired tr cls"
    using assms by (auto simp: lookup_netdevice_traits_def Let_def split: option.splits) (auto simp: wired_def)
qed

text \<open>A device on a channel of more than two devices: the channel is put into scene and graph, and linked.\<close>

lemma scan_bus_step:
  fixes c i m sc
  defines "s \<equiv> get_channel c (get_node i (get_channel c (sn_scene sc)))"
    and "g \<equiv> if m then sn_graph sc else add_gv_edge (node_name i) (channel_name c) (sn_graph sc)"
  assumes "scan_inv table mob ls sc" "visiting i sc"
  shows "scan_inv table mob (ls @ [(i, Channel_end c)]) \<lparr>sn_scene = create_link i (Channel_end c) s, sn_graph = g, sn_traits = sn_traits sc\<rparr>
    \<and> visiting i \<lparr>sn_scene = create_link i (Channel_end c) s, sn_graph = g, sn_traits = sn_traits sc\<rparr>"
proof -
  have ev: "evolves (sn_scene sc) s"
    unfolding s_def by (rule evolves_trans [OF evolves_get_channel evolves_trans [OF evolves_get_node evolves_get_channel]])
  have "dict_has (vs_channels s) c" "dict_has (vs_nodes s) i"
    using evolves_has [OF evolves_get_channel get_node_has] by (simp_all add: s_def)
  then have "set (gv_nodes g) \<subseteq> end_name ` {e. end_exists s e}"
    using scan_names [OF assms(3) ev] end_name_exists [of s] by (simp add: g_def gv_nodes_add)
  moreover have "set (gv_nodes (sn_graph sc)) \<subseteq> set (gv_nodes g)" by (auto simp: g_def gv_nodes_add)
  moreover have "wired (sn_traits sc) = wired table" using assms(3) by (simp add: scan_inv_def)
  ultimately have st: "scan_inv table mob ls \<lparr>sn_scene = s, sn_graph = g, sn_traits = sn_traits sc\<rparr>"
      "visiting i \<lparr>sn_scene = s, sn_graph = g, sn_traits = sn_traits sc\<rparr>"
    using scan_evolves [OF assms(3,4) ev] by blast+
  have "end_exists s (Channel_end c)" by (simp add: s_def)
  with scan_create_link [OF st] show ?thesis by simp
qed

lemma scan_device_step:
  assumes "scan_inv table mob ls sc" "visiting i sc" "m = mobile (sn_scene sc) i"
  shows "case scan_device net i m sc dev of
      Inl e \<Rightarrow> e = AttributeError \<and> wired table (dev_class dev) \<and> dev_channel dev = None
    | Inr sc' \<Rightarrow> scan_inv table mob (ls @ device_links net table i dev) sc' \<and> visiting i sc'
        \<and> (wired table (dev_class dev) \<longrightarrow> dev_channel dev \<noteq> None)"
proof -
  obtain t tr where lk: "lookup_netdevice_traits (dev_class dev) (sn_traits sc) = (t, tr)" by (metis surj_pair)
  have tw: "wired (sn_traits sc) = wired table" using assms(1) by (simp add: scan_inv_def)
  note w = lookup_wired [OF lk, unfolded tw]
  let ?sc = "sc\<lparr>sn_traits := tr\<rparr>"
  have sc1: "scan_inv table mob ls ?sc" "visiting i ?sc" "m = mobile (sn_scene ?sc) i"
    using assms w(1) by (auto simp: scan_inv_def visiting_def)
  show ?thesis
  proof (cases "wired table (dev_class dev)")
    case False
    then have "scan_device net i m sc dev = Inr ?sc" using lk w(2) by (simp add: scan_device_def Let_def)
    then show ?thesis using False sc1 by (simp add: device_links_def split: option.split)
  next
    case True
    then have nw: "\<not> (is_wireless t = Some True \<or> is_virtual t)" using w(2) by simp
    show ?thesis
    proof (cases "dev_channel dev")
      case None
      then show ?thesis using lk nw True by (simp add: scan_device_def Let_def)
    next
      case (Some c)
      show ?thesis
      proof (cases "2 < length (net_channel net c)")
        case False
        then show ?thesis using scan_others_step [OF sc1, of "net_channel net c"] lk nw True Some
          by (simp add: scan_device_def Let_def device_links_def)
      next
        case long: True
        then show ?thesis using scan_bus_step [OF sc1(1,2), of c m] lk nw True Some
          by (cases sc, cases m) (simp_all add: scan_device_def Let_def device_links_def)
      qed
    qed
  qed
qed

lemma scan_devices_step:
  assumes "scan_inv table mob ls sc" "visiting i sc" "m = mobile (sn_scene sc) i"
  shows "case res_fold (scan_device net i m) sc devs of
      Inl e \<Rightarrow> e = AttributeError \<and> (\<exists>dev \<in> set devs. wired table (dev_class dev) \<and> dev_channel dev = None)
    | Inr sc' \<Rightarrow> scan_inv table mob (ls @ concat (map (device_links net table i) devs)) sc'
        \<and> (\<forall>dev \<in> set devs. wired table (dev_class dev) \<longrightarrow> dev_channel dev \<noteq> None)"
  using assms
proof (induction devs arbitrary: ls sc)
  case (Cons dev devs)
  note st = scan_device_step [OF Cons.prems, where net = net and dev = dev]
  show ?case
  proof (cases "scan_device net i m sc dev")
    case (Inl e)
    then show ?thesis using st by simp
  next
    case (Inr sc')
    with st have s': "scan_inv table mob (ls @ device_links net table i dev) sc'" "visiting i sc'"
        "wired table (dev_class dev) \<longrightarrow> dev_channel dev \<noteq> None" by auto
    have "m = mobile (sn_scene sc') i" using scan_inv_mobile [OF Cons.prems(1) s'(1)] Cons.prems(3) by simp
    from Cons.IH [OF s'(1,2) this] show ?thesis using Inr s'(3) by (auto split: sum.splits)
  qed
qed simp

definition all_attached :: "network \<Rightarrow> (string, device_traits) dict \<Rightarrow> nat list \<Rightarrow> bool" where
  "all_attached net table is \<longleftrightarrow> (\<forall>i \<in> set is. \<forall>dev \<in> set (net_devices net ! i). wired table (dev_class dev) \<longrightarrow> dev_channel dev \<noteq> None)"

lemma scan_node_step:
  assumes "scan_inv table mob ls sc"
  shows "case scan_node net sc i of
      Inl e \<Rightarrow> e = AttributeError \<and> \<not> all_attached net table [i]
    | Inr sc' \<Rightarrow> scan_inv table mob (ls @ expected_links net table [i]) sc' \<and> all_attached net table [i]"
proof -
  define s where "s = get_node i (sn_scene sc)"
  define sc' where "sc' = (case mobility_of s i of
      Some p \<Rightarrow> sc\<lparr>sn_scene := set_node_position i (transform_point_simulation_to_canvas p) (set_color i (color_rgba red) s)\<rparr>
    | None \<Rightarrow> sc\<lparr>sn_scene := s, sn_graph := add_gv_node (node_name i) (sn_graph sc)\<rparr>)"
  have tw: "wired (sn_traits sc) = wired table" using assms by (simp add: scan_inv_def)
  have ev: "evolves (sn_scene sc) s" by (simp add: s_def evolves_get_node)
  have st: "scan_inv table mob ls sc' \<and> visiting i sc' \<and> mobile (sn_scene sc') i = (mobility_of s i \<noteq> None)"
  proof (cases "mobility_of s i")
    case None
    have "set (gv_nodes (add_gv_node (node_name i) (sn_graph sc))) \<subseteq> end_name ` {e. end_exists s e}"
      using scan_names [OF assms ev] end_name_exists(1) [of s i] by (simp add: gv_nodes_add s_def)
    from scan_inv_evolves [OF assms ev _ this tw] None show ?thesis
      by (cases sc) (auto simp: sc'_def gv_nodes_add visiting_def s_def mobile_def)
  next
    case (Some p)
    let ?t = "set_node_position i (transform_point_simulation_to_canvas p) (set_color i (color_rgba red) s)"
    have ev': "evolves (sn_scene sc) ?t"
      by (rule evolves_trans [OF evolves_trans [OF ev evolves_setters(4)] evolves_set_node_position])
    from scan_inv_evolves [OF assms ev' subset_refl scan_names [OF assms ev'] tw]
    have "scan_inv table mob ls sc'" using Some by (cases sc) (simp add: sc'_def)
    moreover have "evolves s ?t" by (rule evolves_trans [OF evolves_setters(4) evolves_set_node_position])
    then have "vs_mobility ?t = vs_mobility s" "dict_has (vs_nodes ?t) i" using evolves_has [of s ?t i] by (auto simp: s_def evolves_def)
    moreover have "mobile ?t i" using mobile_frame [OF \<open>vs_mobility ?t = vs_mobility s\<close>, of i] Some by (simp add: mobile_def)
    ultimately show ?thesis using Some by (simp add: sc'_def visiting_def)
  qed
  have "scan_node net sc i = res_fold (scan_device net i (mobility_of s i \<noteq> None)) sc' (net_devices net ! i)"
    unfolding scan_node_def Let_def s_def [symmetric] sc'_def [symmetric] by (rule refl)
  then show ?thesis
    using scan_devices_step [of table mob ls sc' i "mobility_of s i \<noteq> None" "net_devices net ! i" net] st
    by (auto simp: expected_links_def all_attached_def split: sum.splits)
qed

lemma scan_nodes_step:
  assumes "scan_inv table mob ls sc"
  shows "case res_fold (scan_node net) sc is of
      Inl e \<Rightarrow> e = AttributeError \<and> \<not> all_attached net table is
    | Inr sc' \<Rightarrow> scan_inv table mob (ls @ expected_links net table is) sc' \<and> all_attached net table is"
  using assms
proof (induction "is" arbitrary: ls sc)
  case Nil
  then show ?case by (simp add: expected_links_def all_attached_def)
next
  case (Cons i "is")
  have ex: "expected_links net table (i # is) = expected_links net table [i] @ expected_links net table is"
    and at: "all_attached net table (i # is) = (all_attached net table [i] \<and> all_attached net table is)"
    by (simp_all add: expected_links_def all_attached_def)
  show ?case
  proof (cases "scan_node net sc i")
    case (Inl e)
    then show ?thesis using scan_node_step [OF Cons.prems, of net i] at by simp
  next
    case (Inr sc')
    then have "scan_inv table mob (ls @ expected_links net table [i]) sc'" "all_attached net table [i]"
      using scan_node_step [OF Cons.prems, of net i] by simp_all
    then show ?thesis using Cons.IH [of "ls @ expected_links net table [i]" sc'] Inr ex at by (simp split: sum.splits)
  qed
qed

subsection \<open>Placing and updating\<close>

lemma split_names:
  "py_split (CHR '' '') (node_name i) = [''Node'', nat_str i]" "py_split (CHR '' '') (channel_name i) = [''Channel'', nat_str i]"
proof -
  have "CHR '' '' \<notin> set (nat_str i)" using nat_str_decimal decimal_not_sign by blast
  then show "py_split (CHR '' '') (node_name i) = [''Node'', nat_str i]" "py_split (CHR '' '') (channel_name i) = [''Channel'', nat_str i]"
    using py_split_append [of "CHR '' ''" "''Node''" "nat_str i"] py_split_append [of "CHR '' ''" "''Channel''" "nat_str i"]
    by (simp_all add: node_name_def channel_name_def py_split_clean)
qed

fun set_end_position :: "endpoint \<Rightarrow> point \<Rightarrow> scene \<Rightarrow> scene" where
  "set_end_position (Node_end i) p s = set_node_position i p s"
| "set_end_position (Channel_end c) p s = set_channel_position c p s"

lemma set_end_position_moves: "moves e s (set_end_position e p s)" "evolves s (set_end_position e p s)"
  by (cases e; simp add: set_node_position_moves set_channel_position_moves evolves_set_node_position evolves_set_channel_position)+

lemma place_end:
  assumes "end_exists s e"
  shows "place_gv_node (s, obj) (end_name e, p) = Inr (set_end_position e p s, Some e)"
proof -
  have "\<exists>v. map_of d k = Some v" if "dict_has d k" for d :: "(nat, 'v) dict" and k using that by (auto simp: dict_has_iff)
  then show ?thesis
    using assms by (cases e) (auto simp: place_gv_node_def split_names dict_get_def dict_has_iff)
qed

lemma place_all:
  assumes "good s" "fst ` set nps \<subseteq> end_name ` {e. end_exists s e}"
  shows "\<exists>s' obj'. res_fold place_gv_node (s, obj) nps = Inr (s', obj') \<and> evolves s s'
    \<and> (\<forall>l < length (vs_links s). node_name (ln_node1 (vs_links s ! l)) \<in> fst ` set nps \<longrightarrow> drawn s' l)"
  using assms
proof (induction nps arbitrary: s obj)
  case (Cons np nps)
  obtain e p where np: "np = (end_name e, p)" "end_exists s e" using Cons.prems(2) by (cases np) auto
  let ?t = "set_end_position e p s"
  have ev: "evolves s ?t" by (rule set_end_position_moves)
  note links = evolves_links [OF ev]
  have "good ?t" using ev Cons.prems(1) by (simp add: evolves_def)
  moreover have "fst ` set nps \<subseteq> end_name ` {e. end_exists ?t e}" using Cons.prems(2) evolves_exists [OF ev] by auto
  ultimately obtain s' obj' where s': "res_fold place_gv_node (?t, Some e) nps = Inr (s', obj')" "evolves ?t s'"
      "\<forall>l < length (vs_links s). node_name (ln_node1 (vs_links ?t ! l)) \<in> fst ` set nps \<longrightarrow> drawn s' l"
    using Cons.IH [of ?t "Some e"] links(2) by auto
  have "drawn s' l" if l: "l < length (vs_links s)" "node_name (ln_node1 (vs_links s ! l)) \<in> fst ` set (np # nps)" for l
  proof (cases "node_name (ln_node1 (vs_links s ! l)) = end_name e")
    case True
    then have "e = Node_end (ln_node1 (vs_links s ! l))" by (cases e) (auto simp: node_name_def channel_name_def)
    moreover have "scene_ok s" using Cons.prems(1) by (simp add: good_def)
    ultimately have "drawn ?t l" using moves_ok(2) [OF _ set_end_position_moves(1) l(1), of e p] by blast
    then show ?thesis using s'(2) \<open>good ?t\<close> l(1) links(2) by (simp add: evolves_def)
  next
    case False
    then show ?thesis using s'(3) l links(3) [OF l(1)] np(1) by auto
  qed
  moreover have "res_fold place_gv_node (s, obj) (np # nps) = Inr (s', obj')" using place_end [OF np(2)] np(1) s'(1) by simp
  ultimately show ?case using evolves_trans [OF ev s'(2)] by blast
qed simp

lemma update_node_position_step:
  assumes "good s" "dict_has (vs_nodes s) i"
  shows "evolves s (update_node_position s i)"
    "mobile s i \<Longrightarrow> l < length (vs_links s) \<Longrightarrow> ln_node1 (vs_links s ! l) = i \<Longrightarrow> drawn (update_node_position s i) l"
proof -
  obtain b t where t: "has_mobility i s = (b, t)" by (metis surj_pair)
  have ev: "evolves s t" by (rule evolves_has_mobility [OF t])
  have b: "b = mobile s i" using has_mobility_value [OF assms(1), of i] assms(2) t by (simp add: dict_has_iff)
  have m: "mobility_of t i = mobility_of s i" using ev by (simp add: evolves_def mobility_of_def)
  show "evolves s (update_node_position s i)"
    using ev evolves_trans [OF ev evolves_set_node_position] by (simp add: update_node_position_def t split: option.split)
  assume l: "mobile s i" "l < length (vs_links s)" "ln_node1 (vs_links s ! l) = i"
  then obtain p where p: "mobility_of t i = Some p" using m by (auto simp: mobile_def)
  have "ln_node1 (vs_links t ! l) = i" using evolves_links(3) [OF ev l(2)] l(3) by simp
  moreover have "scene_ok t" using ev assms(1) by (simp add: evolves_def good_def)
  ultimately have "drawn (set_node_position i (transform_point_simulation_to_canvas p) t) l"
    using moves_ok(2) [OF _ set_node_position_moves, of t l] l(2) evolves_links(2) [OF ev] by simp
  then show "drawn (update_node_position s i) l" using t b l(1) p by (simp add: update_node_position_def)
qed

lemma update_positions_step:
  assumes "good s" "\<forall>i \<in> set is. dict_has (vs_nodes s) i"
  shows "evolves s (foldl update_node_position s is) \<and> (\<forall>l < length (vs_links s).
    mobile s (ln_node1 (vs_links s ! l)) \<and> ln_node1 (vs_links s ! l) \<in> set is \<longrightarrow> drawn (foldl update_node_position s is) l)"
  using assms
proof (induction "is" arbitrary: s)
  case (Cons i "is")
  let ?t = "update_node_position s i"
  have h: "dict_has (vs_nodes s) i" using Cons.prems(2) by simp
  have ev: "evolves s ?t" by (rule update_node_position_step(1) [OF Cons.prems(1) h])
  have good: "good ?t" using ev Cons.prems(1) by (simp add: evolves_def)
  note links = evolves_links [OF ev]
  have IH: "evolves ?t (foldl update_node_position ?t is) \<and> (\<forall>l < length (vs_links ?t).
      mobile ?t (ln_node1 (vs_links ?t ! l)) \<and> ln_node1 (vs_links ?t ! l) \<in> set is \<longrightarrow> drawn (foldl update_node_position ?t is) l)"
    using Cons.IH [OF good] Cons.prems(2) evolves_has [OF ev] by simp
  have "drawn (foldl update_node_position ?t is) l"
    if l: "l < length (vs_links s)" "mobile s (ln_node1 (vs_links s ! l))" "ln_node1 (vs_links s ! l) \<in> set (i # is)" for l
  proof (cases "ln_node1 (vs_links s ! l) = i")
    case True
    then have "drawn ?t l" using update_node_position_step(2) [OF Cons.prems(1) h] l by simp
    then show ?thesis using IH good l(1) links(2) by (simp add: evolves_def)
  next
    case False
    moreover have "mobile ?t j = mobile s j" for j using ev by (intro mobile_frame) (simp add: evolves_def)
    ultimately show ?thesis using IH l links(2) links(3) [OF l(1)] by simp
  qed
  then show ?case using IH evolves_trans [OF ev] by auto
qed simp

lemma update_node_positions_evolves: "good s \<Longrightarrow> evolves s (update_node_positions s)"
  using update_positions_step [of s "dict_keys (vs_nodes s)"] by (simp add: update_node_positions_def dict_has_def)

lemma link_drawn_after_update:
  assumes "good s" "evolves s0 s" "l < length (vs_links s0)" "dict_has (vs_nodes s0) (ln_node1 (vs_links s0 ! l))"
    and "mobile s0 (ln_node1 (vs_links s0 ! l)) \<or> drawn s l"
  shows "drawn (update_node_positions s) l"
proof -
  have u: "\<forall>l < length (vs_links s). mobile s (ln_node1 (vs_links s ! l))
      \<and> dict_has (vs_nodes s) (ln_node1 (vs_links s ! l)) \<longrightarrow> drawn (update_node_positions s) l"
    using update_positions_step [OF assms(1), of "dict_keys (vs_nodes s)"] unfolding update_node_positions_def by (simp add: dict_has_def)
  have m: "mobile s j = mobile s0 j" for j using assms(2) by (intro mobile_frame) (simp add: evolves_def)
  show ?thesis
  proof (cases "mobile s0 (ln_node1 (vs_links s0 ! l))")
    case True
    then show ?thesis using u m assms(3) evolves_links [OF assms(2)] evolves_has [OF assms(2,4)] by simp
  next
    case False
    then show ?thesis using assms update_node_positions_evolves [OF assms(1)] evolves_links(2) [OF assms(2)] by (simp add: evolves_def)
  qed
qed

text \<open>
  C11. The topology is scanned completely and drawn correctly. If every wired device is attached to a channel, and Graphviz places the
  nodes of the graph it is given, the scan succeeds and creates exactly the expected links in order: one to the
  channel for a device on a channel of more than two, otherwise one to each other node of the channel; and after the next
  update of the positions each link is drawn between the current positions of its two ends. An unattached wired device
  makes the scan raise \<open>AttributeError\<close>.
\<close>

theorem topology_drawn:
  assumes "\<And>g. fst ` set (layout g) = set (gv_nodes g)"
  shows "if all_attached net table [0 ..< length (net_devices net)]
    then \<exists>s. scan_topology layout net table (new_scene mob) = Inr s
      \<and> map link_ends (vs_links s) = expected_links net table [0 ..< length (net_devices net)]
      \<and> map link_ends (vs_links (update_node_positions s)) = map link_ends (vs_links s)
      \<and> (\<forall>L \<in> set (vs_links (update_node_positions s)). ln_data L = current (update_node_positions s) L)
    else scan_topology layout net table (new_scene mob) = Inl AttributeError"
proof -
  let ?is = "[0 ..< length (net_devices net)]"
  let ?sc = "\<lparr>sn_scene = new_scene mob, sn_graph = \<lparr>gv_nodes = [], gv_edges = []\<rparr>, sn_traits = table\<rparr>"
  have "scan_inv table mob [] ?sc"
    by (simp add: scan_inv_def good_def scene_ok_def cache_ok_def new_scene_def set_show_transmissions_mode_def)
  note scan = scan_nodes_step [OF this, of net ?is]
  show ?thesis
  proof (cases "res_fold (scan_node net) ?sc ?is")
    case (Inl e)
    then show ?thesis using scan by (simp add: scan_topology_def)
  next
    case (Inr sc)
    let ?s = "sn_scene sc"
    have inv: "scan_inv table mob (expected_links net table ?is) sc" "all_attached net table ?is" using scan Inr by simp_all
    have good: "good ?s" and ends: "map link_ends (vs_links ?s) = expected_links net table ?is"
      and names: "fst ` set (layout (sn_graph sc)) \<subseteq> end_name ` {e. end_exists ?s e}"
      using inv(1) assms by (simp_all add: scan_inv_def)
    obtain s obj where s: "res_fold place_gv_node (?s, None) (layout (sn_graph sc)) = Inr (s, obj)" "evolves ?s s"
        "\<forall>l < length (vs_links ?s). node_name (ln_node1 (vs_links ?s ! l)) \<in> fst ` set (layout (sn_graph sc)) \<longrightarrow> drawn s l"
      using place_all [OF good names, of None] by blast
    let ?t = "update_node_positions s"
    have gs: "good s" using s(2) good by (simp add: evolves_def)
    have ev: "evolves s ?t" by (rule update_node_positions_evolves [OF gs])
    have dr: "drawn ?t l" if l: "l < length (vs_links ?s)" for l
    proof -
      have "link_ends (vs_links ?s ! l) \<in> set (expected_links net table ?is)" using ends l by (metis length_map nth_map nth_mem)
      then show ?thesis
        using inv(1) s(3) l assms by (intro link_drawn_after_update [OF gs s(2) l]) (auto simp: scan_inv_def link_ends_def)
    qed
    then have "\<forall>L \<in> set (vs_links ?t). ln_data L = current ?t L"
      using evolves_links(2) [OF ev] evolves_links(2) [OF s(2)] by (auto simp: in_set_conv_nth drawn_def)
    moreover have "scan_topology layout net table (new_scene mob) = Inr s" using Inr s(1) by (simp add: scan_topology_def)
    ultimately show ?thesis using inv(2) ends evolves_links(1) [OF ev] evolves_links(1) [OF s(2)] by auto
  qed
qed

definition demo_net :: network where
  "demo_net = \<lparr>net_devices =
      [[\<lparr>dev_class = ''PointToPointNetDevice'', dev_channel = Some 7\<rparr>, \<lparr>dev_class = ''LoopbackNetDevice'', dev_channel = None\<rparr>],
       [\<lparr>dev_class = ''PointToPointNetDevice'', dev_channel = Some 7\<rparr>]],
     net_channel = (\<lambda>c. if c = 7 then [0, 1] else [])\<rparr>"

theorem topology_drawn_witness:
  "\<exists>s. scan_topology (\<lambda>g. map (\<lambda>a. (a, (1, 2))) (gv_nodes g)) demo_net netdevice_traits (new_scene [Some (4, 5), None]) = Inr s
     \<and> map link_ends (vs_links s) = [(0, Node_end 1), (1, Node_end 0)]"
proof -
  have "all_attached demo_net netdevice_traits [0 ..< length (net_devices demo_net)]" by code_simp
  moreover have "expected_links demo_net netdevice_traits [0 ..< length (net_devices demo_net)] = [(0, Node_end 1), (1, Node_end 0)]"
    by code_simp
  moreover have "fst ` set (map (\<lambda>a. (a, (1, 2))) (gv_nodes g)) = set (gv_nodes g)" for g by (simp add: image_image)
  note topology_drawn [OF this, of demo_net netdevice_traits "[Some (4, 5), None]"]
  ultimately show ?thesis by auto
qed

end
