(* ===== verification/Viz_Samples.thy ===== *)
theory Viz_Samples
  imports Viz_Scene
begin

text \<open>
  The transmissions and drops the visualizer shows (\<open>src/visualizer/visualizer/core.py\<close>): the samples of the last periods
  (\<open>do_simulation_periodic_update\<close>), their averages per pair of nodes or per node, and the pool of arrows that
  \<open>_update_transmissions_view\<close> and \<open>_update_drops_view\<close> reuse from one update to the next. An arrow stands for the pair of arrow and
  label: whether it is visible, its two ends and its rate in kbit/s; how thick it is and how the label is turned is not
  modelled, except that the logarithm of a rate of 0 raises \<open>ValueError\<close>. A broadcast has no receiver.
\<close>

record tx_sample =
  tx_transmitter :: nat
  tx_receiver :: "nat option"
  tx_bytes :: nat

record drop_sample =
  dp_transmitter :: nat
  dp_bytes :: nat

record arrow =
  ar_visible :: bool
  ar_points :: "point \<times> point"
  ar_kbps :: rat

record samples =
  last_transmissions :: "tx_sample list list"
  last_drops :: "drop_sample list list"
  transmission_arrows :: "arrow list"
  drop_arrows :: "arrow list"

text \<open>\<open>while len(xs) > smooth_factor: xs.pop(0)\<close>\<close>

fun trim :: "nat \<Rightarrow> 'a list \<Rightarrow> 'a list" where
  "trim smooth_factor [] = []"
| "trim smooth_factor (x # xs) = (if smooth_factor < length (x # xs) then trim smooth_factor xs else x # xs)"

definition do_simulation_periodic_update :: "nat \<Rightarrow> tx_sample list \<Rightarrow> drop_sample list \<Rightarrow> samples \<Rightarrow> samples" where
  "do_simulation_periodic_update smooth_factor transmissions drops st =
     st\<lparr>last_transmissions := trim smooth_factor (last_transmissions st @ [transmissions]),
        last_drops := trim smooth_factor (last_drops st @ [drops])\<rparr>"

text \<open>Adding one sample to the sums and counts\<close>

definition add_sample :: "('k, nat \<times> nat) dict \<Rightarrow> 'k \<Rightarrow> nat \<Rightarrow> ('k, nat \<times> nat) dict" where
  "add_sample d k bytes =
     (case (case map_of d k of None \<Rightarrow> (0, 0) | Some e \<Rightarrow> e) of (rx, cnt) \<Rightarrow> dict_set k (rx + bytes, cnt + 1) d)"

definition add_transmission :: "(nat \<times> nat, nat \<times> nat) dict \<Rightarrow> tx_sample \<Rightarrow> (nat \<times> nat, nat \<times> nat) dict result" where
  "add_transmission d t =
     (case tx_receiver t of
        None \<Rightarrow> Inl AttributeError
      | Some r \<Rightarrow> Inr (add_sample d (tx_transmitter t, r) (tx_bytes t)))"

definition transmissions_average :: "tx_sample list list \<Rightarrow> (nat \<times> nat, nat \<times> nat) dict result" where
  "transmissions_average sets = res_fold (res_fold add_transmission) [] sets"

definition drops_average :: "drop_sample list list \<Rightarrow> (nat, nat \<times> nat) dict" where
  "drops_average sets = foldl (foldl (\<lambda>d x. add_sample d (dp_transmitter x) (dp_bytes x))) [] sets"

definition hide :: "arrow \<Rightarrow> arrow" where
  "hide a = a\<lparr>ar_visible := False\<rparr>"

definition kbps :: "rat \<Rightarrow> nat \<times> nat \<Rightarrow> rat" where
  "kbps sample_period e = of_nat (fst e * 8) / 1000 / of_nat (snd e) / sample_period"

text \<open>
  \<open>old_arrows.pop()\<close> takes the last arrow of the pool, or a new one is made when the pool is empty. The state is the arrows in
  use and the rest of the pool.
\<close>

definition take_arrow :: "arrow list \<Rightarrow> arrow \<times> arrow list" where
  "take_arrow pool =
     (if pool = [] then (\<lparr>ar_visible = True, ar_points = ((0, 0), (0, 0)), ar_kbps = 0\<rparr>, []) else (last pool, butlast pool))"

definition show_arrow ::
  "rat \<Rightarrow> arrow list \<times> arrow list \<Rightarrow> (point \<times> point) \<times> (nat \<times> nat) \<Rightarrow> (arrow list \<times> arrow list) result" where
  "show_arrow sample_period st e =
     (case (st, e) of ((new, pool), (points, avg)) \<Rightarrow>
        case take_arrow pool of (a, pool) \<Rightarrow>
          if fst avg = 0 then Inl ValueError
          else Inr (new @ [a\<lparr>ar_visible := True, ar_points := points, ar_kbps := kbps sample_period avg\<rparr>], pool))"

definition show_arrows :: "rat \<Rightarrow> ((point \<times> point) \<times> (nat \<times> nat)) list \<Rightarrow> arrow list \<Rightarrow> arrow list result" where
  "show_arrows sample_period es old =
     res_bind (res_fold (show_arrow sample_period) ([], map hide old) es) (\<lambda>(new, pool). Inr (new @ pool))"

text \<open>
  \<open>_update_transmissions_view\<close>: the nodes of the samples are looked up, and created if they are new, while the arrows are set; a node
  created for a later pair does not move the others.
\<close>

definition update_transmissions_view :: "rat \<Rightarrow> scene \<Rightarrow> samples \<Rightarrow> (scene \<times> samples) result" where
  "update_transmissions_view sample_period s st =
     res_bind (transmissions_average (last_transmissions st)) (\<lambda>avg.
       let s' = foldl (\<lambda>s k. get_node (snd k) (get_node (fst k) s)) s (dict_keys avg) in
       res_bind (show_arrows sample_period
                   (map (\<lambda>(k, e). ((end_pos s' (Node_end (fst k)), end_pos s' (Node_end (snd k))), e)) avg)
                   (transmission_arrows st)) (\<lambda>arrows.
       Inr (s', st\<lparr>transmission_arrows := arrows\<rparr>)))"

text \<open>\<open>_update_drops_view\<close>: the arrows go from the node down to the lower edge \<open>edge_y\<close> of the window.\<close>

definition update_drops_view :: "rat \<Rightarrow> rat \<Rightarrow> scene \<Rightarrow> samples \<Rightarrow> (scene \<times> samples) result" where
  "update_drops_view sample_period edge_y s st =
     (let avg = drops_average (last_drops st);
          s' = foldl (\<lambda>s k. get_node k s) s (dict_keys avg) in
      res_bind (show_arrows sample_period
                  (map (\<lambda>(k, e). let p = end_pos s' (Node_end k) in ((p, (fst p, edge_y)), e)) avg)
                  (drop_arrows st)) (\<lambda>arrows.
      Inr (s', st\<lparr>drop_arrows := arrows\<rparr>)))"

subsection \<open>The samples of the last periods\<close>

lemma trim_eq: "trim n xs = drop (length xs - n) xs"
  by (induction n xs rule: trim.induct) (auto simp: Suc_diff_le not_less)

lemma trim_snoc: "trim n (drop (length xs - n) xs @ [x]) = drop (Suc (length xs) - n) (xs @ [x])"
proof (cases "n \<le> length xs")
  case True
  then have "drop 1 (drop (length xs - n) xs @ [x]) = drop (Suc (length xs) - n) (xs @ [x])"
    by (cases "n = 0") (simp_all add: Suc_diff_le)
  then show ?thesis using True by (simp add: trim_eq)
qed (simp add: trim_eq)

text \<open>
  With a smoothing factor that does not change, the visualizer remembers exactly the samples of the last periods: after any
  number of periods it has those of the last \<open>n\<close>, in order.
\<close>

theorem periodic_update_window:
  "last_transmissions (foldl (\<lambda>st (tx, dp). do_simulation_periodic_update n tx dp st) st0 ps) =
     (if ps = [] then last_transmissions st0
      else drop (length (last_transmissions st0) + length ps - n) (last_transmissions st0 @ map fst ps))"
proof (induction ps rule: rev_induct)
  case (snoc p ps)
  let ?st = "foldl (\<lambda>st (tx, dp). do_simulation_periodic_update n tx dp st) st0 ps"
  let ?xs = "last_transmissions st0 @ map fst ps"
  obtain tx dp where p: "p = (tx, dp)" by (cases p)
  have "trim n (last_transmissions ?st @ [tx]) = drop (Suc (length ?xs) - n) (?xs @ [tx])"
    using snoc trim_snoc [of n ?xs tx] by (cases "ps = []") (simp_all add: trim_eq)
  then show ?case by (simp add: p do_simulation_periodic_update_def)
qed simp

subsection \<open>Averages\<close>

definition tally :: "('k \<times> nat) list \<Rightarrow> 'k \<Rightarrow> nat \<times> nat" where
  "tally kbs k = (let xs = filter (\<lambda>e. fst e = k) kbs in (sum_list (map snd xs), length xs))"

definition add_all :: "('k, nat \<times> nat) dict \<Rightarrow> ('k \<times> nat) list \<Rightarrow> ('k, nat \<times> nat) dict" where
  "add_all = foldl (\<lambda>d e. add_sample d (fst e) (snd e))"

lemma add_all_tally:
  "dict_ok (add_all [] kbs) \<and> map_of (add_all [] kbs) k = (if k \<in> fst ` set kbs then Some (tally kbs k) else None)"
proof (induction kbs arbitrary: k rule: rev_induct)
  case (snoc e kbs)
  obtain a b where e: "e = (a, b)" by (cases e)
  have "filter (\<lambda>x. fst x = a) kbs = []" if "a \<notin> fst ` set kbs" using that by (auto simp: filter_empty_conv)
  then have "add_all [] (kbs @ [e]) = dict_set a (tally (kbs @ [e]) a) (add_all [] kbs)"
    using snoc [of a] by (auto simp: add_all_def add_sample_def e tally_def Let_def split: if_splits)
  moreover have "tally (kbs @ [e]) k = tally kbs k" if "k \<noteq> a" for k using that by (simp add: tally_def e)
  ultimately show ?case using snoc [of k] by (auto simp: e)
qed (simp add: add_all_def)

definition tx_key :: "tx_sample \<Rightarrow> (nat \<times> nat) \<times> nat" where
  "tx_key t = ((tx_transmitter t, the (tx_receiver t)), tx_bytes t)"

lemma transmissions_average_eq:
  assumes "\<forall>t \<in> set (concat sets). tx_receiver t \<noteq> None"
  shows "transmissions_average sets = Inr (add_all [] (map tx_key (concat sets)))"
proof -
  have one: "res_fold add_transmission d ts = Inr (add_all d (map tx_key ts))" if "\<forall>t \<in> set ts. tx_receiver t \<noteq> None" for d ts
    using that by (induction ts arbitrary: d) (auto simp: add_transmission_def add_all_def tx_key_def)
  have "res_fold (res_fold add_transmission) d sets = Inr (add_all d (map tx_key (concat sets)))" for d
    using assms by (induction sets arbitrary: d) (auto simp: one add_all_def)
  then show ?thesis by (simp add: transmissions_average_def)
qed

subsection \<open>Arrows\<close>

definition arrow_for :: "rat \<Rightarrow> (point \<times> point) \<times> (nat \<times> nat) \<Rightarrow> arrow" where
  "arrow_for period e = \<lparr>ar_visible = True, ar_points = fst e, ar_kbps = kbps period (snd e)\<rparr>"

lemma show_arrow_fold:
  assumes "\<forall>e \<in> set es. fst (snd e) \<noteq> 0"
  shows "res_fold (show_arrow period) (new, pool) es = Inr (new @ map (arrow_for period) es, take (length pool - length es) pool)"
  using assms
proof (induction es arbitrary: new pool)
  case (Cons e es)
  have "show_arrow period (new, pool) e = Inr (new @ [arrow_for period e], take (length pool - 1) pool)"
    using Cons.prems by (auto simp: show_arrow_def take_arrow_def arrow_for_def butlast_conv_take split: prod.splits)
  then show ?case using Cons by (simp add: min_def)
qed simp

lemma show_arrows_eq:
  assumes "\<forall>e \<in> set es. fst (snd e) \<noteq> 0"
  shows "show_arrows period es old = Inr (map (arrow_for period) es @ map hide (take (length old - length es) old))"
  using show_arrow_fold [OF assms, of period "[]" "map hide old"] by (simp add: show_arrows_def take_map)

lemma visible_arrows:
  "filter ar_visible (map (arrow_for period) es @ map hide xs) = map (arrow_for period) es"
  by (simp add: filter_map comp_def arrow_for_def hide_def)

text \<open>
  C22. The view shows the averages of the remembered samples: if every sample has a receiver and bytes, exactly one arrow is visible for
  each pair of nodes with samples, drawn between the two nodes and labelled with the mean rate of the pair's samples; arrows that
  are not needed are hidden and kept, and new ones are made only when the pool is used up.
\<close>

theorem transmissions_view_exact:
  assumes "\<forall>t \<in> set (concat (last_transmissions st)). tx_receiver t \<noteq> None \<and> 0 < tx_bytes t"
  shows "\<exists>s' st' ks. update_transmissions_view period s st = Inr (s', st')
    \<and> distinct ks \<and> set ks = (\<lambda>t. (tx_transmitter t, the (tx_receiver t))) ` set (concat (last_transmissions st))
    \<and> filter ar_visible (transmission_arrows st') =
        map (\<lambda>k. arrow_for period ((end_pos s' (Node_end (fst k)), end_pos s' (Node_end (snd k))),
                                   tally (map tx_key (concat (last_transmissions st))) k)) ks
    \<and> length (transmission_arrows st') = max (length (transmission_arrows st)) (length ks)"
proof -
  let ?kbs = "map tx_key (concat (last_transmissions st))"
  let ?avg = "add_all [] ?kbs"
  define s' where "s' = foldl (\<lambda>s k. get_node (snd k) (get_node (fst k) s)) s (dict_keys ?avg)"
  define es where "es = map (\<lambda>(k, e). ((end_pos s' (Node_end (fst k)), end_pos s' (Node_end (snd k))), e)) ?avg"
  have ok: "distinct (map fst ?avg)" using add_all_tally [of ?kbs] by (simp add: dict_ok_def dict_keys_def)
  have val: "e = tally ?kbs k \<and> k \<in> fst ` set ?kbs" if "(k, e) \<in> set ?avg" for k e
    using add_all_tally [of ?kbs k] map_of_is_SomeI [OF ok that] by (auto split: if_splits)
  have keys: "set (map fst ?avg) = fst ` set ?kbs"
    using add_all_tally [of ?kbs] by (auto simp: dom_map_of_conv_image_fst [symmetric] dom_def split: if_splits)
  have pos: "fst (tally ?kbs k) \<noteq> 0" if k: "k \<in> fst ` set ?kbs" for k
  proof -
    from k have "k \<in> (\<lambda>t. fst (tx_key t)) ` set (concat (last_transmissions st))" by (simp only: set_map image_image)
    then obtain t where t: "t \<in> set (concat (last_transmissions st))" "k = fst (tx_key t)" by (rule imageE)
    then have "tx_key t \<in> set (filter (\<lambda>e. fst e = k) ?kbs)" by (simp del: set_concat)
    moreover have "0 < snd (tx_key t)" using assms t(1) by (simp add: tx_key_def del: set_concat)
    ultimately show ?thesis
      using member_le_sum_list [of "snd (tx_key t)" "map snd (filter (\<lambda>e. fst e = k) ?kbs)"] unfolding tally_def Let_def by force
  qed
  have es: "\<forall>e \<in> set es. fst (snd e) \<noteq> 0"
  proof
    fix e assume "e \<in> set es"
    then obtain k a where ka: "(k, a) \<in> set ?avg" "snd e = a" unfolding es_def by auto
    then show "fst (snd e) \<noteq> 0" using val [OF ka(1)] pos [of k] by simp
  qed
  have eseq: "es = map (\<lambda>k. ((end_pos s' (Node_end (fst k)), end_pos s' (Node_end (snd k))), tally ?kbs k)) (map fst ?avg)"
    using val by (auto simp: es_def)
  let ?arrows = "map (arrow_for period) es @ map hide (take (length (transmission_arrows st) - length es) (transmission_arrows st))"
  have "update_transmissions_view period s st = Inr (s', st\<lparr>transmission_arrows := ?arrows\<rparr>)"
    using transmissions_average_eq [of "last_transmissions st"] assms show_arrows_eq [OF es]
    by (simp add: update_transmissions_view_def Let_def flip: s'_def es_def)
  moreover have "filter ar_visible ?arrows = map (arrow_for period) es" by (rule visible_arrows)
  moreover have "length ?arrows = max (length (transmission_arrows st)) (length (map fst ?avg))" by (simp add: es_def max_def)
  ultimately show ?thesis
    using ok keys by (intro exI [of _ s'] exI [of _ "st\<lparr>transmission_arrows := ?arrows\<rparr>"] exI [of _ "map fst ?avg"])
      (simp add: eseq image_image tx_key_def comp_def)
qed

theorem transmissions_view_exact_witness:
  "\<exists>s' st'. update_transmissions_view (1 / 10) (new_scene [None, None])
      \<lparr>last_transmissions = [[\<lparr>tx_transmitter = 0, tx_receiver = Some 1, tx_bytes = 100\<rparr>], [\<lparr>tx_transmitter = 0, tx_receiver = Some 1, tx_bytes = 300\<rparr>]],
       last_drops = [], transmission_arrows = [], drop_arrows = []\<rparr> = Inr (s', st')
    \<and> map ar_kbps (filter ar_visible (transmission_arrows st')) = [16]"
proof -
  let ?st = "\<lparr>last_transmissions = [[\<lparr>tx_transmitter = 0, tx_receiver = Some 1, tx_bytes = 100\<rparr>], [\<lparr>tx_transmitter = 0, tx_receiver = Some 1, tx_bytes = 300\<rparr>]],
       last_drops = [], transmission_arrows = [], drop_arrows = []\<rparr>"
  have "\<forall>t \<in> set (concat (last_transmissions ?st)). tx_receiver t \<noteq> None \<and> 0 < tx_bytes t" by simp
  from transmissions_view_exact [OF this, of "1 / 10" "new_scene [None, None]"] obtain s' st' ks where
    r: "update_transmissions_view (1 / 10) (new_scene [None, None]) ?st = Inr (s', st')" "distinct ks" "set ks = {(0, 1)}"
      "filter ar_visible (transmission_arrows st') =
        map (\<lambda>k. arrow_for (1 / 10) ((end_pos s' (Node_end (fst k)), end_pos s' (Node_end (snd k))),
                                   tally (map tx_key (concat (last_transmissions ?st))) k)) ks"
    by auto
  have "ks = [(0, 1)]" using r(2,3) by (cases ks; cases "tl ks") (auto simp: insert_eq_iff)
  then show ?thesis using r(1,4) by (simp add: arrow_for_def kbps_def tally_def tx_key_def)
qed

end
