(* ===== verification/Py_Format.thy ===== *)
theory Py_Format
  imports Py_Path
begin

text \<open>
  Case conversions, \<open>isalnum\<close>, \<open>replace\<close>, \<open>repr\<close> and the formatting of a string with a dictionary
  (\<open>template % dict\<close>), as the scripts use them. The case conversions, \<open>isalnum\<close> and \<open>repr\<close> are those of
  Python for strings of ASCII characters (\<open>ascii\<close>). Of the conversions of \<open>%\<close>, \<open>%(key)s\<close>, \<open>%(key)r\<close> and \<open>%%\<close> are
  defined, with string values; any other is taken as an error.
\<close>

subsection \<open>Characters\<close>

definition ascii :: "string \<Rightarrow> bool" where
  "ascii s \<longleftrightarrow> list_all (\<lambda>c. byte c < 128) s"

definition is_lower :: "char \<Rightarrow> bool" where
  "is_lower c \<longleftrightarrow> 97 \<le> byte c \<and> byte c \<le> 122"

definition is_upper :: "char \<Rightarrow> bool" where
  "is_upper c \<longleftrightarrow> 65 \<le> byte c \<and> byte c \<le> 90"

definition is_alnum :: "char \<Rightarrow> bool" where
  "is_alnum c \<longleftrightarrow> is_lower c \<or> is_upper c \<or> is_decimal c"

definition to_lower :: "char \<Rightarrow> char" where
  "to_lower c = (if is_upper c then char_of (byte c + 32) else c)"

definition to_upper :: "char \<Rightarrow> char" where
  "to_upper c = (if is_lower c then char_of (byte c - 32) else c)"

lemma byte_to_lower: "byte (to_lower c) = (if is_upper c then byte c + 32 else byte c)"
  by (simp add: to_lower_def is_upper_def)

lemma byte_to_upper: "byte (to_upper c) = (if is_lower c then byte c - 32 else byte c)"
  by (auto simp: to_upper_def is_lower_def)

lemma char_eq_iff: "c = d \<longleftrightarrow> byte c = byte d"
  by (metis of_char_eq_iff)

lemma char_class_simps [simp]:
  "\<not> is_upper (to_lower c)" "\<not> is_lower (to_upper c)"
  "is_alnum (to_lower c) = is_alnum c" "is_alnum (to_upper c) = is_alnum c"
  "is_decimal (to_lower c) = is_decimal c" "is_decimal (to_upper c) = is_decimal c"
  by (auto simp: is_upper_def is_lower_def is_alnum_def is_decimal_def byte_to_lower byte_to_upper Let_def split: if_splits)

lemma to_lower_upper: "\<not> is_upper c \<Longrightarrow> to_lower (to_upper c) = c"
  by (auto simp: char_eq_iff byte_to_lower byte_to_upper is_upper_def is_lower_def)

lemma to_lower_eq_iff: "\<not> is_alnum d \<Longrightarrow> to_lower c = d \<longleftrightarrow> c = d"
  by (metis char_class_simps(3) is_alnum_def to_lower_def)

subsection \<open>Methods of strings\<close>

definition py_lower :: "string \<Rightarrow> string" where
  "py_lower s = map to_lower s"

definition py_upper :: "string \<Rightarrow> string" where
  "py_upper s = map to_upper s"

definition py_capitalize :: "string \<Rightarrow> string" where
  "py_capitalize s = (case s of [] \<Rightarrow> [] | c # r \<Rightarrow> to_upper c # map to_lower r)"

definition py_isalnum :: "string \<Rightarrow> bool" where
  "py_isalnum s \<longleftrightarrow> s \<noteq> [] \<and> list_all is_alnum s"

definition py_replace_char :: "char \<Rightarrow> char \<Rightarrow> string \<Rightarrow> string" where
  "py_replace_char a b s = map (\<lambda>c. if c = a then b else c) s"

text \<open>\<open>repr\<close> of a string: single quotes unless only single quotes occur in it.\<close>

definition repr_char :: "char \<Rightarrow> char \<Rightarrow> string" where
  "repr_char q c =
     (let k = byte c; hex = (\<lambda>d. if d < 10 then digit_char d else char_of (87 + d)) in
      if c = q \<or> k = 92 then [CHR 0x5C, c]
      else if k = 9 then [CHR 0x5C, CHR ''t'']
      else if k = 10 then [CHR 0x5C, CHR ''n'']
      else if k = 13 then [CHR 0x5C, CHR ''r'']
      else if k < 32 \<or> 127 \<le> k then [CHR 0x5C, CHR ''x'', hex (k div 16), hex (k mod 16)]
      else [c])"

definition py_repr :: "string \<Rightarrow> string" where
  "py_repr s =
     (let q = (if CHR 0x27 \<in> set s \<and> CHR 0x22 \<notin> set s then CHR 0x22 else CHR 0x27)
      in [q] @ concat (map (repr_char q) s) @ [q])"

lemma py_repr_plain:
  assumes "\<And>c. c \<in> set s \<Longrightarrow> is_alnum c \<or> c = CHR ''-''"
  shows "py_repr s = [CHR 0x27] @ s @ [CHR 0x27]"
proof -
  have plain: "repr_char (CHR 0x27) c = [c] \<and> c \<noteq> CHR 0x27" if "c \<in> set s" for c
  proof -
    have "repr_char (CHR 0x27) c = [c]" using assms [OF that]
      by (auto simp: repr_char_def is_alnum_def is_lower_def is_upper_def is_decimal_def char_eq_iff Let_def)
    moreover have "c \<noteq> CHR 0x27" using assms [OF that]
      by (auto simp: is_alnum_def is_lower_def is_upper_def is_decimal_def char_eq_iff Let_def)
    ultimately show ?thesis ..
  qed
  then have "concat (map (repr_char (CHR 0x27)) s) = s" by (induction s) auto
  moreover have "CHR 0x27 \<notin> set s" using plain by blast
  ultimately show ?thesis by (simp add: py_repr_def Let_def)
qed

subsection \<open>Formatting\<close>

text \<open>What follows \<open>%(\<close>: the key, the conversion character and the rest of the template.\<close>

fun placeholder :: "string \<Rightarrow> (string \<times> char \<times> string) option" where
  "placeholder [] = None"
| "placeholder (x # t) =
     (if x = CHR '')'' then (case t of [] \<Rightarrow> None | k # rest \<Rightarrow> Some ([], k, rest))
      else map_option (\<lambda>(key, k, rest). (x # key, k, rest)) (placeholder t))"

lemma placeholder_shorter: "placeholder t = Some (key, k, rest) \<Longrightarrow> length rest < length t"
  by (induction t arbitrary: key) (fastforce split: if_splits list.splits)+

lemma placeholder_append:
  "placeholder t = Some (key, k, rest) \<Longrightarrow> placeholder (t @ b) = Some (key, k, rest @ b)"
  by (induction t arbitrary: key) (auto split: if_splits list.splits)

function py_format :: "(string, string) dict \<Rightarrow> string \<Rightarrow> string result" where
  "py_format d [] = Inr []"
| "py_format d (c # s) =
     (if c \<noteq> CHR ''%'' then res_bind (py_format d s) (\<lambda>r. Inr (c # r))
      else case s of
        [] \<Rightarrow> Inl ValueError
      | x # t \<Rightarrow>
          if x = CHR ''%'' then res_bind (py_format d t) (\<lambda>r. Inr (x # r))
          else if x \<noteq> CHR ''('' then Inl TypeError
          else case placeholder t of
            None \<Rightarrow> Inl ValueError
          | Some (key, k, rest) \<Rightarrow>
              if k = CHR ''s'' \<or> k = CHR ''r''
              then res_bind (dict_get d key) (\<lambda>v.
                   res_bind (py_format d rest) (\<lambda>r. Inr ((if k = CHR ''s'' then v else py_repr v) @ r)))
              else Inl ValueError)"
  by pat_completeness auto

termination
  by (relation "measure (length \<circ> snd)") (auto dest: placeholder_shorter)

declare py_format.simps(2) [simp del]

text \<open>A template is complete for a list of keys if all its placeholders are closed and use these keys.\<close>

function format_ok :: "string list \<Rightarrow> string \<Rightarrow> bool" where
  "format_ok ks [] \<longleftrightarrow> True"
| "format_ok ks (c # s) \<longleftrightarrow>
     (if c \<noteq> CHR ''%'' then format_ok ks s
      else case s of
        [] \<Rightarrow> False
      | x # t \<Rightarrow>
          if x = CHR ''%'' then format_ok ks t
          else x = CHR ''('' \<and>
            (case placeholder t of
               None \<Rightarrow> False
             | Some (key, k, rest) \<Rightarrow> (k = CHR ''s'' \<or> k = CHR ''r'') \<and> key \<in> set ks \<and> format_ok ks rest))"
  by pat_completeness auto

termination
  by (relation "measure (length \<circ> snd)") (auto dest: placeholder_shorter)

declare format_ok.simps(2) [simp del]

lemma py_format_Cons:
  "c \<noteq> CHR ''%'' \<Longrightarrow> py_format d (c # s) = res_bind (py_format d s) (\<lambda>r. Inr (c # r))"
  "py_format d (CHR ''%'' # CHR ''%'' # t) = res_bind (py_format d t) (\<lambda>r. Inr (CHR ''%'' # r))"
  "placeholder t = Some (key, k, rest) \<Longrightarrow> k = CHR ''s'' \<or> k = CHR ''r'' \<Longrightarrow>
   py_format d (CHR ''%'' # CHR ''('' # t) =
     res_bind (dict_get d key) (\<lambda>v. res_bind (py_format d rest) (\<lambda>r. Inr ((if k = CHR ''s'' then v else py_repr v) @ r)))"
  by (simp_all add: py_format.simps(2))

lemma format_ok_Cons:
  assumes "format_ok ks (c # s)"
  obtains (plain) "c \<noteq> CHR ''%''" "format_ok ks s"
  | (percent) t where "c = CHR ''%''" "s = CHR ''%'' # t" "format_ok ks t"
  | (key) t key k rest where "c = CHR ''%''" "s = CHR ''('' # t" "placeholder t = Some (key, k, rest)"
      "k = CHR ''s'' \<or> k = CHR ''r''" "key \<in> set ks" "format_ok ks rest"
proof (cases "c = CHR ''%''")
  case False
  then show ?thesis using assms plain by (simp add: format_ok.simps(2))
next
  case True
  then obtain x t where s: "s = x # t" using assms by (cases s) (simp_all add: format_ok.simps(2))
  show ?thesis
  proof (cases "x = CHR ''%''")
    case True
    then show ?thesis using assms percent s \<open>c = _\<close> by (simp add: format_ok.simps(2) [of ks "CHR ''%''"])
  next
    case False
    then show ?thesis using assms key s \<open>c = _\<close>
      by (auto simp: format_ok.simps(2) [of ks "CHR ''%''"] split: option.splits prod.splits)
  qed
qed

text \<open>Complete templates can be formatted piece by piece, and formatting does not raise when the keys are present.\<close>

lemma format_append:
  assumes "format_ok ks a"
  shows "py_format d (a @ b) = res_bind (py_format d a) (\<lambda>x. res_bind (py_format d b) (\<lambda>y. Inr (x @ y)))"
  using assms
proof (induction a rule: length_induct)
  case (1 a)
  have bind: "res_bind (res_bind r f) g = res_bind r (\<lambda>x. res_bind (f x) g)"
    for r :: "string result" and f g :: "string \<Rightarrow> string result"
    by (cases r) auto
  show ?case
  proof (cases a)
    case Nil
    then show ?thesis by (cases "py_format d b") auto
  next
    case (Cons c s)
    from 1(2) [unfolded Cons] show ?thesis
    proof (cases rule: format_ok_Cons)
      case plain
      then show ?thesis using 1(1) Cons by (simp add: py_format_Cons bind)
    next
      case (percent t)
      then show ?thesis using 1(1) Cons by (simp add: py_format_Cons bind)
    next
      case (key t key k rest)
      have "length rest < length a" using placeholder_shorter [OF key(3)] key(2) Cons by simp
      then have ih: "py_format d (rest @ b) =
          res_bind (py_format d rest) (\<lambda>x. res_bind (py_format d b) (\<lambda>y. Inr (x @ y)))"
        using 1(1) key(6) by blast
      show ?thesis using Cons key(1,2) py_format_Cons(3) [OF key(3,4), of d]
          py_format_Cons(3) [OF placeholder_append [OF key(3), of b] key(4), of d]
        by (simp add: ih bind)
    qed
  qed
qed

lemma format_total:
  assumes "format_ok ks a" "set ks \<subseteq> set (dict_keys d)"
  shows "\<exists>r. py_format d a = Inr r"
  using assms(1)
proof (induction a rule: length_induct)
  case (1 a)
  show ?case
  proof (cases a)
    case (Cons c s)
    from 1(2) [unfolded Cons] show ?thesis
    proof (cases rule: format_ok_Cons)
      case plain
      then obtain r where "py_format d s = Inr r" using 1(1) Cons by auto
      then show ?thesis using Cons plain by (simp add: py_format_Cons)
    next
      case (percent t)
      then have "length t < length a" using Cons by simp
      then obtain r where "py_format d t = Inr r" using 1(1) percent(3) by blast
      then show ?thesis using Cons percent by (simp add: py_format_Cons)
    next
      case (key t key k rest)
      then obtain v where "dict_get d key = Inr v"
        using assms(2) by (auto simp: dict_get_def set_dict_keys split: option.splits)
      moreover have "length rest < length a" using placeholder_shorter [OF key(3)] key(2) Cons by simp
      then obtain r where "py_format d rest = Inr r" using 1(1) key(6) by blast
      ultimately show ?thesis using Cons key(1,2) py_format_Cons(3) [OF key(3,4), of d] by simp
    qed
  qed simp
qed

definition formatted :: "(string, string) dict \<Rightarrow> string \<Rightarrow> string" where
  "formatted d t = (case py_format d t of Inl e \<Rightarrow> [] | Inr r \<Rightarrow> r)"

lemma py_format_formatted:
  assumes "format_ok ks a" "set ks \<subseteq> set (dict_keys d)"
  shows "py_format d a = Inr (formatted d a)"
  using format_total [OF assms] by (auto simp: formatted_def)

lemma formatted_append:
  assumes "format_ok ks a" "format_ok ks b" "set ks \<subseteq> set (dict_keys d)"
  shows "formatted d (a @ b) = formatted d a @ formatted d b"
  using format_append [OF assms(1), of d b] format_total [OF assms(1,3)] format_total [OF assms(2,3)]
  by (auto simp: formatted_def)

end
