(* ===== verification/Create_Module.thy ===== *)
theory Create_Module
  imports Py_Format
begin

text \<open>
  \<open>src/src/create-module.py\<close>: the script that makes the directories and files of a new ns-3 module. The templates are
  the source's, line by line. The file system is a dictionary from the components of an absolute path to a directory
  or a file with its text; the root always exists. The model starts after the option parser, with the
  positional arguments; the argument is a string of ASCII characters where a theorem says so.
\<close>

section \<open>The templates\<close>

definition unlines :: "string list \<Rightarrow> string" where
  "unlines ls = concat (map (\<lambda>l. l @ [CHR 0x0A]) ls)"

definition WSCRIPT_TEMPLATE :: string where
  "WSCRIPT_TEMPLATE = unlines
     [''# -*- Mode: python; py-indent-offset: 4; indent-tabs-mode: nil; coding: utf-8; -*-'',
      [],
      ''# def options(opt):'',
      ''#     pass'',
      [],
      ''# def configure(conf):'',
      ''#     conf.check_nonfatal(header_name='stdint.h', define_name='HAVE_STDINT_H')'',
      [],
      ''def build(bld):'',
      ''    module = bld.create_ns3_module(%(MODULE)r, ['core'])'',
      ''    module.source = ['',
      ''        'model/%(MODULE)s.cc','',
      ''        'helper/%(MODULE)s-helper.cc','',
      ''        ]'',
      [],
      ''    module_test = bld.create_ns3_module_test_library('%(MODULE)s')'',
      ''    module_test.source = ['',
      ''        'test/%(MODULE)s-test-suite.cc','',
      ''        ]'',
      [],
      ''    headers = bld(features='ns3header')'',
      ''    headers.module = %(MODULE)r'',
      ''    headers.source = ['',
      ''        'model/%(MODULE)s.h','',
      ''        'helper/%(MODULE)s-helper.h','',
      ''        ]'',
      [],
      ''    if bld.env.ENABLE_EXAMPLES:'',
      ''        bld.recurse('examples')'',
      [],
      ''    # bld.ns3_python_bindings()'',
      []]"

definition MODEL_CC_TEMPLATE :: string where
  "MODEL_CC_TEMPLATE = unlines
     [''/* -*- Mode:C++; c-file-style:\"gnu\"; indent-tabs-mode:nil; -*- */'',
      [],
      ''#include \"%(MODULE)s.h\"'',
      [],
      ''namespace ns3 {'',
      [],
      ''/* ... */'',
      [],
      [],
      ''}'',
      []]"

definition MODEL_H_TEMPLATE :: string where
  "MODEL_H_TEMPLATE = unlines
     [''/* -*- Mode:C++; c-file-style:\"gnu\"; indent-tabs-mode:nil; -*- */'',
      ''#ifndef %(INCLUDE_GUARD)s'',
      ''#define %(INCLUDE_GUARD)s'',
      [],
      ''namespace ns3 {'',
      [],
      ''/* ... */'',
      [],
      ''}'',
      [],
      ''#endif /* %(INCLUDE_GUARD)s */'',
      []]"

definition HELPER_CC_TEMPLATE :: string where
  "HELPER_CC_TEMPLATE = unlines
     [''/* -*- Mode:C++; c-file-style:\"gnu\"; indent-tabs-mode:nil; -*- */'',
      [],
      ''#include \"%(MODULE)s-helper.h\"'',
      [],
      ''namespace ns3 {'',
      [],
      ''/* ... */'',
      [],
      [],
      ''}'',
      []]"

definition HELPER_H_TEMPLATE :: string where
  "HELPER_H_TEMPLATE = unlines
     [''/* -*- Mode:C++; c-file-style:\"gnu\"; indent-tabs-mode:nil; -*- */'',
      ''#ifndef %(INCLUDE_GUARD)s'',
      ''#define %(INCLUDE_GUARD)s'',
      [],
      ''#include \"ns3/%(MODULE)s.h\"'',
      [],
      ''namespace ns3 {'',
      [],
      ''/* ... */'',
      [],
      ''}'',
      [],
      ''#endif /* %(INCLUDE_GUARD)s */'',
      []]"

definition EXAMPLES_WSCRIPT_TEMPLATE :: string where
  "EXAMPLES_WSCRIPT_TEMPLATE = unlines
     [''# -*- Mode: python; py-indent-offset: 4; indent-tabs-mode: nil; coding: utf-8; -*-'',
      [],
      ''def build(bld):'',
      ''    obj = bld.create_ns3_program('%(MODULE)s-example', [%(MODULE)r])'',
      ''    obj.source = '%(MODULE)s-example.cc'' @ [CHR 0x27],
      []]"

definition EXAMPLE_CC_TEMPLATE :: string where
  "EXAMPLE_CC_TEMPLATE = unlines
     [''/* -*- Mode:C++; c-file-style:\"gnu\"; indent-tabs-mode:nil; -*- */'',
      [],
      ''#include \"ns3/core-module.h\"'',
      ''#include \"ns3/%(MODULE)s-helper.h\"'',
      [],
      ''using namespace ns3;'',
      [],
      [],
      ''int '',
      ''main (int argc, char *argv[])'',
      ''{'',
      ''  bool verbose = true;'',
      [],
      ''  CommandLine cmd;'',
      ''  cmd.AddValue (\"verbose\", \"Tell application to log if true\", verbose);'',
      [],
      ''  cmd.Parse (argc,argv);'',
      [],
      ''  /* ... */'',
      [],
      ''  Simulator::Run ();'',
      ''  Simulator::Destroy ();'',
      ''  return 0;'',
      ''}'',
      [],
      []]"

definition TEST_CC_TEMPLATE :: string where
  "TEST_CC_TEMPLATE = unlines
     [''/* -*- Mode:C++; c-file-style:\"gnu\"; indent-tabs-mode:nil; -*- */'',
      [],
      ''// Include a header file from your module to test.'',
      ''#include \"ns3/%(MODULE)s.h\"'',
      [],
      ''// An essential include is test.h'',
      ''#include \"ns3/test.h\"'',
      [],
      ''// Do not put your test classes in namespace ns3.  You may find it useful'',
      ''// to use the using directive to access the ns3 namespace directly'',
      ''using namespace ns3;'',
      [],
      ''// This is an example TestCase.'',
      ''class %(CAPITALIZED)sTestCase1 : public TestCase'',
      ''{'',
      ''public:'',
      ''  %(CAPITALIZED)sTestCase1 ();'',
      ''  virtual ~%(CAPITALIZED)sTestCase1 ();'',
      [],
      ''private:'',
      ''  virtual void DoRun (void);'',
      ''};'',
      [],
      ''// Add some help text to this case to describe what it is intended to test'',
      ''%(CAPITALIZED)sTestCase1::%(CAPITALIZED)sTestCase1 ()'',
      ''  : TestCase (\"%(CAPITALIZED)s test case (does nothing)\")'',
      ''{'',
      ''}'',
      [],
      ''// This destructor does nothing but we include it as a reminder that'',
      ''// the test case should clean up after itself'',
      ''%(CAPITALIZED)sTestCase1::~%(CAPITALIZED)sTestCase1 ()'',
      ''{'',
      ''}'',
      [],
      ''//'',
      ''// This method is the pure virtual method from class TestCase that every'',
      ''// TestCase must implement'',
      ''//'',
      ''void'',
      ''%(CAPITALIZED)sTestCase1::DoRun (void)'',
      ''{'',
      ''  // A wide variety of test macros are available in src/core/test.h'',
      ''  NS_TEST_ASSERT_MSG_EQ (true, true, \"true doesn't equal true for some reason\");'',
      ''  // Use this one for floating point comparisons'',
      ''  NS_TEST_ASSERT_MSG_EQ_TOL (0.01, 0.01, 0.001, \"Numbers are not equal within tolerance\");'',
      ''}'',
      [],
      ''// The TestSuite class names the TestSuite, identifies what type of TestSuite,'',
      ''// and enables the TestCases to be run.  Typically, only the constructor for'',
      ''// this class must be defined'',
      ''//'',
      ''class %(CAPITALIZED)sTestSuite : public TestSuite'',
      ''{'',
      ''public:'',
      ''  %(CAPITALIZED)sTestSuite ();'',
      ''};'',
      [],
      ''%(CAPITALIZED)sTestSuite::%(CAPITALIZED)sTestSuite ()'',
      ''  : TestSuite (\"%(MODULE)s\", UNIT)'',
      ''{'',
      ''  // TestDuration for TestCase can be QUICK, EXTENSIVE or TAKES_FOREVER'',
      ''  AddTestCase (new %(CAPITALIZED)sTestCase1, TestCase::QUICK);'',
      ''}'',
      [],
      ''// Do not forget to allocate an instance of this TestSuite'',
      ''static %(CAPITALIZED)sTestSuite %(COMPOUND)sTestSuite;'',
      []]"

definition DOC_RST_TEMPLATE :: string where
  "DOC_RST_TEMPLATE = unlines
     [''Example Module Documentation'',
      ''----------------------------'',
      [],
      ''.. include:: replace.txt'',
      ''.. highlight:: cpp'',
      [],
      ''.. heading hierarchy:'',
      ''   ------------- Chapter'',
      ''   ************* Section (#.#)'',
      ''   ============= Subsection (#.#.#)'',
      ''   ############# Paragraph (no number)'',
      [],
      ''This is a suggested outline for adding new module documentation to |ns3|.'',
      ''See ``src/click/doc/click.rst`` for an example.'',
      [],
      ''The introductory paragraph is for describing what this code is trying to'',
      ''model.'',
      [],
      ''For consistency (italicized formatting), please use |ns3| to refer to'',
      ''ns-3 in the documentation (and likewise, |ns2| for ns-2).  These macros'',
      ''are defined in the file ``replace.txt``.'',
      [],
      ''Model Description'',
      ''*****************'',
      [],
      ''The source code for the new module lives in the directory ``src/%(MODULE)s``.'',
      [],
      ''Add here a basic description of what is being modeled.'',
      [],
      ''Design'',
      ''======'',
      [],
      ''Briefly describe the software design of the model and how it fits into '',
      ''the existing ns-3 architecture. '',
      [],
      ''Scope and Limitations'',
      ''====================='',
      [],
      ''What can the model do?  What can it not do?  Please use this section to'',
      ''describe the scope and limitations of the model.'',
      [],
      ''References'',
      ''=========='',
      [],
      ''Add academic citations here, such as if you published a paper on this'',
      ''model, or if readers should read a particular specification or other work.'',
      [],
      ''Usage'',
      ''*****'',
      [],
      ''This section is principally concerned with the usage of your model, using'',
      ''the public API.  Focus first on most common usage patterns, then go'',
      ''into more advanced topics.'',
      [],
      ''Building New Module'',
      ''==================='',
      [],
      ''Include this subsection only if there are special build instructions or'',
      ''platform limitations.'',
      [],
      ''Helpers'',
      ''======='',
      [],
      ''What helper API will users typically use?  Describe it here.'',
      [],
      ''Attributes'',
      ''=========='',
      [],
      ''What classes hold attributes, and what are the key ones worth mentioning?'',
      [],
      ''Output'',
      ''======'',
      [],
      ''What kind of data does the model generate?  What are the key trace'',
      ''sources?   What kind of logging output can be enabled?'',
      [],
      ''Advanced Usage'',
      ''=============='',
      [],
      ''Go into further details (such as using the API outside of the helpers)'',
      ''in additional sections, as needed.'',
      [],
      ''Examples'',
      ''========'',
      [],
      ''What examples using this new code are available?  Describe them here.'',
      [],
      ''Troubleshooting'',
      ''==============='',
      [],
      ''Add any tips for avoiding pitfalls, etc.'',
      [],
      ''Validation'',
      ''**********'',
      [],
      ''Describe how the model has been tested/validated.  What tests run in the'',
      ''test suite?  How much API and code is covered by the tests?  Again, '',
      ''references to outside published work may help here.'']"


section \<open>Directories and files\<close>

datatype fnode = Dir | File string

type_synonym fs = "(string list, fnode) dict"

text \<open>The components of a path, relative paths being taken from the current directory.\<close>

definition resolve :: "string \<Rightarrow> string \<Rightarrow> string list" where
  "resolve cwd p =
     norm_comps True [] (py_split (CHR ''/'') (if py_startswith p ''/'' then p else cwd @ ''/'' @ p))"

definition fs_node :: "fs \<Rightarrow> string list \<Rightarrow> fnode option" where
  "fs_node fs q = (if q = [] then Some Dir else map_of fs q)"

definition path_exists :: "string \<Rightarrow> string \<Rightarrow> fs \<Rightarrow> bool" where
  "path_exists cwd p fs \<longleftrightarrow> fs_node fs (resolve cwd p) \<noteq> None"

definition mkdir :: "string \<Rightarrow> string \<Rightarrow> fs \<Rightarrow> fs result" where
  "mkdir cwd p fs =
     (let q = resolve cwd p in
      if fs_node fs q \<noteq> None \<or> fs_node fs (butlast q) \<noteq> Some Dir then Inl OSError
      else Inr (dict_set q Dir fs))"

text \<open>\<open>open(p, "wt")\<close> followed by a write of \<open>text\<close>\<close>

definition write_file :: "string \<Rightarrow> string \<Rightarrow> string \<Rightarrow> fs \<Rightarrow> fs result" where
  "write_file cwd p contents fs =
     (let q = resolve cwd p in
      if fs_node fs q = Some Dir \<or> fs_node fs (butlast q) \<noteq> Some Dir then Inl OSError
      else Inr (dict_set q (File contents) fs))"

definition dirname :: "string \<Rightarrow> string" where
  "dirname p =
     (let head = rev (dropWhile (\<lambda>c. c \<noteq> CHR ''/'') (rev p)) in
      if list_all (\<lambda>c. c = CHR ''/'') head then head else rev (dropWhile (\<lambda>c. c = CHR ''/'') (rev head)))"

section \<open>The script\<close>

text \<open>The statements that touch the file system, with paths below the directory of the module.\<close>

datatype statement = Mkdir "string list" | Write "string list" string "(string, string) dict"

definition run_statement :: "string \<Rightarrow> string \<Rightarrow> fs \<Rightarrow> statement \<Rightarrow> fs result" where
  "run_statement cwd moduledir fs st =
     (case st of
        Mkdir ps \<Rightarrow> mkdir cwd (path_join moduledir ps) fs
      | Write ps template d \<Rightarrow>
          res_bind (write_file cwd (path_join moduledir ps) [] fs) (\<lambda>fs.
          res_bind (py_format d template) (\<lambda>contents.
          write_file cwd (path_join moduledir ps) contents fs)))"

definition include_guard :: "string \<Rightarrow> string \<Rightarrow> string" where
  "include_guard modname suffix = py_upper (py_replace_char (CHR ''-'') (CHR ''_'') modname) @ suffix"

definition capitalized :: "string \<Rightarrow> string" where
  "capitalized modname = concat (map py_capitalize (py_split (CHR ''-'') modname))"

definition compound :: "string \<Rightarrow> string" where
  "compound modname =
     (case py_split (CHR ''-'') modname of [] \<Rightarrow> [] | w # ws \<Rightarrow> w @ concat (map py_capitalize ws))"

definition module_statements :: "string \<Rightarrow> statement list" where
  "module_statements modname =
     (let m = [(''MODULE'', modname)] in
     [Mkdir [],
      Write [''wscript''] WSCRIPT_TEMPLATE m,
      Mkdir [''model''],
      Write [''model'', modname @ ''.cc''] MODEL_CC_TEMPLATE m,
      Write [''model'', modname @ ''.h''] MODEL_H_TEMPLATE (m @ [(''INCLUDE_GUARD'', include_guard modname ''_H'')]),
      Mkdir [''test''],
      Write [''test'', modname @ ''-test-suite.cc''] TEST_CC_TEMPLATE
        (m @ [(''CAPITALIZED'', capitalized modname), (''COMPOUND'', compound modname)]),
      Mkdir [''helper''],
      Write [''helper'', modname @ ''-helper.cc''] HELPER_CC_TEMPLATE m,
      Write [''helper'', modname @ ''-helper.h''] HELPER_H_TEMPLATE (m @ [(''INCLUDE_GUARD'', include_guard modname ''_HELPER_H'')]),
      Mkdir [''examples''],
      Write [''examples'', ''wscript''] EXAMPLES_WSCRIPT_TEMPLATE m,
      Write [''examples'', modname @ ''-example.cc''] EXAMPLE_CC_TEMPLATE m,
      Mkdir [''doc''],
      Write [''doc'', modname @ ''.rst''] DOC_RST_TEMPLATE m])"

datatype message = Help | Stdout string | Stderr string

definition valid_name :: "string \<Rightarrow> bool" where
  "valid_name modname \<longleftrightarrow> list_all py_isalnum (py_split (CHR ''-'') modname)"

definition create_module :: "string \<Rightarrow> string \<Rightarrow> string list \<Rightarrow> fs \<Rightarrow> (int \<times> message list \<times> fs) result" where
  "create_module cwd file args fs =
     (case args of
        [a] \<Rightarrow>
          let modname = py_lower a in
          if \<not> valid_name modname
          then Inr (2, [Stderr ''Module name should only contain alphanumeric characters and dashes''], fs)
          else if CHR ''/'' \<in> set modname then Inl AssertionError
          else
            let moduledir = path_join2 (dirname file) modname in
            if path_exists cwd moduledir fs
            then Inr (2, [Stderr (''Module '' @ py_repr modname @ '' already exists'')], fs)
            else res_bind (res_fold (run_statement cwd moduledir) fs (module_statements modname)) (\<lambda>fs'.
                 Inr (0, [Stdout (''Creating module '' @ py_repr modname @ '', run './waf configure' to include it in the build'')], fs'))
      | _ \<Rightarrow> Inr (1, [Help], fs))"

section \<open>Paths\<close>

lemma py_split_append_sep: "py_split c (a @ c # b) = py_split c a @ py_split c b"
proof (induction a)
  case (Cons x a)
  obtain w ws where "py_split c a = w # ws" by (cases "py_split c a") auto
  then show ?case using Cons by simp
qed simp

lemma norm_comps_append: "norm_comps r new (xs @ ys) = norm_comps r (norm_comps r new xs) ys"
  by (induction r new xs rule: norm_comps.induct) auto

lemma norm_comps_name: "plain_comp m \<Longrightarrow> norm_comps r new [m] = new @ [m]"
  by (simp add: plain_comp_def)

lemma norm_below:
  assumes "plain_comp m"
  shows "norm_comps True [] (py_split (CHR ''/'') (s @ CHR ''/'' # m)) = norm_comps True [] (py_split (CHR ''/'') s) @ [m]"
proof -
  have "py_split (CHR ''/'') m = [m]" using assms by (simp add: plain_comp_def py_split_clean)
  then show ?thesis using norm_comps_name [OF assms] by (simp only: py_split_append_sep norm_comps_append)
qed

lemma norm_trailing:
  "norm_comps True [] (py_split (CHR ''/'') (s @ ''/'')) = norm_comps True [] (py_split (CHR ''/'') s)"
  by (simp add: py_split_append_sep norm_comps_append)

lemma resolve_join:
  assumes "plain_comp m"
  shows "resolve cwd (path_join2 d m) = resolve cwd d @ [m]"
proof (cases "d = []")
  case True
  moreover have "\<not> py_startswith m ''/''" using assms by (auto simp: plain_comp_def py_startswith_iff)
  ultimately show ?thesis using norm_below [OF assms, of cwd] norm_trailing [of cwd]
    by (simp add: resolve_def path_join2_def) (simp add: py_startswith_def)
next
  case False
  define t where "t = (if py_startswith d ''/'' then d else cwd @ ''/'' @ d)"
  have d: "resolve cwd d = norm_comps True [] (py_split (CHR ''/'') t)" by (simp add: resolve_def t_def)
  have m: "\<not> py_startswith m ''/''" using assms by (auto simp: plain_comp_def py_startswith_iff)
  have start: "py_startswith (d @ r) ''/'' = py_startswith d ''/''" for r
    using False by (cases d) (auto simp: py_startswith_def)
  show ?thesis
  proof (cases "py_endswith d ''/''")
    case True
    then obtain e where "d = e @ ''/''" by (auto simp: py_endswith_iff)
    then have "t = (if py_startswith d ''/'' then e else cwd @ ''/'' @ e) @ ''/''" by (simp add: t_def)
    then obtain g where g: "t = g @ ''/''" ..
    have "resolve cwd (path_join2 d m) = norm_comps True [] (py_split (CHR ''/'') (t @ m))"
      using True m start [of m] by (simp add: path_join2_def resolve_def t_def)
    then show ?thesis using norm_below [OF assms, of g] norm_trailing [of g] d g by simp
  next
    case no: False
    have "resolve cwd (path_join2 d m) = norm_comps True [] (py_split (CHR ''/'') (t @ CHR ''/'' # m))"
      using False no m start [of "CHR ''/'' # m"] by (simp add: path_join2_def resolve_def t_def)
    then show ?thesis using norm_below [OF assms, of t] d by simp
  qed
qed

lemma resolve_path_join:
  "list_all plain_comp ps \<Longrightarrow> resolve cwd (path_join d ps) = resolve cwd d @ ps"
  by (induction ps arbitrary: d) (auto simp: resolve_join)

section \<open>The file system stays well formed\<close>

definition fs_ok :: "fs \<Rightarrow> bool" where
  "fs_ok fs \<longleftrightarrow> list_all (\<lambda>q. q \<noteq> [] \<and> fs_node fs (butlast q) = Some Dir) (dict_keys fs)"

lemma fs_ok_iff:
  "fs_ok fs \<longleftrightarrow> map_of fs [] = None \<and> (\<forall>q. map_of fs q \<noteq> None \<longrightarrow> fs_node fs (butlast q) = Some Dir)"
proof -
  have "fs_ok fs \<longleftrightarrow> (\<forall>q. map_of fs q \<noteq> None \<longrightarrow> q \<noteq> [] \<and> fs_node fs (butlast q) = Some Dir)"
    unfolding fs_ok_def list_all_iff set_dict_keys dom_def by simp
  then show ?thesis by metis
qed

lemma fs_node_set: "q \<noteq> [] \<Longrightarrow> fs_node (dict_set q n fs) r = (if r = q then Some n else fs_node fs r)"
  by (simp add: fs_node_def)

lemma fs_ok_set:
  assumes ok: "fs_ok fs" and q: "q \<noteq> []" "fs_node fs (butlast q) = Some Dir" and n: "n = Dir \<or> fs_node fs q \<noteq> Some Dir"
  shows "fs_ok (dict_set q n fs)"
proof -
  have "fs_node (dict_set q n fs) (butlast r) = Some Dir" if "map_of (dict_set q n fs) r \<noteq> None" for r
  proof -
    have "fs_node fs (butlast r) = Some Dir" using that ok q(2) by (cases "r = q") (auto simp: fs_ok_iff)
    then show ?thesis using n q(1) by (auto simp: fs_node_set)
  qed
  then show ?thesis using ok q(1) by (auto simp: fs_ok_iff)
qed

lemma mkdir_ok: "fs_ok fs \<Longrightarrow> mkdir cwd p fs = Inr fs' \<Longrightarrow> fs_ok fs'"
  unfolding mkdir_def Let_def by (auto intro!: fs_ok_set simp: fs_node_def split: if_splits)

lemma write_file_ok: "fs_ok fs \<Longrightarrow> write_file cwd p c fs = Inr fs' \<Longrightarrow> fs_ok fs'"
  unfolding write_file_def Let_def by (auto intro!: fs_ok_set simp: fs_node_def split: if_splits)

lemma run_statement_ok: "fs_ok fs \<Longrightarrow> run_statement cwd d fs st = Inr fs' \<Longrightarrow> fs_ok fs'"
  by (auto simp: run_statement_def res_bind_Inr_iff intro: mkdir_ok write_file_ok split: statement.splits)

lemma fs_ok_below:
  assumes "fs_ok fs" "fs_node fs q = None"
  shows "fs_node fs (q @ r) = None"
  using assms(2)
proof (induction r rule: rev_induct)
  case (snoc x r)
  then have none: "fs_node fs (q @ r) = None" by simp
  have "map_of fs (q @ r @ [x]) = None"
  proof (rule ccontr)
    assume "map_of fs (q @ r @ [x]) \<noteq> None"
    then have "fs_node fs (butlast (q @ r @ [x])) = Some Dir" using assms(1) by (simp add: fs_ok_iff)
    then show False using none by (simp add: butlast_append)
  qed
  then show ?case by (simp add: fs_node_def)
qed simp

section \<open>A new module\<close>

lemma set_py_join: "set (py_join sep ws) \<subseteq> set sep \<union> (\<Union>w \<in> set ws. set w)"
  by (induction sep ws rule: py_join.induct) auto

lemma valid_name_chars:
  assumes "valid_name m" "c \<in> set m"
  shows "is_alnum c \<or> c = CHR ''-''"
  using assms set_py_join [of "''-''" "py_split (CHR ''-'') m"]
  by (auto simp: py_join_split valid_name_def py_isalnum_def list_all_iff)

lemma not_alnum [simp]: "\<not> is_alnum (CHR ''/'')" "\<not> is_alnum (CHR ''.'')" "\<not> is_alnum (CHR ''-'')" "\<not> is_alnum (CHR ''_'')"
  by (auto simp: is_alnum_def is_lower_def is_upper_def is_decimal_def Let_def)

lemma valid_name_plain:
  assumes "valid_name m"
  shows "plain_comp m" and "CHR ''/'' \<notin> set m"
proof -
  show "CHR ''/'' \<notin> set m" using valid_name_chars [OF assms, of "CHR ''/''"] by auto
  moreover have "CHR ''.'' \<notin> set m" using valid_name_chars [OF assms, of "CHR ''.''"] by auto
  moreover have "m \<noteq> []" using assms by (auto simp: valid_name_def py_isalnum_def)
  ultimately show "plain_comp m" by (auto simp: plain_comp_def)
qed

definition module_tree :: "string \<Rightarrow> (string list \<times> fnode) list" where
  "module_tree m =
     (let d = [(''MODULE'', m)] in
     [([], Dir), ([''wscript''], File (formatted d WSCRIPT_TEMPLATE)),
      ([''model''], Dir),
      ([''model'', m @ ''.cc''], File (formatted d MODEL_CC_TEMPLATE)),
      ([''model'', m @ ''.h''], File (formatted (d @ [(''INCLUDE_GUARD'', include_guard m ''_H'')]) MODEL_H_TEMPLATE)),
      ([''test''], Dir),
      ([''test'', m @ ''-test-suite.cc''], File (formatted (d @ [(''CAPITALIZED'', capitalized m), (''COMPOUND'', compound m)]) TEST_CC_TEMPLATE)),
      ([''helper''], Dir),
      ([''helper'', m @ ''-helper.cc''], File (formatted d HELPER_CC_TEMPLATE)),
      ([''helper'', m @ ''-helper.h''], File (formatted (d @ [(''INCLUDE_GUARD'', include_guard m ''_HELPER_H'')]) HELPER_H_TEMPLATE)),
      ([''examples''], Dir),
      ([''examples'', ''wscript''], File (formatted d EXAMPLES_WSCRIPT_TEMPLATE)),
      ([''examples'', m @ ''-example.cc''], File (formatted d EXAMPLE_CC_TEMPLATE)),
      ([''doc''], Dir),
      ([''doc'', m @ ''.rst''], File (formatted d DOC_RST_TEMPLATE))])"

lemma format_ok_append: "format_ok ks a \<Longrightarrow> format_ok ks (a @ b) = format_ok ks b"
proof (induction a rule: length_induct)
  case (1 a)
  show ?case
  proof (cases a)
    case (Cons c s)
    from 1(2) [unfolded Cons] show ?thesis
    proof (cases rule: format_ok_Cons)
      case plain
      then show ?thesis using 1(1) Cons by (simp add: format_ok.simps(2))
    next
      case (percent t)
      then have "length t < length a" using Cons by simp
      then show ?thesis using 1(1) Cons percent by (simp add: format_ok.simps(2) [of ks "CHR ''%''"])
    next
      case (key t key k rest)
      have "length rest < length a" using placeholder_shorter [OF key(3)] key(2) Cons by simp
      then have "format_ok ks (rest @ b) = format_ok ks b" using 1(1) key(6) by blast
      then show ?thesis using Cons key placeholder_append [OF key(3), of b] by (simp add: format_ok.simps(2) [of ks "CHR ''%''"])
    qed
  qed simp
qed

lemma format_ok_plain: "CHR ''%'' \<notin> set a \<Longrightarrow> format_ok ks a"
  by (induction a) (auto simp: format_ok.simps(2))

lemma format_ok_unlines: "list_all (format_ok ks) ls \<Longrightarrow> format_ok ks (unlines ls)"
proof (induction ls)
  case (Cons l ls)
  have "format_ok ks ([CHR 0x0A] @ unlines ls)" using Cons format_ok_append [OF format_ok_plain, of "[CHR 0x0A]"] by simp
  then show ?case using Cons.prems format_ok_append [of ks l] by (simp add: unlines_def)
qed (simp add: unlines_def)

lemma templates_ok:
  "format_ok [''MODULE''] WSCRIPT_TEMPLATE"
  "format_ok [''MODULE''] MODEL_CC_TEMPLATE"
  "format_ok [''MODULE'', ''INCLUDE_GUARD''] MODEL_H_TEMPLATE"
  "format_ok [''MODULE'', ''CAPITALIZED'', ''COMPOUND''] TEST_CC_TEMPLATE"
  "format_ok [''MODULE''] HELPER_CC_TEMPLATE"
  "format_ok [''MODULE'', ''INCLUDE_GUARD''] HELPER_H_TEMPLATE"
  "format_ok [''MODULE''] EXAMPLES_WSCRIPT_TEMPLATE"
  "format_ok [''MODULE''] EXAMPLE_CC_TEMPLATE"
  "format_ok [''MODULE''] DOC_RST_TEMPLATE"
  unfolding WSCRIPT_TEMPLATE_def MODEL_CC_TEMPLATE_def MODEL_H_TEMPLATE_def TEST_CC_TEMPLATE_def HELPER_CC_TEMPLATE_def
    HELPER_H_TEMPLATE_def EXAMPLES_WSCRIPT_TEMPLATE_def EXAMPLE_CC_TEMPLATE_def DOC_RST_TEMPLATE_def
  by (rule format_ok_unlines, code_simp)+

text \<open>One statement on a directory \<open>d\<close> that resolves to \<open>b\<close>.\<close>

fun st_path :: "statement \<Rightarrow> string list" where
  "st_path (Mkdir ps) = ps"
| "st_path (Write ps t d) = ps"

fun st_node :: "statement \<Rightarrow> fnode" where
  "st_node (Mkdir ps) = Dir"
| "st_node (Write ps t d) = File (formatted d t)"

fun st_format_ok :: "statement \<Rightarrow> bool" where
  "st_format_ok (Mkdir ps) \<longleftrightarrow> True"
| "st_format_ok (Write ps t d) \<longleftrightarrow> format_ok (dict_keys d) t"

lemma run_statement_new:
  assumes "resolve cwd d @ st_path st = q" "list_all plain_comp (st_path st)" "st_format_ok st"
    and "fs_node fs (butlast q) = Some Dir" "fs_node fs q = None"
  shows "\<exists>fs'. run_statement cwd d fs st = Inr fs' \<and> map_of fs' = (map_of fs)(q \<mapsto> st_node st)"
proof (cases st)
  case (Mkdir ps)
  then show ?thesis using assms by (auto simp: run_statement_def mkdir_def resolve_path_join Let_def)
next
  case (Write ps t e)
  have q: "q \<noteq> []" using assms(5) by (auto simp: fs_node_def)
  then have par: "fs_node (dict_set q (File []) fs) (butlast q) = Some Dir"
    using assms(4) by (auto simp: fs_node_set) (metis append_butlast_last_id append_self_conv list.distinct(1))
  show ?thesis using Write assms q par py_format_formatted [of "dict_keys e" t e]
    by (auto simp: run_statement_def write_file_def resolve_path_join Let_def fs_node_set)
qed

text \<open>A list of statements makes new nodes only, each in a directory that is there when its turn comes.\<close>

fun creates :: "string list set \<Rightarrow> string list set \<Rightarrow> statement list \<Rightarrow> bool" where
  "creates dirs seen [] \<longleftrightarrow> True"
| "creates dirs seen (st # sts) \<longleftrightarrow>
     list_all plain_comp (st_path st) \<and> st_format_ok st \<and> st_path st \<notin> seen \<and> st_path st \<noteq> [] \<and> butlast (st_path st) \<in> dirs \<and>
     creates (if st_node st = Dir then insert (st_path st) dirs else dirs) (insert (st_path st) seen) sts"

lemma run_statements_create:
  assumes "creates dirs seen sts" "\<And>r. fs_node fs (resolve cwd d @ r) \<noteq> None \<Longrightarrow> r \<in> seen"
    and "\<And>r. r \<in> dirs \<Longrightarrow> fs_node fs (resolve cwd d @ r) = Some Dir"
  shows "\<exists>fs'. res_fold (run_statement cwd d) fs sts = Inr fs' \<and>
    map_of fs' = map_of fs ++ map_of (rev (map (\<lambda>st. (resolve cwd d @ st_path st, st_node st)) sts))"
  using assms
proof (induction sts arbitrary: fs dirs seen)
  case (Cons st sts)
  let ?b = "resolve cwd d" let ?q = "?b @ st_path st"
  have "fs_node fs ?q = None" using Cons.prems(1,2) by fastforce
  moreover have "fs_node fs (butlast ?q) = Some Dir" and q: "?q \<noteq> []"
    using Cons.prems(1,3) by (simp_all add: butlast_append)
  ultimately obtain fs1 where fs1: "run_statement cwd d fs st = Inr fs1" "map_of fs1 = (map_of fs)(?q \<mapsto> st_node st)"
    using run_statement_new [OF refl, where st = st and cwd = cwd and d = d and fs = fs] Cons.prems(1) by auto
  have node: "fs_node fs1 r = (if r = ?q then Some (st_node st) else fs_node fs r)" for r
    using q by (auto simp: fs_node_def fs1(2))
  have seen: "r \<in> insert (st_path st) seen" if "fs_node fs1 (?b @ r) \<noteq> None" for r
    using that Cons.prems(2) by (auto simp: node split: if_splits)
  have "dirs \<subseteq> seen" using Cons.prems(2,3) by force
  then have dirs: "fs_node fs1 (?b @ r) = Some Dir" if "r \<in> (if st_node st = Dir then insert (st_path st) dirs else dirs)" for r
    using that Cons.prems(1,3) by (auto simp: node split: if_splits)
  obtain fs' where "res_fold (run_statement cwd d) fs1 sts = Inr fs'"
    "map_of fs' = map_of fs1 ++ map_of (rev (map (\<lambda>st. (?b @ st_path st, st_node st)) sts))"
    using Cons.IH [OF _ seen dirs] Cons.prems(1) by auto
  then show ?case using fs1 by (simp add: map_add_def fun_eq_iff split: option.splits)
qed simp


lemma creates_distinct: "creates dirs seen sts \<Longrightarrow> distinct (map st_path sts) \<and> set (map st_path sts) \<inter> seen = {}"
  by (induction dirs seen sts rule: creates.induct) auto

lemma plain_comp_append: "plain_comp m \<Longrightarrow> CHR ''/'' \<notin> set s \<Longrightarrow> 2 \<le> length s \<Longrightarrow> plain_comp (m @ s)"
proof -
  assume m: "plain_comp m" and s: "CHR ''/'' \<notin> set s" "2 \<le> length s"
  have "3 \<le> length (m @ s)" using m s(2) by (cases m) (auto simp: plain_comp_def)
  then show ?thesis using m s(1) by (auto simp: plain_comp_def simp del: length_append)
qed

lemma module_statements_create:
  assumes "plain_comp m"
  shows "module_statements m = Mkdir [] # tl (module_statements m)" "creates {[]} {[]} (tl (module_statements m))"
proof -
  show "module_statements m = Mkdir [] # tl (module_statements m)" by (simp add: module_statements_def Let_def)
  have names: "plain_comp ''wscript''" "plain_comp ''model''" "plain_comp ''test''" "plain_comp ''helper''" "plain_comp ''examples''"
    "plain_comp ''doc''"
    by (simp_all add: plain_comp_def)
  have dif: "m @ ''-example.cc'' \<noteq> ''wscript''" "''wscript'' \<noteq> m @ ''-example.cc''" by (auto dest: arg_cong [of _ _ last])
  show "creates {[]} {[]} (tl (module_statements m))"
    by (simp add: module_statements_def templates_ok names plain_comp_append [OF assms] dif Let_def)
qed

lemma module_tree_statements: "module_tree m = map (\<lambda>st. (st_path st, st_node st)) (module_statements m)"
  by (simp add: module_tree_def module_statements_def Let_def)

lemma run_module_statements:
  assumes "plain_comp m" "resolve cwd d = b" "fs_ok fs" "fs_node fs (butlast b) = Some Dir" "fs_node fs b = None"
  shows "\<exists>fs'. res_fold (run_statement cwd d) fs (module_statements m) = Inr fs' \<and>
    map_of fs' = map_of fs ++ map_of (map (\<lambda>(p, n). (b @ p, n)) (module_tree m))"
proof -
  let ?sts = "tl (module_statements m)"
  have b: "b \<noteq> []" using assms(5) by (auto simp: fs_node_def)
  obtain fs1 where fs1: "run_statement cwd d fs (Mkdir []) = Inr fs1" "map_of fs1 = (map_of fs)(b \<mapsto> Dir)"
    using run_statement_new [where st = "Mkdir []" and cwd = cwd and d = d and fs = fs and q = b] assms by auto
  have node: "fs_node fs1 r = (if r = b then Some Dir else fs_node fs r)" for r
    using b by (simp add: fs_node_def fs1(2))
  have seen: "r \<in> {[]}" if "fs_node fs1 (resolve cwd d @ r) \<noteq> None" for r
    using that fs_ok_below [OF assms(3,5), of r] assms(2) by (cases "r = []") (simp_all add: node)
  have dirs: "fs_node fs1 (resolve cwd d @ r) = Some Dir" if "r \<in> {[]}" for r
    using that assms(2) by (simp add: node)
  obtain fs' where fs': "res_fold (run_statement cwd d) fs1 ?sts = Inr fs'"
    "map_of fs' = map_of fs1 ++ map_of (rev (map (\<lambda>st. (b @ st_path st, st_node st)) ?sts))"
    using run_statements_create [OF module_statements_create(2) [OF assms(1)] seen dirs] unfolding assms(2) by blast
  have "distinct (map fst (map (\<lambda>st. (b @ st_path st, st_node st)) (Mkdir [] # ?sts)))"
    using creates_distinct [OF module_statements_create(2) [OF assms(1)]]
    by (force simp: distinct_map inj_on_def)
  then have "map_of (rev (map (\<lambda>st. (b @ st_path st, st_node st)) (Mkdir [] # ?sts))) =
      map_of (map (\<lambda>st. (b @ st_path st, st_node st)) (Mkdir [] # ?sts))"
    by (subst map_of_inject_set) (simp_all add: rev_map [symmetric] del: list.map)
  moreover have "map_of fs' = map_of fs ++ map_of (rev (map (\<lambda>st. (b @ st_path st, st_node st)) (Mkdir [] # ?sts)))"
    using fs'(2) fs1(2) by simp
  moreover have "map (\<lambda>(p, n). (b @ p, n)) (module_tree m) = map (\<lambda>st. (b @ st_path st, st_node st)) (Mkdir [] # ?sts)"
    unfolding module_tree_statements module_statements_create(1) [OF assms(1), symmetric] by simp
  ultimately have "map_of fs' = map_of fs ++ map_of (map (\<lambda>(p, n). (b @ p, n)) (module_tree m))" by simp
  then show ?thesis using fs1(1) fs'(1) module_statements_create(1) [OF assms(1)] by (metis res_fold.simps(2) sum.simps(6))
qed

text \<open>
  C12. With one argument whose lower-case form is a valid name, and no module of that name yet, \<open>main\<close> of
  \<open>create-module.py\<close> returns 0 and adds exactly the tree of the module below the directory of the script: the
  directories \<open>model\<close>, \<open>test\<close>, \<open>helper\<close>, \<open>examples\<close> and \<open>doc\<close> and nine files, each the template
  with its placeholders filled in; every other path keeps what it was. No step raises: all placeholders
  have a value, and every file goes into a directory made before.
\<close>

theorem create_module_creates:
  assumes "valid_name (py_lower a)" "fs_ok fs" "fs_node fs (resolve cwd (dirname file)) = Some Dir"
    and "fs_node fs (resolve cwd (dirname file) @ [py_lower a]) = None"
  shows "\<exists>fs' msgs. create_module cwd file [a] fs = Inr (0, msgs, fs') \<and>
    map_of fs' = map_of fs ++ map_of (map (\<lambda>(p, n). ((resolve cwd (dirname file) @ [py_lower a]) @ p, n)) (module_tree (py_lower a)))"
proof -
  let ?d = "path_join2 (dirname file) (py_lower a)"
  have name: "plain_comp (py_lower a)" "CHR ''/'' \<notin> set (py_lower a)" using valid_name_plain [OF assms(1)] .
  have dir: "resolve cwd ?d = resolve cwd (dirname file) @ [py_lower a]" by (rule resolve_join [OF name(1)])
  obtain fs' where "res_fold (run_statement cwd ?d) fs (module_statements (py_lower a)) = Inr fs'"
    "map_of fs' = map_of fs ++ map_of (map (\<lambda>(p, n). ((resolve cwd (dirname file) @ [py_lower a]) @ p, n)) (module_tree (py_lower a)))"
    using run_module_statements [OF name(1) dir assms(2)] assms(3,4) by auto
  then show ?thesis using assms(1,4) name(2) dir by (simp add: create_module_def path_exists_def)
qed

theorem create_module_creates_witness:
  "\<exists>fs' msgs. create_module ''/home'' ''/ns3/src/create-module.py'' [''My-Mod''] [([''ns3''], Dir), ([''ns3'', ''src''], Dir)] = Inr (0, msgs, fs') \<and>
     map_of fs' [''ns3'', ''src'', ''my-mod'', ''helper'', ''my-mod-helper.h''] = Some (File (unlines
       [''/* -*- Mode:C++; c-file-style:\"gnu\"; indent-tabs-mode:nil; -*- */'', ''#ifndef MY_MOD_HELPER_H'',
        ''#define MY_MOD_HELPER_H'', [], ''#include \"ns3/my-mod.h\"'', [], ''namespace ns3 {'', [], ''/* ... */'', [], ''}'', [],
        ''#endif /* MY_MOD_HELPER_H */'', []]))"
proof -
  let ?fs = "[([''ns3''], Dir), ([''ns3'', ''src''], Dir)]" let ?b = "[''ns3'', ''src'', ''my-mod'']"
  have low: "py_lower ''My-Mod'' = ''my-mod''" by code_simp
  have valid: "valid_name (py_lower ''My-Mod'')" by code_simp
  have dir: "resolve ''/home'' (dirname ''/ns3/src/create-module.py'') = [''ns3'', ''src'']" by code_simp
  have node: "fs_ok ?fs" "fs_node ?fs [''ns3'', ''src''] = Some Dir" "fs_node ?fs ?b = None" by code_simp+
  have fmt: "formatted [(''MODULE'', ''my-mod''), (''INCLUDE_GUARD'', include_guard ''my-mod'' ''_HELPER_H'')] HELPER_H_TEMPLATE = unlines
       [''/* -*- Mode:C++; c-file-style:\"gnu\"; indent-tabs-mode:nil; -*- */'', ''#ifndef MY_MOD_HELPER_H'',
        ''#define MY_MOD_HELPER_H'', [], ''#include \"ns3/my-mod.h\"'', [], ''namespace ns3 {'', [], ''/* ... */'', [], ''}'', [],
        ''#endif /* MY_MOD_HELPER_H */'', []]" by code_simp
  obtain fs' msgs where "create_module ''/home'' ''/ns3/src/create-module.py'' [''My-Mod''] ?fs = Inr (0, msgs, fs')"
    "map_of fs' = map_of ?fs ++ map_of (map (\<lambda>(p, n). (?b @ p, n)) (module_tree ''my-mod''))"
    using create_module_creates [OF valid node(1), of "''/home''" "''/ns3/src/create-module.py''"] node(2,3)
    unfolding dir low by auto
  then show ?thesis using fmt by (simp add: module_tree_def Let_def)
qed

text \<open>
  C28. The exit status of \<open>main\<close> for any arguments: 1 with the help text unless there is one argument, 2 if the name is not
  made of words of letters and digits separated by dashes or the module exists already, and 0 otherwise. When it is not 0
  nothing was created or changed, no exception is raised (the assertion about path separators in particular never
  fails), and the file system stays well formed.
\<close>

theorem create_module_status:
  assumes "fs_ok fs" "fs_node fs (resolve cwd (dirname file)) = Some Dir"
  shows "\<exists>code msgs fs'. create_module cwd file args fs = Inr (code, msgs, fs') \<and> fs_ok fs' \<and> (code = 0 \<or> fs' = fs) \<and>
    code = (if length args \<noteq> 1 then 1
      else if valid_name (py_lower (hd args)) \<and> fs_node fs (resolve cwd (dirname file) @ [py_lower (hd args)]) = None then 0 else 2)"
proof (cases "\<exists>a. args = [a]")
  case False
  then have "length args \<noteq> 1" by (auto simp: length_Suc_conv)
  then show ?thesis using assms by (auto simp: create_module_def split: list.splits)
next
  case True
  then obtain a where a: "args = [a]" ..
  show ?thesis
  proof (cases "valid_name (py_lower a)")
    case valid: True
    let ?d = "path_join2 (dirname file) (py_lower a)"
    have name: "plain_comp (py_lower a)" "CHR ''/'' \<notin> set (py_lower a)" using valid_name_plain [OF valid] .
    have dir: "resolve cwd ?d = resolve cwd (dirname file) @ [py_lower a]" by (rule resolve_join [OF name(1)])
    show ?thesis
    proof (cases "fs_node fs (resolve cwd ?d)")
      case None
      obtain fs' where fs': "res_fold (run_statement cwd ?d) fs (module_statements (py_lower a)) = Inr fs'"
        using run_module_statements [OF name(1) dir assms(1)] assms(2) None unfolding dir by auto
      then have "fs_ok fs'" using res_fold_invariant [of fs_ok, OF assms(1)] run_statement_ok by blast
      then show ?thesis using a valid name(2) None fs' dir by (simp add: create_module_def path_exists_def)
    qed (use a valid name(2) dir assms in \<open>auto simp: create_module_def path_exists_def Let_def\<close>)
  qed (use a assms in \<open>simp add: create_module_def\<close>)
qed

theorem create_module_status_witness:
  "\<exists>msgs. create_module ''/ns3/src'' ''create-module.py'' [''a_b''] [([''ns3''], Dir), ([''ns3'', ''src''], Dir)] =
     Inr (2, msgs, [([''ns3''], Dir), ([''ns3'', ''src''], Dir)])"
proof -
  let ?fs = "[([''ns3''], Dir), ([''ns3'', ''src''], Dir)]"
  have "fs_ok ?fs" by code_simp
  moreover have "fs_node ?fs (resolve ''/ns3/src'' (dirname ''create-module.py'')) = Some Dir" by code_simp
  moreover have "\<not> valid_name (py_lower (hd [''a_b'']))" by code_simp
  ultimately show ?thesis using create_module_status [of ?fs "''/ns3/src''" "''create-module.py''" "[''a_b'']"] by auto
qed

section \<open>Include guards\<close>

lemma guard_inverse:
  assumes "valid_name (py_lower a)"
  shows "py_replace_char (CHR ''_'') (CHR ''-'') (py_lower (py_upper (py_replace_char (CHR ''-'') (CHR ''_'') (py_lower a)))) = py_lower a"
proof -
  have conv: "(\<lambda>c. if c = CHR ''_'' then CHR ''-'' else c) (to_lower (to_upper (if c = CHR ''-'' then CHR ''_'' else c))) = c"
    if "c \<in> set (py_lower a)" for c
  proof -
    have up: "\<not> is_upper c" using that by (auto simp: py_lower_def)
    have "is_alnum c \<or> c = CHR ''-''" by (rule valid_name_chars [OF assms that])
    moreover have "to_lower (to_upper (CHR ''_'')) = CHR ''_''" by code_simp
    ultimately show ?thesis using to_lower_upper [OF up] by auto
  qed
  define m where "m = py_lower a"
  have "map (\<lambda>c. (\<lambda>c. if c = CHR ''_'' then CHR ''-'' else c) (to_lower (to_upper (if c = CHR ''-'' then CHR ''_'' else c)))) m = m"
    using conv unfolding m_def by (rule map_idI)
  then show ?thesis unfolding m_def [symmetric] unfolding py_replace_char_def py_lower_def py_upper_def map_map comp_def .
qed

text \<open>
  The include guards of the headers of two modules are different if the modules are: from the guard of a model header the
  name of the module can be recovered, since names have no underscores and no capitals.
\<close>

theorem include_guard_injective:
  assumes "valid_name (py_lower a)" "valid_name (py_lower b)" "include_guard (py_lower a) suffix = include_guard (py_lower b) suffix"
  shows "py_lower a = py_lower b"
proof -
  have "py_upper (py_replace_char (CHR ''-'') (CHR ''_'') (py_lower a)) = py_upper (py_replace_char (CHR ''-'') (CHR ''_'') (py_lower b))"
    using assms(3) unfolding include_guard_def by simp
  then show ?thesis using guard_inverse [OF assms(1)] guard_inverse [OF assms(2)] by metis
qed

theorem include_guard_injective_witness:
  "include_guard ''my-mod'' ''_H'' \<noteq> include_guard ''my'' ''_H''"
proof -
  have "py_lower ''my-mod'' = ''my-mod''" "py_lower ''my'' = ''my''" by code_simp+
  moreover have "valid_name (py_lower ''my-mod'')" "valid_name (py_lower ''my'')" by code_simp+
  ultimately show ?thesis using include_guard_injective [of "''my-mod''" "''my''" "''_H''"] by auto
qed

text \<open>
  The helper header of a module and the model header of the module with \<open>-helper\<close> in its name share both the
  file name and the guard.
\<close>

lemma helper_guard_clash:
  assumes "valid_name m"
  shows "valid_name (m @ ''-helper'')" and "include_guard m ''_HELPER_H'' = include_guard (m @ ''-helper'') ''_H''"
proof -
  have "py_split (CHR ''-'') (m @ ''-helper'') = py_split (CHR ''-'') m @ [''helper'']" using py_split_append_sep [of "CHR ''-''" m "''helper''"] by simp
  moreover have "py_isalnum ''helper''" by code_simp
  ultimately show "valid_name (m @ ''-helper'')" using assms by (simp add: valid_name_def)
  have "py_upper (py_replace_char (CHR ''-'') (CHR ''_'') ''-helper'') = ''_HELPER''" by code_simp
  then show "include_guard m ''_HELPER_H'' = include_guard (m @ ''-helper'') ''_H''"
    by (simp add: include_guard_def py_replace_char_def py_upper_def)
qed

end
