(* ===== verification/Flowmon.thy ===== *)
theory Flowmon
  imports Py_Number Test_Report
begin

text \<open>
  \<open>src/src/flow-monitor/examples/flowmon-parse-results.py\<close>: the reader of the flow monitor's results. The file is the element
  tree that \<open>ElementTree\<close> gives for it. An attribute that is missing is \<open>None\<close>: converting it to a number or slicing it
  raises \<open>TypeError\<close>. An object with \<open>__slots__\<close> is a record; a slot that may be unset is an option, and reading
  it then raises \<open>AttributeError\<close>. Floats are rational numbers, \<open>1e-9\<close> is \<open>1 / 10 ^ 9\<close>. The flows of a
  simulation are referred to from a list and a dictionary; both hold positions in the list.
\<close>

section \<open>Attributes\<close>

definition get_attr :: "xml \<Rightarrow> string \<Rightarrow> string option" where
  "get_attr el k = map_of (attrs el) k"

definition attr_with :: "(string \<Rightarrow> 'a result) \<Rightarrow> xml \<Rightarrow> string \<Rightarrow> 'a result" where
  "attr_with conv el k = (case get_attr el k of None \<Rightarrow> Inl TypeError | Some s \<Rightarrow> conv s)"

abbreviation attr_int :: "xml \<Rightarrow> string \<Rightarrow> int result" where
  "attr_int \<equiv> attr_with (py_int 10)"

abbreviation attr_float :: "xml \<Rightarrow> string \<Rightarrow> rat result" where
  "attr_float \<equiv> attr_with py_float"

text \<open>\<open>long(el.get(k)[:-4])\<close> and \<open>float(el.get(k)[:-4])\<close>\<close>

abbreviation attr_time :: "xml \<Rightarrow> string \<Rightarrow> int result" where
  "attr_time \<equiv> attr_with (\<lambda>s. py_int 10 (py_slice_to s (-4)))"

definition parse_time_ns :: "string option \<Rightarrow> int result" where
  "parse_time_ns tm =
     (case tm of None \<Rightarrow> Inl AttributeError
      | Some s \<Rightarrow> if py_endswith s ''ns'' then py_int 10 (py_slice_to s (-4)) else Inl ValueError)"

definition findall_path :: "string \<Rightarrow> string \<Rightarrow> xml \<Rightarrow> xml list" where
  "findall_path a b el = concat (map (findall b) (findall a el))"

section \<open>The classes\<close>

record five_tuple =
  sourceAddress :: "string option"
  destinationAddress :: "string option"
  protocol :: int
  sourcePort :: int
  destinationPort :: int

definition FiveTuple :: "xml \<Rightarrow> five_tuple result" where
  "FiveTuple el =
     res_bind (attr_int el ''sourcePort'') (\<lambda>sp.
     res_bind (attr_int el ''destinationPort'') (\<lambda>dp.
     res_bind (attr_int el ''protocol'') (\<lambda>pr.
     Inr \<lparr>sourceAddress = get_attr el ''sourceAddress'', destinationAddress = get_attr el ''destinationAddress'',
          protocol = pr, sourcePort = sp, destinationPort = dp\<rparr>)))"

type_synonym histogram = "(rat \<times> rat \<times> int) list"

definition Histogram :: "xml option \<Rightarrow> histogram result" where
  "Histogram el =
     (case el of None \<Rightarrow> Inr []
      | Some e \<Rightarrow> res_list (\<lambda>b.
          res_bind (attr_float b ''start'') (\<lambda>s.
          res_bind (attr_float b ''width'') (\<lambda>w.
          res_bind (attr_int b ''count'') (\<lambda>c. Inr (s, w, c))))) (findall ''bin'' e))"

record probe_flow_stats =
  probeId :: int
  packets :: int
  pbytes :: int
  delayFromFirstProbe :: rat

record flow =
  flowId :: int
  delayMean :: "rat option"
  packetLossRatio :: "rat option"
  rxBitrate :: "rat option"
  txBitrate :: "rat option"
  fiveTuple :: "five_tuple option"
  packetSizeMean :: "rat option"
  probe_stats_unsorted :: "probe_flow_stats list"
  hopCount :: rat
  flowInterruptionsHistogram :: "histogram option"
  rx_duration :: rat

abbreviation nano :: rat where
  "nano \<equiv> 1 / 10 ^ 9"

text \<open>\<open>a / b\<close> under \<open>from __future__ import division\<close>\<close>

definition truediv :: "rat \<Rightarrow> rat \<Rightarrow> rat result" where
  "truediv a b = (if b = 0 then Inl ZeroDivisionError else Inr (a / b))"

definition Flow :: "xml \<Rightarrow> flow result" where
  "Flow el =
     res_bind (attr_int el ''flowId'') (\<lambda>fid.
     res_bind (attr_int el ''rxPackets'') (\<lambda>rxPackets.
     res_bind (attr_int el ''txPackets'') (\<lambda>txPackets.
     res_bind (attr_time el ''timeLastTxPacket'') (\<lambda>ltx.
     res_bind (attr_time el ''timeFirstTxPacket'') (\<lambda>ftx.
     res_bind (attr_time el ''timeLastRxPacket'') (\<lambda>lrx.
     res_bind (attr_time el ''timeFirstRxPacket'') (\<lambda>frx.
     let tx_dur = of_int (ltx - ftx) * nano; rx_dur = of_int (lrx - frx) * nano in
     res_bind (if rxPackets \<noteq> 0
               then res_bind (attr_float el ''timesForwarded'') (\<lambda>f. Inr (f / of_int rxPackets + 1))
               else Inr (-1000)) (\<lambda>hops.
     res_bind (if rxPackets \<noteq> 0
               then res_bind (attr_with (\<lambda>s. py_float (py_slice_to s (-4))) el ''delaySum'') (\<lambda>d.
                    res_bind (attr_float el ''rxBytes'') (\<lambda>b.
                    Inr (Some (d / of_int rxPackets * nano), Some (b / of_int rxPackets))))
               else Inr (None, None)) (\<lambda>(delay, size).
     res_bind (if rx_dur > 0
               then res_bind (attr_int el ''rxBytes'') (\<lambda>b. Inr (Some (of_int b * 8 / rx_dur))) else Inr None) (\<lambda>rxrate.
     res_bind (if tx_dur > 0
               then res_bind (attr_int el ''txBytes'') (\<lambda>b. Inr (Some (of_int b * 8 / tx_dur))) else Inr None) (\<lambda>txrate.
     res_bind (attr_float el ''lostPackets'') (\<lambda>lost.
     res_bind (if rxPackets = 0 then Inr None
               else res_bind (truediv lost (of_int rxPackets + lost)) (\<lambda>r. Inr (Some r))) (\<lambda>loss.
     res_bind (case findall ''flowInterruptionsHistogram'' el of
                 [] \<Rightarrow> Inr None
               | h # _ \<Rightarrow> res_bind (Histogram (Some h)) (\<lambda>x. Inr (Some x))) (\<lambda>hist.
     Inr \<lparr>flowId = fid, delayMean = delay, packetLossRatio = loss, rxBitrate = rxrate, txBitrate = txrate, fiveTuple = None,
          packetSizeMean = size, probe_stats_unsorted = [], hopCount = hops, flowInterruptionsHistogram = hist,
          rx_duration = rx_dur\<rparr>))))))))))))))"

section \<open>Simulation\<close>

type_synonym flow_store = "flow list \<times> (int, nat) dict"

definition add_flow :: "flow_store \<Rightarrow> xml \<Rightarrow> flow_store result" where
  "add_flow st el =
     res_bind (Flow el) (\<lambda>f. Inr (fst st @ [f], dict_set (flowId f) (length (fst st)) (snd st)))"

definition with_flow :: "flow_store \<Rightarrow> int \<Rightarrow> (flow \<Rightarrow> flow) \<Rightarrow> flow_store result" where
  "with_flow st fid upd =
     res_bind (dict_get (snd st) fid) (\<lambda>i. Inr ((fst st)[i := upd (fst st ! i)], snd st))"

definition classify :: "flow_store \<Rightarrow> xml \<Rightarrow> flow_store result" where
  "classify st el =
     res_bind (attr_int el ''flowId'') (\<lambda>fid.
     res_bind (FiveTuple el) (\<lambda>t. with_flow st fid (\<lambda>f. f\<lparr>fiveTuple := Some t\<rparr>)))"

definition add_probe_stats :: "int \<Rightarrow> flow_store \<Rightarrow> xml \<Rightarrow> flow_store result" where
  "add_probe_stats pid st el =
     res_bind (attr_int el ''flowId'') (\<lambda>fid.
     res_bind (attr_int el ''packets'') (\<lambda>p.
     res_bind (attr_int el ''bytes'') (\<lambda>b.
     res_bind (if p > 0
               then res_bind (parse_time_ns (get_attr el ''delayFromFirstProbeSum'')) (\<lambda>t. Inr (of_int t / of_int p))
               else Inr 0) (\<lambda>d.
     with_flow st fid (\<lambda>f. f\<lparr>probe_stats_unsorted := probe_stats_unsorted f @
       [\<lparr>probeId = pid, packets = p, pbytes = b, delayFromFirstProbe = d\<rparr>]\<rparr>)))))"

definition add_probe :: "flow_store \<Rightarrow> xml \<Rightarrow> flow_store result" where
  "add_probe st el =
     res_bind (attr_int el ''index'') (\<lambda>pid. res_fold (add_probe_stats pid) st (findall ''FlowStats'' el))"

definition Simulation :: "xml \<Rightarrow> flow list result" where
  "Simulation el =
     (case findall ''Ipv4FlowClassifier'' el of
        [classifier] \<Rightarrow>
          res_bind (res_fold add_flow ([], []) (findall_path ''FlowStats'' ''Flow'' el)) (\<lambda>st.
          res_bind (res_fold classify st (findall ''Flow'' classifier)) (\<lambda>st.
          res_bind (res_fold add_probe st (findall_path ''FlowProbes'' ''FlowProbe'' el)) (\<lambda>st.
          Inr (fst st))))
      | _ \<Rightarrow> Inl ValueError)"

section \<open>main\<close>


definition main_event :: "int \<times> flow list list \<Rightarrow> bool \<times> xml \<Rightarrow> (int \<times> flow list list) result" where
  "main_event st ev =
     (case (st, ev) of ((level, sim_list), (start, elem)) \<Rightarrow>
        if start then Inr (level + 1, sim_list)
        else if level - 1 = 0 \<and> tag elem = ''FlowMonitor''
          then res_bind (Simulation elem) (\<lambda>sim. Inr (level - 1, sim_list @ [sim]))
          else Inr (level - 1, sim_list))"





section \<open>What the flow monitor writes\<close>

text \<open>
  \<open>FlowMonitor::SerializeToXmlStream\<close> without histograms and \<open>Ipv4FlowClassifier::SerializeToXmlStream\<close>, as the
  element tree of the text they write. A time is printed in nanoseconds with a sign and one decimal.
\<close>

definition time_text :: "nat \<Rightarrow> string" where
  "time_text n = ''+'' @ nat_str n @ ''.0ns''"

record flow_data =
  fd_id :: nat
  timeFirstTxPacket :: nat
  timeFirstRxPacket :: nat
  timeLastTxPacket :: nat
  timeLastRxPacket :: nat
  delaySum :: nat
  jitterSum :: nat
  lastDelay :: nat
  txBytes :: nat
  rxBytes :: nat
  txPackets :: nat
  rxPackets :: nat
  lostPackets :: nat
  timesForwarded :: nat
  fd_packetsDropped :: "nat list"
  fd_bytesDropped :: "nat list"

definition dropped_elems :: "nat list \<Rightarrow> nat list \<Rightarrow> xml list" where
  "dropped_elems ps bs =
     map (\<lambda>(i, n). Elem ''packetsDropped'' [(''reasonCode'', nat_str i), (''number'', nat_str n)] None []) (enumerate 0 ps) @
     map (\<lambda>(i, n). Elem ''bytesDropped'' [(''reasonCode'', nat_str i), (''bytes'', nat_str n)] None []) (enumerate 0 bs)"

definition flow_elem :: "flow_data \<Rightarrow> xml" where
  "flow_elem d = Elem ''Flow''
     [(''flowId'', nat_str (fd_id d)),
      (''timeFirstTxPacket'', time_text (timeFirstTxPacket d)), (''timeFirstRxPacket'', time_text (timeFirstRxPacket d)),
      (''timeLastTxPacket'', time_text (timeLastTxPacket d)), (''timeLastRxPacket'', time_text (timeLastRxPacket d)),
      (''delaySum'', time_text (delaySum d)), (''jitterSum'', time_text (jitterSum d)), (''lastDelay'', time_text (lastDelay d)),
      (''txBytes'', nat_str (txBytes d)), (''rxBytes'', nat_str (rxBytes d)),
      (''txPackets'', nat_str (txPackets d)), (''rxPackets'', nat_str (rxPackets d)),
      (''lostPackets'', nat_str (lostPackets d)), (''timesForwarded'', nat_str (timesForwarded d))]
     (Some newline) (dropped_elems (fd_packetsDropped d) (fd_bytesDropped d))"

record tuple_data =
  td_id :: nat
  td_source :: string
  td_destination :: string
  td_protocol :: nat
  td_sourcePort :: nat
  td_destinationPort :: nat
  td_dscp :: "(string \<times> nat) list"

definition tuple_elem :: "tuple_data \<Rightarrow> xml" where
  "tuple_elem d = Elem ''Flow''
     [(''flowId'', nat_str (td_id d)), (''sourceAddress'', td_source d), (''destinationAddress'', td_destination d),
      (''protocol'', nat_str (td_protocol d)), (''sourcePort'', nat_str (td_sourcePort d)),
      (''destinationPort'', nat_str (td_destinationPort d))]
     (Some newline) (map (\<lambda>(v, n). Elem ''Dscp'' [(''value'', v), (''packets'', nat_str n)] None []) (td_dscp d))"

record probe_data =
  pd_id :: nat
  pd_packets :: nat
  pd_bytes :: nat
  pd_delay :: nat
  pd_packetsDropped :: "nat list"
  pd_bytesDropped :: "nat list"

definition probe_stats_elem :: "probe_data \<Rightarrow> xml" where
  "probe_stats_elem d = Elem ''FlowStats''
     [(''flowId'', nat_str (pd_id d)), (''packets'', nat_str (pd_packets d)), (''bytes'', nat_str (pd_bytes d)),
      (''delayFromFirstProbeSum'', time_text (pd_delay d))]
     (Some newline) (dropped_elems (pd_packetsDropped d) (pd_bytesDropped d))"

definition probe_elem :: "nat \<times> probe_data list \<Rightarrow> xml" where
  "probe_elem p = Elem ''FlowProbe'' [(''index'', nat_str (fst p))] (Some newline) (map probe_stats_elem (snd p))"

record monitor_data =
  md_flows :: "flow_data list"
  md_tuples :: "tuple_data list"
  md_probes :: "probe_data list list option"

definition monitor_elem :: "monitor_data \<Rightarrow> xml" where
  "monitor_elem m = Elem ''FlowMonitor'' [] (Some newline)
     ([Elem ''FlowStats'' [] (Some newline) (map flow_elem (md_flows m)),
       Elem ''Ipv4FlowClassifier'' [] (Some newline) (map tuple_elem (md_tuples m))] @
      (case md_probes m of None \<Rightarrow> []
       | Some ps \<Rightarrow> [Elem ''FlowProbes'' [] (Some newline) (map probe_elem (enumerate 0 ps))]))"

section \<open>What the script should make of it\<close>

definition flow_summary :: "flow_data \<Rightarrow> flow" where
  "flow_summary d =
     (let rx = of_nat (rxPackets d) :: rat;
          tx_dur = of_int (int (timeLastTxPacket d) - int (timeFirstTxPacket d)) * nano :: rat;
          rx_dur = of_int (int (timeLastRxPacket d) - int (timeFirstRxPacket d)) * nano :: rat
      in \<lparr>flowId = int (fd_id d),
          delayMean = (if rx = 0 then None else Some (of_nat (delaySum d) / rx * nano)),
          packetLossRatio = (if rx = 0 then None else Some (of_nat (lostPackets d) / (rx + of_nat (lostPackets d)))),
          rxBitrate = (if 0 < rx_dur then Some (of_nat (rxBytes d) * 8 / rx_dur) else None),
          txBitrate = (if 0 < tx_dur then Some (of_nat (txBytes d) * 8 / tx_dur) else None),
          fiveTuple = None,
          packetSizeMean = (if rx = 0 then None else Some (of_nat (rxBytes d) / rx)),
          probe_stats_unsorted = [],
          hopCount = (if rx = 0 then -1000 else of_nat (timesForwarded d) / rx + 1),
          flowInterruptionsHistogram = None,
          rx_duration = rx_dur\<rparr>)"

definition tuple_summary :: "tuple_data \<Rightarrow> five_tuple" where
  "tuple_summary d = \<lparr>sourceAddress = Some (td_source d), destinationAddress = Some (td_destination d),
     protocol = int (td_protocol d), sourcePort = int (td_sourcePort d), destinationPort = int (td_destinationPort d)\<rparr>"

definition probe_summary :: "nat \<Rightarrow> probe_data \<Rightarrow> probe_flow_stats" where
  "probe_summary i d = \<lparr>probeId = int i, packets = int (pd_packets d), pbytes = int (pd_bytes d),
     delayFromFirstProbe = (if pd_packets d = 0 then 0 else of_nat (pd_delay d) / of_nat (pd_packets d))\<rparr>"

definition probe_list :: "monitor_data \<Rightarrow> (nat \<times> probe_data) list" where
  "probe_list m = (case md_probes m of None \<Rightarrow> [] | Some ps \<Rightarrow> concat (map (\<lambda>(i, ds). map (Pair i) ds) (enumerate 0 ps)))"

definition expected_flow :: "monitor_data \<Rightarrow> flow_data \<Rightarrow> flow" where
  "expected_flow m d = (flow_summary d)
     \<lparr>fiveTuple := map_option tuple_summary (find (\<lambda>t. td_id t = fd_id d) (md_tuples m)),
      probe_stats_unsorted := map (\<lambda>(i, p). probe_summary i p) (filter (\<lambda>(i, p). pd_id p = fd_id d) (probe_list m))\<rparr>"

text \<open>The identifiers the monitor hands out: one per flow and per five-tuple, and no statistics of unknown flows.\<close>

definition monitor_ok :: "monitor_data \<Rightarrow> bool" where
  "monitor_ok m \<longleftrightarrow> distinct (map fd_id (md_flows m)) \<and> distinct (map td_id (md_tuples m)) \<and>
     list_all (\<lambda>t. td_id t \<in> set (map fd_id (md_flows m))) (md_tuples m) \<and>
     list_all (\<lambda>(i, p). pd_id p \<in> set (map fd_id (md_flows m))) (probe_list m)"

section \<open>Reading it back\<close>

lemma time_text_slice: "py_slice_to (time_text n) (-4) = CHR ''+'' # nat_str n"
  by (simp add: py_slice_to_def py_bound_def time_text_def nat_add_distrib)

lemma parse_time_ns_time_text: "parse_time_ns (Some (time_text n)) = Inr (int n)"
proof -
  have "py_endswith (time_text n) ''ns''" unfolding py_endswith_iff time_text_def
    by (rule exI [of _ "''+'' @ nat_str n @ ''.0''"]) simp
  then show ?thesis by (simp add: parse_time_ns_def time_text_slice)
qed

lemma findall_dropped: "findall ''flowInterruptionsHistogram'' (Elem t a x (dropped_elems ps bs)) = []"
  by (auto simp: findall_def dropped_elems_def filter_empty_conv)

lemma Flow_elem: "Flow (flow_elem d) = Inr (flow_summary d)"
  by (simp add: Flow_def flow_elem_def attr_with_def get_attr_def time_text_slice findall_dropped truediv_def flow_summary_def Let_def)

lemma FiveTuple_elem: "FiveTuple (tuple_elem d) = Inr (tuple_summary d)"
  by (simp add: FiveTuple_def tuple_elem_def attr_with_def get_attr_def tuple_summary_def)


subsection \<open>The store of flows\<close>

text \<open>The dictionary maps every identifier to the position of the flow with it.\<close>

definition store_ok :: "flow_store \<Rightarrow> bool" where
  "store_ok st \<longleftrightarrow> distinct (map flowId (fst st)) \<and>
     map_of (snd st) = map_of (zip (map flowId (fst st)) [0..<length (fst st)])"

lemma store_ok_get:
  assumes "store_ok st" "i < length (fst st)"
  shows "map_of (snd st) (flowId (fst st ! i)) = Some i"
  using assms map_of_zip_nth [of "map flowId (fst st)" "[0..<length (fst st)]" i] by (simp add: store_ok_def)

lemma map_of_snoc: "map_of xs k = None \<Longrightarrow> map_of (xs @ [(k, v)]) = (map_of xs)(k \<mapsto> v)"
  by (rule ext) (simp add: map_add_def split: option.split)

lemma store_ok_add:
  assumes "store_ok st" "flowId f \<notin> set (map flowId (fst st))"
  shows "store_ok (fst st @ [f], dict_set (flowId f) (length (fst st)) (snd st))"
proof -
  have "map_of (zip (map flowId (fst st)) [0..<length (fst st)]) (flowId f) = None"
    using assms(2) by (subst map_of_zip_is_None) simp_all
  from map_of_snoc [OF this, of "length (fst st)"] show ?thesis using assms
    by (simp add: store_ok_def)
qed

lemma with_flow_map:
  assumes "store_ok st" "fid \<in> set (map flowId (fst st))" "\<And>f. flowId (upd f) = flowId f"
  shows "with_flow st fid upd = Inr (map (\<lambda>f. if flowId f = fid then upd f else f) (fst st), snd st)"
    and "store_ok (map (\<lambda>f. if flowId f = fid then upd f else f) (fst st), snd st)"
proof -
  obtain i where i: "i < length (fst st)" "flowId (fst st ! i) = fid" using assms(2) by (auto simp: in_set_conv_nth)
  have only: "flowId (fst st ! j) \<noteq> fid" if "j < length (fst st)" "j \<noteq> i" for j
    using assms(1) that i by (auto simp: store_ok_def distinct_conv_nth)
  have "(fst st)[i := upd (fst st ! i)] = map (\<lambda>f. if flowId f = fid then upd f else f) (fst st)"
  proof (rule nth_equalityI)
    fix j assume j: "j < length ((fst st)[i := upd (fst st ! i)])"
    then show "(fst st)[i := upd (fst st ! i)] ! j = map (\<lambda>f. if flowId f = fid then upd f else f) (fst st) ! j"
      using i only [of j] by (cases "j = i") simp_all
  qed simp
  then show "with_flow st fid upd = Inr (map (\<lambda>f. if flowId f = fid then upd f else f) (fst st), snd st)"
    using store_ok_get [OF assms(1) i(1)] i(2) by (simp add: with_flow_def dict_get_def)
  have ids: "map flowId (map (\<lambda>f. if flowId f = fid then upd f else f) (fst st)) = map flowId (fst st)" using assms(3) by simp
  show "store_ok (map (\<lambda>f. if flowId f = fid then upd f else f) (fst st), snd st)"
    using assms(1) unfolding store_ok_def fst_conv snd_conv ids length_map .
qed

lemma add_flows:
  assumes "distinct (map fd_id ds)"
  shows "\<exists>d. res_fold add_flow ([], []) (map flow_elem ds) = Inr (map flow_summary ds, d) \<and> store_ok (map flow_summary ds, d)"
  using assms
proof (induction ds rule: rev_induct)
  case (snoc x xs)
  then obtain d where d: "res_fold add_flow ([], []) (map flow_elem xs) = Inr (map flow_summary xs, d)"
    "store_ok (map flow_summary xs, d)" by auto
  have "flowId (flow_summary x) \<notin> set (map flowId (map flow_summary xs))"
    using snoc.prems by (auto simp: flow_summary_def Let_def)
  then have "store_ok (map flow_summary (xs @ [x]), dict_set (flowId (flow_summary x)) (length xs) d)"
    using store_ok_add [OF d(2), of "flow_summary x"] by simp
  moreover have "add_flow (map flow_summary xs, d) (flow_elem x) =
      Inr (map flow_summary (xs @ [x]), dict_set (flowId (flow_summary x)) (length xs) d)"
    by (simp add: add_flow_def Flow_elem)
  ultimately show ?case using d(1) by (auto simp: res_fold_append)
qed (simp add: store_ok_def)

text \<open>A loop that updates, for each item, the flow with its identifier, updates every flow by the items with its identifier.\<close>

lemma update_flows:
  assumes "store_ok st" "\<And>x. x \<in> set xs \<Longrightarrow> key x \<in> set (map flowId (fst st))" "\<And>x f. flowId (upd x f) = flowId f"
    and "\<And>st x. x \<in> set xs \<Longrightarrow> step st (enc x) = with_flow st (key x) (upd x)"
  shows "res_fold step st (map enc xs) = Inr (map (\<lambda>f. fold upd (filter (\<lambda>x. key x = flowId f) xs) f) (fst st), snd st) \<and>
    store_ok (map (\<lambda>f. fold upd (filter (\<lambda>x. key x = flowId f) xs) f) (fst st), snd st)"
  using assms
proof (induction xs arbitrary: st)
  case (Cons x xs)
  let ?fs = "map (\<lambda>f. if flowId f = key x then upd x f else f) (fst st)"
  have x: "with_flow st (key x) (upd x) = Inr (?fs, snd st)" "store_ok (?fs, snd st)"
    using with_flow_map [OF Cons.prems(1), of "key x" "upd x"] Cons.prems(2,3) by auto
  have ids: "set (map flowId ?fs) = set (map flowId (fst st))" using Cons.prems(3) by force
  have ih: "res_fold step (?fs, snd st) (map enc xs) =
      Inr (map (\<lambda>f. fold upd (filter (\<lambda>x. key x = flowId f) xs) f) ?fs, snd st) \<and>
      store_ok (map (\<lambda>f. fold upd (filter (\<lambda>x. key x = flowId f) xs) f) ?fs, snd st)"
    using Cons.IH [OF x(2)] Cons.prems(2-) unfolding fst_conv snd_conv ids by auto
  have eq: "map (\<lambda>f. fold upd (filter (\<lambda>x. key x = flowId f) xs) f) ?fs =
      map (\<lambda>f. fold upd (filter (\<lambda>x. key x = flowId f) (x # xs)) f) (fst st)"
    using Cons.prems(3) by auto
  show ?case using ih x(1) Cons.prems(4) [of x st] unfolding eq by simp
qed simp

lemma fold_id: "(\<And>x f. flowId (upd x f) = flowId f) \<Longrightarrow> flowId (fold upd xs f) = flowId f"
  by (induction xs arbitrary: f) auto


lemma classify_elem: "classify st (tuple_elem t) = with_flow st (int (td_id t)) (\<lambda>f. f\<lparr>fiveTuple := Some (tuple_summary t)\<rparr>)"
proof -
  have "attr_int (tuple_elem t) ''flowId'' = Inr (int (td_id t))" by (simp add: tuple_elem_def attr_with_def get_attr_def)
  then show ?thesis by (simp add: classify_def FiveTuple_elem)
qed

lemma add_probe_stats_elem:
  "add_probe_stats (int i) st (probe_stats_elem p) =
     with_flow st (int (pd_id p)) (\<lambda>f. f\<lparr>probe_stats_unsorted := probe_stats_unsorted f @ [probe_summary i p]\<rparr>)"
  by (simp add: add_probe_stats_def probe_stats_elem_def attr_with_def get_attr_def parse_time_ns_time_text probe_summary_def)

lemma fold_fiveTuple:
  "distinct (map td_id ts) \<Longrightarrow>
   fold (\<lambda>t f. f\<lparr>fiveTuple := Some (tuple_summary t)\<rparr>) (filter (\<lambda>t. int (td_id t) = int i) ts) f =
     (case find (\<lambda>t. td_id t = i) ts of None \<Rightarrow> f | Some t \<Rightarrow> f\<lparr>fiveTuple := Some (tuple_summary t)\<rparr>)"
proof (induction ts)
  case (Cons t ts)
  have "filter (\<lambda>t'. td_id t' = td_id t) ts = []" using Cons.prems by (simp add: filter_empty_conv) (metis image_eqI)
  then show ?case using Cons by auto
qed simp

lemma fold_probes:
  "fold (\<lambda>(i, p) f. f\<lparr>probe_stats_unsorted := probe_stats_unsorted f @ [probe_summary i p]\<rparr>) xs f =
     f\<lparr>probe_stats_unsorted := probe_stats_unsorted f @ map (\<lambda>(i, p). probe_summary i p) xs\<rparr>"
  by (induction xs arbitrary: f) auto


lemma res_fold_concat: "res_fold (\<lambda>s xs. res_fold f s xs) s xss = res_fold f s (concat xss)"
  by (induction xss arbitrary: s) (auto simp: res_fold_append res_bind_def split: sum.split)

lemma res_fold_map: "res_fold f s (map g xs) = res_fold (\<lambda>s x. f s (g x)) s xs"
  by (induction xs arbitrary: s) (auto split: sum.split)

lemma add_probes_elem:
  "res_fold add_probe st (map probe_elem ips) =
     res_fold (\<lambda>st (i, p). add_probe_stats (int i) st (probe_stats_elem p)) st (concat (map (\<lambda>(i, ds). map (Pair i) ds) ips))"
proof -
  have kids: "findall ''FlowStats'' (Elem t a x (map probe_stats_elem ds)) = map probe_stats_elem ds" for t a x ds
    by (simp add: findall_def filter_id_conv probe_stats_elem_def)
  have "add_probe st (probe_elem (i, ds)) =
      res_fold (\<lambda>st (i, p). add_probe_stats (int i) st (probe_stats_elem p)) st (map (Pair i) ds)" for st i ds
    by (simp add: add_probe_def probe_elem_def kids attr_with_def get_attr_def res_fold_map)
  then have "(\<lambda>st ip. add_probe st (probe_elem ip)) = (\<lambda>st ip. res_fold (\<lambda>st (i, p). add_probe_stats (int i) st (probe_stats_elem p)) st
      ((\<lambda>(i, ds). map (Pair i) ds) ip))" by (auto simp: fun_eq_iff)
  then show ?thesis by (simp only: res_fold_map [of add_probe] res_fold_concat [symmetric]) (simp only: res_fold_map)
qed

lemma findall_flows: "findall_path ''FlowStats'' ''Flow'' (monitor_elem m) = map flow_elem (md_flows m)"
  by (auto simp: findall_path_def monitor_elem_def findall_def filter_id_conv flow_elem_def split: option.splits)

lemma findall_classifier:
  "findall ''Ipv4FlowClassifier'' (monitor_elem m) = [Elem ''Ipv4FlowClassifier'' [] (Some newline) (map tuple_elem (md_tuples m))]"
  "findall ''Flow'' (Elem n a y (map tuple_elem ts)) = map tuple_elem ts"
  by (auto simp: monitor_elem_def findall_def filter_id_conv tuple_elem_def split: option.splits)

lemma findall_probes:
  "findall_path ''FlowProbes'' ''FlowProbe'' (monitor_elem m) =
     map probe_elem (case md_probes m of None \<Rightarrow> [] | Some ps \<Rightarrow> enumerate 0 ps)"
  by (auto simp: findall_path_def monitor_elem_def findall_def filter_id_conv probe_elem_def split: option.splits)

lemma flow_summary_sel [simp]:
  "flowId (flow_summary d) = int (fd_id d)" "fiveTuple (flow_summary d) = None" "probe_stats_unsorted (flow_summary d) = []"
  by (simp_all add: flow_summary_def Let_def)

definition set_tuples :: "monitor_data \<Rightarrow> flow \<Rightarrow> flow" where
  "set_tuples m f = fold (\<lambda>t f. f\<lparr>fiveTuple := Some (tuple_summary t)\<rparr>) (filter (\<lambda>t. int (td_id t) = flowId f) (md_tuples m)) f"

definition set_probes :: "monitor_data \<Rightarrow> flow \<Rightarrow> flow" where
  "set_probes m f = fold (\<lambda>(i, p) f. f\<lparr>probe_stats_unsorted := probe_stats_unsorted f @ [probe_summary i p]\<rparr>)
     (filter (\<lambda>x. int (pd_id (snd x)) = flowId f) (probe_list m)) f"

lemma expected_flow_steps:
  assumes "monitor_ok m"
  shows "set_probes m (set_tuples m (flow_summary d)) = expected_flow m d"
proof -
  have "set_tuples m (flow_summary d) =
      (flow_summary d)\<lparr>fiveTuple := map_option tuple_summary (find (\<lambda>t. td_id t = fd_id d) (md_tuples m))\<rparr>"
    using assms fold_fiveTuple [of "md_tuples m" "fd_id d" "flow_summary d"]
    by (auto simp: set_tuples_def monitor_ok_def split: option.splits)
  then show ?thesis
    by (simp add: set_probes_def fold_probes expected_flow_def) (simp add: case_prod_unfold)
qed

lemma simulation_monitor:
  assumes "monitor_ok m"
  shows "Simulation (monitor_elem m) = Inr (map (expected_flow m) (md_flows m))"
proof -
  let ?fl = "map flow_summary (md_flows m)"
  have ok: "distinct (map fd_id (md_flows m))" "distinct (map td_id (md_tuples m))"
    "\<And>t. t \<in> set (md_tuples m) \<Longrightarrow> td_id t \<in> fd_id ` set (md_flows m)"
    "\<And>x. x \<in> set (probe_list m) \<Longrightarrow> pd_id (snd x) \<in> fd_id ` set (md_flows m)"
    using assms by (auto simp: monitor_ok_def list_all_iff)
  have ids: "set (map flowId ?fl) = int ` fd_id ` set (md_flows m)" by (auto simp: flow_summary_def Let_def image_image)
  obtain d where d: "res_fold add_flow ([], []) (map flow_elem (md_flows m)) = Inr (?fl, d)" "store_ok (?fl, d)"
    using add_flows [OF ok(1)] by blast
  have five: "res_fold classify (?fl, d) (map tuple_elem (md_tuples m)) = Inr (map (set_tuples m) ?fl, d) \<and>
      store_ok (map (set_tuples m) ?fl, d)"
    using update_flows [OF d(2), of "md_tuples m" "\<lambda>t. int (td_id t)" "\<lambda>t f. f\<lparr>fiveTuple := Some (tuple_summary t)\<rparr>" classify tuple_elem]
      ok(3) ids classify_elem by (auto simp: set_tuples_def [abs_def])
  have ids2: "set (map flowId (map (set_tuples m) ?fl)) = set (map flowId ?fl)" by (simp add: set_tuples_def fold_id image_image)
  have probes: "res_fold (\<lambda>st (i, p). add_probe_stats (int i) st (probe_stats_elem p)) (map (set_tuples m) ?fl, d) (probe_list m) =
      Inr (map (set_probes m) (map (set_tuples m) ?fl), d)"
    using update_flows [OF conjunct2 [OF five], of "probe_list m" "\<lambda>x. int (pd_id (snd x))"
      "\<lambda>(i, p) f. f\<lparr>probe_stats_unsorted := probe_stats_unsorted f @ [probe_summary i p]\<rparr>"
      "\<lambda>st (i, p). add_probe_stats (int i) st (probe_stats_elem p)" id]
      ok(4) ids ids2 add_probe_stats_elem by (auto simp: set_probes_def [abs_def] split: prod.splits)
  have "res_fold add_probe (map (set_tuples m) ?fl, d) (findall_path ''FlowProbes'' ''FlowProbe'' (monitor_elem m)) =
      Inr (map (set_probes m) (map (set_tuples m) ?fl), d)"
    using probes unfolding findall_probes add_probes_elem by (simp add: probe_list_def split: option.splits)
  then show ?thesis using d(1) five expected_flow_steps [OF assms]
    by (simp add: Simulation_def findall_flows findall_classifier)
qed


subsection \<open>The loop over the events\<close>

lemma main_event_simps [simp]:
  "main_event (l, sims) (True, e) = Inr (l + 1, sims)"
  "main_event (l, sims) (False, e) =
     (if l = 1 \<and> tag e = ''FlowMonitor'' then res_bind (Simulation e) (\<lambda>sim. Inr (l - 1, sims @ [sim])) else Inr (l - 1, sims))"
  by (simp_all add: main_event_def)















text \<open>The ratios of a flow are within their ranges, whatever the counters.\<close>

lemma flow_ranges:
  assumes "monitor_ok m" "Simulation (monitor_elem m) = Inr fs" "f \<in> set fs"
  shows "\<And>r. packetLossRatio f = Some r \<Longrightarrow> 0 \<le> r \<and> r < 1"
    and "\<And>d. delayMean f = Some d \<Longrightarrow> 0 \<le> d"
    and "hopCount f = -1000 \<or> 1 \<le> hopCount f"
proof -
  obtain d where f: "f = expected_flow m d" using assms simulation_monitor [OF assms(1)] by auto
  show "0 \<le> r \<and> r < 1" if "packetLossRatio f = Some r" for r
    using that by (auto simp: f expected_flow_def flow_summary_def Let_def add_pos_nonneg split: if_splits)
  show "0 \<le> x" if "delayMean f = Some x" for x
    using that by (auto simp: f expected_flow_def flow_summary_def Let_def split: if_splits)
  show "hopCount f = -1000 \<or> 1 \<le> hopCount f"
    by (auto simp: f expected_flow_def flow_summary_def Let_def)
qed

end
