(* ===== verification/Command_Task.thy ===== *)
theory Command_Task
  imports Shellcmd
begin

text \<open>
  \<open>src/waf-tools/command.py\<close>: the waf task that substitutes \<open>${...}\<close> in the words of a command line and runs it with
  \<open>shellcmd.Pipeline\<close>. Evaluating an expression in the namespace of the task is the parameter \<open>eval\<close>; its results are told apart
  as \<open>_subst_arg\<close> does: a waf node (with the path of its build and its source file), the lists of inputs and outputs of the task,
  another list, or a string. The environment of a command is substituted in the order of its dictionary.
\<close>

section \<open>Substitution\<close>

text \<open>Of a waf node, the results of \<open>bldpath()\<close>, \<open>get_bld().abspath()\<close> and \<open>srcpath()\<close> are used.\<close>

record waf_node =
  bldpath :: string
  bld_abspath :: string
  srcpath :: string

datatype subst_value = Node_value waf_node | Inputs | Outputs | List_value "string list" | Str_value string

record task =
  inputs :: "waf_node list"
  outputs :: "waf_node list"

text \<open>
  After \<open>${\<close>, the pattern \<open>(\w+)(.*?)\}\<close>: word characters, then anything up to the first closing brace on the same line.
\<close>

definition match_var :: "string \<Rightarrow> (string \<times> string \<times> string) option" where
  "match_var s =
     (let var = takeWhile word_char s;
          r = dropWhile word_char s;
          code = takeWhile (\<lambda>c. c \<noteq> CHR ''}'' \<and> c \<noteq> CHR 0x0A) r
      in case dropWhile (\<lambda>c. c \<noteq> CHR ''}'' \<and> c \<noteq> CHR 0x0A) r of
           c # rest \<Rightarrow> if var \<noteq> [] \<and> c = CHR ''}'' then Some (var, code, rest) else None
         | [] \<Rightarrow> None)"

definition repl :: "task \<Rightarrow> (string \<Rightarrow> subst_value result) \<Rightarrow> string \<Rightarrow> string \<Rightarrow> string result" where
  "repl tsk eval var code =
     res_bind (eval (var @ code)) (\<lambda>result.
       case result of
         Node_value n \<Rightarrow>
           if var = ''TGT'' then Inr (bld_abspath n) else if var = ''SRC'' then Inr (srcpath n) else Inl ValueError
       | Inputs \<Rightarrow> (case inputs tsk of [n] \<Rightarrow> Inr (srcpath n) | _ \<Rightarrow> Inl ValueError)
       | Outputs \<Rightarrow> (case outputs tsk of [n] \<Rightarrow> Inr (bld_abspath n) | _ \<Rightarrow> Inl ValueError)
       | List_value xs \<Rightarrow> (case xs of [x] \<Rightarrow> Inr x | _ \<Rightarrow> Inl AssertionError)
       | Str_value x \<Rightarrow> Inr x)"

lemma match_var_shorter: "match_var s = Some (var, code, rest) \<Longrightarrow> length rest < length s"
proof -
  assume m: "match_var s = Some (var, code, rest)"
  let ?r = "dropWhile word_char s" and ?P = "\<lambda>c. c \<noteq> CHR ''}'' \<and> c \<noteq> CHR 0x0A"
  have "dropWhile ?P ?r = CHR ''}'' # rest" using m by (auto simp: match_var_def Let_def split: list.splits if_splits)
  moreover have "length (dropWhile ?P ?r) \<le> length ?r" "length ?r \<le> length s" by (rule length_dropWhile_le)+
  ultimately show ?thesis by simp
qed

text \<open>\<open>arg_rx.sub(repl, arg)\<close>: the matches from left to right, \<open>$$\<close> first.\<close>

function subst_arg :: "task \<Rightarrow> (string \<Rightarrow> subst_value result) \<Rightarrow> string \<Rightarrow> string result" where
  "subst_arg tsk eval [] = Inr []"
| "subst_arg tsk eval (c # s) =
     (let plain = (\<lambda>_. res_bind (subst_arg tsk eval s) (\<lambda>r. Inr (c # r))) in
      if c \<noteq> CHR ''$'' then plain ()
      else case s of
        [] \<Rightarrow> plain ()
      | x # t \<Rightarrow>
          if x = CHR ''$'' then res_bind (subst_arg tsk eval t) (\<lambda>r. Inr (CHR ''$'' # r))
          else if x = CHR ''{'' then
            (case match_var t of
               None \<Rightarrow> plain ()
             | Some (var, code, rest) \<Rightarrow>
                 res_bind (repl tsk eval var code) (\<lambda>v.
                 res_bind (subst_arg tsk eval rest) (\<lambda>r. Inr (v @ r))))
          else plain ())"
  by pat_completeness auto

termination
  by (relation "measure (\<lambda>(t, e, s). length s)") (auto dest: match_var_shorter)

declare subst_arg.simps(2) [simp del]

section \<open>The task\<close>

definition subst_opt :: "(string \<Rightarrow> string result) \<Rightarrow> string option \<Rightarrow> string option result" where
  "subst_opt f x = (case x of None \<Rightarrow> Inr None | Some s \<Rightarrow> res_bind (f s) (\<lambda>r. Inr (Some r)))"

definition subst_target :: "(string \<Rightarrow> string result) \<Rightarrow> target option \<Rightarrow> target option result" where
  "subst_target f x = (case x of Some (Path s) \<Rightarrow> res_bind (f s) (\<lambda>r. Inr (Some (Path r))) | _ \<Rightarrow> Inr x)"

definition subst_env :: "(string \<Rightarrow> string result) \<Rightarrow> (string, string) dict option \<Rightarrow> (string, string) dict option result" where
  "subst_env f e =
     (case e of None \<Rightarrow> Inr None
      | Some d \<Rightarrow> res_bind (res_list (\<lambda>(k, v). res_bind (f v) (\<lambda>r. Inr (k, r))) d) (\<lambda>d'. Inr (Some d')))"

definition subst_node :: "(string \<Rightarrow> string result) \<Rightarrow> node \<Rightarrow> node result" where
  "subst_node f n =
     (case n of
        Command c \<Rightarrow>
          res_bind (subst_opt f (stdin c)) (\<lambda>i.
          res_bind (subst_target f (stdout c)) (\<lambda>out.
          res_bind (subst_target f (stderr c)) (\<lambda>err.
          res_bind (res_list f (argv c)) (\<lambda>args.
          res_bind (subst_env f (env_vars c)) (\<lambda>env.
          Inr (Command \<lparr>argv = args, stdin = i, stdout = out, stderr = err, env_vars = env\<rparr>))))))
      | Chdir d \<Rightarrow> (case d of None \<Rightarrow> Inl TypeError | Some s \<Rightarrow> res_bind (f s) (\<lambda>r. Inr (Chdir (Some r))))
      | _ \<Rightarrow> Inr n)"

text \<open>\<open>command.run\<close>: nothing is started when parsing or substituting raises.\<close>

definition run_task ::
  "system \<Rightarrow> bool \<Rightarrow> task \<Rightarrow> (string \<Rightarrow> subst_value result) \<Rightarrow> string \<Rightarrow> started list \<times> int option result" where
  "run_task sys verbose tsk eval command =
     (case res_bind (parse command) (res_list (subst_node (subst_arg tsk eval))) of
        Inl e \<Rightarrow> ([], Inl e)
      | Inr p \<Rightarrow> run sys verbose p)"

definition task_str :: "task \<Rightarrow> string \<Rightarrow> string result" where
  "task_str tsk command =
     res_bind (parse command) (\<lambda>p.
     Inr (''command ('' @ get_abbreviated_command p @ ''): '' @ py_join '' '' (map bldpath (inputs tsk)) @
       (if outputs tsk = [] then [] else '' -> '') @ py_join '' '' (map bldpath (outputs tsk))))"

section \<open>Templates\<close>

text \<open>A word as its author thinks of it: literal text, in which dollars are doubled when written, and expressions.\<close>

datatype seg = Lit string | Var string string

definition escape :: "string \<Rightarrow> string" where
  "escape s = concat (map (\<lambda>c. if c = CHR ''$'' then ''$$'' else [c]) s)"

fun seg_text :: "seg \<Rightarrow> string" where
  "seg_text (Lit s) = escape s"
| "seg_text (Var var code) = ''${'' @ var @ code @ ''}''"

fun seg_ok :: "seg \<Rightarrow> bool" where
  "seg_ok (Lit s) \<longleftrightarrow> True"
| "seg_ok (Var var code) \<longleftrightarrow> var \<noteq> [] \<and> list_all word_char var \<and> (code = [] \<or> \<not> word_char (hd code)) \<and>
     list_all (\<lambda>c. c \<noteq> CHR ''}'' \<and> c \<noteq> CHR 0x0A) code"

fun seg_value :: "task \<Rightarrow> (string \<Rightarrow> subst_value result) \<Rightarrow> seg \<Rightarrow> string result" where
  "seg_value tsk eval (Lit s) = Inr s"
| "seg_value tsk eval (Var var code) = repl tsk eval var code"

lemma subst_arg_escape:
  "subst_arg tsk eval (escape s @ r) = res_bind (subst_arg tsk eval r) (\<lambda>x. Inr (s @ x))"
proof (induction s)
  case (Cons c s)
  have bind: "res_bind (res_bind a f) g = res_bind a (\<lambda>x. res_bind (f x) g)"
    for a :: "string result" and f g :: "string \<Rightarrow> string result" by (cases a) auto
  show ?case
  proof (cases "c = CHR ''$''")
    case True
    then have "subst_arg tsk eval (escape (c # s) @ r) = res_bind (subst_arg tsk eval (escape s @ r)) (\<lambda>r. Inr (CHR ''$'' # r))"
      by (simp add: escape_def subst_arg.simps(2) [of tsk eval "CHR ''$''" "CHR ''$'' # _"])
    then show ?thesis using Cons True by (simp add: bind)
  next
    case False
    then have "subst_arg tsk eval (escape (c # s) @ r) = res_bind (subst_arg tsk eval (escape s @ r)) (\<lambda>r. Inr (c # r))"
      by (simp add: escape_def subst_arg.simps(2) [of tsk eval c])
    then show ?thesis using Cons by (simp add: bind)
  qed
qed (cases "subst_arg tsk eval r", simp_all add: escape_def)

lemma match_var_seg:
  assumes "seg_ok (Var var code)"
  shows "match_var (var @ code @ CHR ''}'' # r) = Some (var, code, r)"
proof -
  obtain c t where ct: "code @ CHR ''}'' # r = c # t" "\<not> word_char c" using assms by (cases code) (auto simp: word_char_def Let_def)
  have all: "\<And>x. x \<in> set var \<Longrightarrow> word_char x" using assms by (simp add: list_all_iff)
  have var: "takeWhile word_char (var @ code @ CHR ''}'' # r) = var" "dropWhile word_char (var @ code @ CHR ''}'' # r) = code @ CHR ''}'' # r"
    unfolding ct(1) using ct(2) by (simp_all add: takeWhile_append2 dropWhile_append2 all)
  have code: "takeWhile (\<lambda>c. c \<noteq> CHR ''}'' \<and> c \<noteq> CHR 0x0A) (code @ CHR ''}'' # r) = code"
    "dropWhile (\<lambda>c. c \<noteq> CHR ''}'' \<and> c \<noteq> CHR 0x0A) (code @ CHR ''}'' # r) = CHR ''}'' # r"
    using assms by (auto simp: list_all_iff takeWhile_append dropWhile_append)
  show ?thesis using assms by (simp add: match_var_def var code)
qed

lemma subst_arg_var:
  assumes "seg_ok (Var var code)"
  shows "subst_arg tsk eval (seg_text (Var var code) @ r) =
    res_bind (repl tsk eval var code) (\<lambda>v. res_bind (subst_arg tsk eval r) (\<lambda>x. Inr (v @ x)))"
  using match_var_seg [OF assms, of r]
  by (simp add: subst_arg.simps(2) [of tsk eval "CHR ''$''" "CHR ''{'' # _"])

text \<open>
  C27. Substitution does what the author of a word means: for a word written from literal pieces, with their dollars doubled, and
  expressions \<open>${var code}\<close>, the result is the literal pieces as they are and the values of the expressions, in order, and
  an exception is that of the first expression that raises.
\<close>

theorem subst_arg_segments:
  assumes "list_all seg_ok segs"
  shows "subst_arg tsk eval (concat (map seg_text segs)) = res_bind (res_list (seg_value tsk eval) segs) (\<lambda>vs. Inr (concat vs))"
  using assms
proof (induction segs)
  case (Cons g segs)
  then show ?case
    by (cases g; cases "res_list (seg_value tsk eval) segs")
      (auto simp: subst_arg_escape subst_arg_var simp del: seg_text.simps(2) split: sum.split)
qed simp

theorem subst_arg_segments_witness:
  "subst_arg \<lparr>inputs = [\<lparr>bldpath = ''b/a.c'', bld_abspath = ''/w/b/a.c'', srcpath = ''../a.c''\<rparr>], outputs = []\<rparr>
     (\<lambda>e. if e = ''SRC'' then Inr Inputs else if e = ''N[0]'' then Inr (Str_value ''5'') else Inl NameError) ''$$x=${SRC} ${N[0]}'' = Inr ''$x=../a.c 5''"
proof -
  let ?segs = "[Lit ''$x='', Var ''SRC'' [], Lit '' '', Var ''N'' ''[0]'']"
  have ok: "list_all seg_ok ?segs" by (simp add: word_char_def)
  have written: "concat (map seg_text ?segs) = ''$$x=${SRC} ${N[0]}''" by (simp add: escape_def)
  show ?thesis using subst_arg_segments [OF ok] unfolding written by (simp add: repl_def)
qed

section \<open>Running a literal command\<close>

fun escape_node :: "node \<Rightarrow> node" where
  "escape_node (Command c) = Command \<lparr>argv = map escape (argv c), stdin = map_option escape (stdin c),
     stdout = (case stdout c of Some (Path s) \<Rightarrow> Some (Path (escape s)) | x \<Rightarrow> x),
     stderr = (case stderr c of Some (Path s) \<Rightarrow> Some (Path (escape s)) | x \<Rightarrow> x),
     env_vars = map_option (map (\<lambda>(k, v). (k, escape v))) (env_vars c)\<rparr>"
| "escape_node (Chdir d) = Chdir (map_option escape d)"
| "escape_node n = n"

lemma subst_arg_escaped [simp]: "subst_arg tsk eval (escape s) = Inr s"
  using subst_arg_escape [of tsk eval s "[]"] by simp

lemma subst_node_escape: "n \<noteq> Chdir None \<Longrightarrow> subst_node (subst_arg tsk eval) (escape_node n) = Inr n"
proof (cases n)
  case (Command c)
  have "res_list (subst_arg tsk eval) (map escape ws) = Inr ws" for ws by (induction ws) auto
  moreover have "subst_target (subst_arg tsk eval) (case t of Some (Path s) \<Rightarrow> Some (Path (escape s)) | x \<Rightarrow> x) = Inr t" for t
    by (auto simp: subst_target_def split: option.split target.split)
  moreover have "res_list (\<lambda>(k, v). res_bind (subst_arg tsk eval v) (\<lambda>r. Inr (k, r))) (map (\<lambda>(k, v). (k, escape v)) d) = Inr d"
    for d :: "(string, string) dict"
    by (induction d) auto
  then have "subst_env (subst_arg tsk eval) (map_option (map (\<lambda>(k, v). (k, escape v))) e) = Inr e" for e
    by (simp add: subst_env_def split: option.split)
  moreover have "subst_opt (subst_arg tsk eval) (map_option escape x) = Inr x" for x
    by (simp add: subst_opt_def split: option.split)
  ultimately show ?thesis using Command by (simp add: subst_node_def)
qed (auto simp: subst_node_def split: option.splits)

lemma escape_node_simps [simp]:
  "escape_node n = Pipe \<longleftrightarrow> n = Pipe" "escape_node n = And \<longleftrightarrow> n = And" "escape_node n = Or \<longleftrightarrow> n = Or"
  by (cases n; simp)+

lemma well_formed_escape: "well_formed p \<Longrightarrow> well_formed (map escape_node p)"
  by (induction p rule: well_formed.induct) (auto split: option.splits target.splits)

text \<open>
  C14. Task and pipeline together: a command line whose dollars are doubled is run literally. For a well-formed pipeline whose words,
  with the dollars doubled, are plain words, the task started with the printed line starts the same processes and returns the
  same result as the pipeline itself, whatever the variables of the task are.
\<close>

theorem run_task_literal:
  assumes "well_formed p" "Chdir None \<notin> set p" "list_all printable (map escape_node p)"
    and "list_all (\<lambda>w. w \<noteq> [] \<and> list_all plain_char w) (render (map escape_node p))"
  shows "run_task sys verbose tsk eval (py_join '' '' (render (map escape_node p))) = run sys verbose p"
proof -
  have "parse (py_join '' '' (render (map escape_node p))) = Inr (map escape_node p)"
    using parse_command_line [OF well_formed_escape [OF assms(1)] assms(3,4)] by blast
  moreover have "res_list (subst_node (subst_arg tsk eval)) (map escape_node p) = Inr p"
    using assms(2) by (induction p) (auto simp: subst_node_escape)
  ultimately show ?thesis by (simp add: run_task_def)
qed

theorem run_task_literal_witness:
  "run_task \<lparr>can_read = \<lambda>_. True, can_write = \<lambda>_. True, exit_of = \<lambda>_. Inr 0\<rparr> False \<lparr>inputs = [], outputs = []\<rparr> (\<lambda>_. Inl NameError) ''echo $$HOME > out'' =
     ([\<lparr>s_argv = [''echo'', ''$HOME''], s_stdin = Inherited, s_stdout = Some (Path ''out''), s_stderr = None, s_env = None, s_cwd = None\<rparr>], Inr (Some 0))"
proof -
  let ?p = "[Command \<lparr>argv = [''echo'', ''$HOME''], stdin = None, stdout = Some (Path ''out''), stderr = None, env_vars = None\<rparr>]"
  have q: "map escape_node ?p = [Command \<lparr>argv = [''echo'', ''$$HOME''], stdin = None, stdout = Some (Path ''out''), stderr = None, env_vars = None\<rparr>]"
    by (simp add: escape_def)
  have r: "render (map escape_node ?p) = [''echo'', ''$$HOME'', ''>'', ''out'']" unfolding q by (simp add: render_def render_command_def)
  have "list_all printable (map escape_node ?p)" unfolding q by (simp add: specials_def printable_env_def env_var_match_def)
  moreover have "list_all (\<lambda>w. w \<noteq> [] \<and> list_all plain_char w) (render (map escape_node ?p))"
    unfolding r by (simp add: plain_char_def shlex_space_def shlex_quote_def)
  ultimately have "run_task sys False tsk eval (py_join '' '' (render (map escape_node ?p))) = run sys False ?p" for sys tsk eval
    by (intro run_task_literal) simp_all
  from this [unfolded r] show ?thesis
    by (simp add: run_def start_command_def out_ok_def exec_piped_commands_def)
qed

end
