(* ===== verification/Viz_Stats.thy ===== *)
theory Viz_Stats
  imports Viz_Samples
begin

text \<open>
  The plugin \<open>src/visualizer/visualizer/plugins/interface_statistics.py\<close>: the collector keeps the counters of the interfaces of every node
  for the last ten sampling periods; a window shows the counters and the rates over these periods. What the simulator
  reports in a period is a list of nodes with the counters of their interfaces; the names of the interfaces are a parameter.
\<close>

section \<open>The collector\<close>

record iface_counters =
  transmittedPackets :: int
  transmittedBytes :: int
  receivedPackets :: int
  receivedBytes :: int

record net_dev_stats =
  nd_rxPackets :: int
  nd_rxBytes :: int
  nd_txPackets :: int
  nd_txBytes :: int
  nd_rxPacketRate :: rat
  nd_rxBitRate :: rat
  nd_txPacketRate :: rat
  nd_txBitRate :: rat

definition NODE_STATISTICS_MEMORY :: nat where
  "NODE_STATISTICS_MEMORY = 10"

type_synonym node_statistics = "(nat, iface_counters list list) dict"

text \<open>\<open>simulation_periodic_update\<close> for one node, and for all the simulator reports\<close>

definition collect_node :: "node_statistics \<Rightarrow> nat \<times> iface_counters list \<Rightarrow> node_statistics" where
  "collect_node st stats =
     (let raw_stats_list = (case map_of st (fst stats) of None \<Rightarrow> [] | Some l \<Rightarrow> l)
      in dict_set (fst stats) (trim NODE_STATISTICS_MEMORY (raw_stats_list @ [snd stats])) st)"

definition collect_statistics :: "node_statistics \<Rightarrow> (nat \<times> iface_counters list) list \<Rightarrow> node_statistics" where
  "collect_statistics st nodes_statistics = foldl collect_node st nodes_statistics"

definition iface_rates :: "rat \<Rightarrow> iface_counters list \<Rightarrow> nat \<times> iface_counters \<Rightarrow> net_dev_stats result" where
  "iface_rates k old cur =
     (case cur of (iface, stats) \<Rightarrow>
        res_bind (py_get old (int iface)) (\<lambda>first.
        if k = 0 then Inl ZeroDivisionError
        else Inr \<lparr>nd_rxPackets = receivedPackets stats, nd_rxBytes = receivedBytes stats,
                  nd_txPackets = transmittedPackets stats, nd_txBytes = transmittedBytes stats,
                  nd_rxPacketRate = of_int (receivedPackets stats - receivedPackets first) / k,
                  nd_rxBitRate = of_int (receivedBytes stats - receivedBytes first) * 8 / k,
                  nd_txPacketRate = of_int (transmittedPackets stats - transmittedPackets first) / k,
                  nd_txBitRate = of_int (transmittedBytes stats - transmittedBytes first) * 8 / k\<rparr>))"

definition get_interface_statistics :: "rat \<Rightarrow> node_statistics \<Rightarrow> nat \<Rightarrow> net_dev_stats list result" where
  "get_interface_statistics sample_period st nodeId =
     (case map_of st nodeId of
        None \<Rightarrow> Inr []
      | Some raw_stats_list \<Rightarrow>
          if length raw_stats_list < NODE_STATISTICS_MEMORY then Inr []
          else if length raw_stats_list \<noteq> NODE_STATISTICS_MEMORY then Inl AssertionError
          else res_list (iface_rates (sample_period * of_nat (NODE_STATISTICS_MEMORY - 1)) (hd raw_stats_list))
                 (enumerate 0 (last raw_stats_list)))"

section \<open>The window\<close>

text \<open>\<open>ShowInterfaceStatistics.update\<close>: one row per interface; a name that is not set is empty.\<close>

definition statistics_rows ::
  "(nat \<Rightarrow> nat \<Rightarrow> string) \<Rightarrow> rat \<Rightarrow> node_statistics \<Rightarrow> nat \<Rightarrow> (string \<times> net_dev_stats) list result" where
  "statistics_rows find_name sample_period st node_index =
     res_bind (get_interface_statistics sample_period st node_index) (\<lambda>stats_list.
     Inr (map (\<lambda>(iface, stats).
            (let name = find_name node_index iface
             in if name = [] then ''(interface '' @ nat_str iface @ '')'' else name, stats)) (enumerate 0 stats_list)))"

section \<open>What the window shows\<close>

text \<open>The reports about one node, in order, and the rates the window should show for it.\<close>

definition reports :: "nat \<Rightarrow> (nat \<times> iface_counters list) list list \<Rightarrow> iface_counters list list" where
  "reports n us = map snd (filter (\<lambda>s. fst s = n) (concat us))"

definition rates :: "rat \<Rightarrow> iface_counters \<Rightarrow> iface_counters \<Rightarrow> net_dev_stats" where
  "rates p old new =
     \<lparr>nd_rxPackets = receivedPackets new, nd_rxBytes = receivedBytes new,
      nd_txPackets = transmittedPackets new, nd_txBytes = transmittedBytes new,
      nd_rxPacketRate = of_int (receivedPackets new - receivedPackets old) / (9 * p),
      nd_rxBitRate = of_int (receivedBytes new - receivedBytes old) * 8 / (9 * p),
      nd_txPacketRate = of_int (transmittedPackets new - transmittedPackets old) / (9 * p),
      nd_txBitRate = of_int (transmittedBytes new - transmittedBytes old) * 8 / (9 * p)\<rparr>"

lemma collect_nodes:
  "map_of (foldl collect_node [] ss) n =
     (let h = map snd (filter (\<lambda>s. fst s = n) ss) in if h = [] then None else Some (drop (length h - 10) h))"
proof (induction ss rule: rev_induct)
  case (snoc s ss)
  let ?h = "map snd (filter (\<lambda>s. fst s = n) ss)"
  show ?case
  proof (cases "fst s = n")
    case True
    have "trim 10 ((if ?h = [] then [] else drop (length ?h - 10) ?h) @ [snd s]) = drop (length (?h @ [snd s]) - 10) (?h @ [snd s])"
      using trim_snoc [of 10 ?h "snd s"] by (cases "?h = []") simp_all
    then show ?thesis using snoc True
      by (simp add: collect_node_def NODE_STATISTICS_MEMORY_def Let_def split: if_splits)
  next
    case False
    then show ?thesis using snoc by (simp add: collect_node_def Let_def)
  qed
qed simp

lemma foldl_collect: "foldl collect_statistics st us = foldl collect_node st (concat us)"
  by (induction us arbitrary: st) (auto simp: collect_statistics_def)

lemma res_list_rates:
  assumes "0 < p" "length new \<le> length old"
  shows "res_list (iface_rates (p * 9) old) (enumerate 0 new) = Inr (map2 (rates p) old new)"
proof -
  have "list_all2 (\<lambda>x y. iface_rates (p * 9) old x = Inr y) (enumerate 0 new) (map2 (rates p) old new)"
  proof (rule list_all2_all_nthI)
    fix i assume "i < length (enumerate 0 new)"
    then have i: "i < length new" "i < length old" using assms(2) by auto
    then show "iface_rates (p * 9) old (enumerate 0 new ! i) = Inr (map2 (rates p) old new ! i)"
      using assms(1) py_get_nat [of i old] by (simp add: iface_rates_def rates_def nth_enumerate_eq mult.commute)
  qed (use assms(2) in simp)
  then show ?thesis by (simp add: res_list_Inr_iff)
qed

lemma res_list_rates_error:
  assumes "0 < p" "length old < length new"
  shows "res_list (iface_rates (p * 9) old) (enumerate 0 new) = Inl IndexError"
proof -
  let ?r = "res_list (iface_rates (p * 9) old) (enumerate 0 new)"
  have err: "iface_rates (p * 9) old x = Inl e \<Longrightarrow> e = IndexError" for x e
    using assms(1) by (auto simp: iface_rates_def py_get_def split: prod.splits if_splits)
  have "\<exists>e. ?r = Inl e"
  proof (cases ?r)
    case (Inr ys)
    then have "iface_rates (p * 9) old (enumerate 0 new ! length old) = Inr (ys ! length old)"
      using assms(2) by (auto simp: res_list_Inr_iff list_all2_conv_all_nth)
    then show ?thesis using assms(2) by (simp add: iface_rates_def nth_enumerate_eq py_get_def)
  qed simp
  moreover have "res_list f xs = Inl e \<Longrightarrow> \<exists>x. f x = Inl e" for f :: "nat \<times> iface_counters \<Rightarrow> net_dev_stats result" and xs e
    by (induction xs) (auto split: sum.splits)
  ultimately show ?thesis using err by metis
qed

text \<open>
  C40. After any sequence of sampling periods, the statistics of a node are those of its last ten reports: nothing before there are ten, and
  then for every interface its present counters and the packets and bits per second over the nine periods between the
  oldest and the newest of them; older reports have no influence. A node with more interfaces now than ten
  reports ago raises \<open>IndexError\<close>.
\<close>

theorem interface_statistics_rates:
  assumes "0 < p"
  shows "get_interface_statistics p (foldl collect_statistics [] us) n =
    (let h = reports n us; old = h ! (length h - 10)
     in if length h < 10 then Inr []
        else if length old < length (last h) then Inl IndexError
        else Inr (map2 (rates p) old (last h)))"
proof -
  define h where "h = reports n us"
  have st: "map_of (foldl collect_statistics [] us) n = (if h = [] then None else Some (drop (length h - 10) h))"
    unfolding foldl_collect collect_nodes h_def reports_def Let_def by simp
  show ?thesis
  proof (cases "length h < 10")
    case True
    then show ?thesis by (simp add: get_interface_statistics_def st NODE_STATISTICS_MEMORY_def flip: h_def)
  next
    case False
    then have "hd (drop (length h - 10) h) = h ! (length h - 10)" "last (drop (length h - 10) h) = last h" "h \<noteq> []"
      by (auto simp: hd_drop_conv_nth)
    then show ?thesis using False res_list_rates [OF assms] res_list_rates_error [OF assms]
      by (simp add: get_interface_statistics_def st NODE_STATISTICS_MEMORY_def Let_def flip: h_def)
  qed
qed

theorem interface_statistics_rates_witness:
  "get_interface_statistics (1 / 10)
     (foldl collect_statistics [] (map (\<lambda>i. [(7, [\<lparr>transmittedPackets = i, transmittedBytes = 100 * i, receivedPackets = 0, receivedBytes = 0\<rparr>])])
        [0, 1, 2, 3, 4, 5, 6, 7, 8, 9, 10, 11])) 7 =
   Inr [\<lparr>nd_rxPackets = 0, nd_rxBytes = 0, nd_txPackets = 11, nd_txBytes = 1100, nd_rxPacketRate = 0, nd_rxBitRate = 0,
         nd_txPacketRate = 10, nd_txBitRate = 8000\<rparr>]"
  by (subst interface_statistics_rates) (simp_all add: reports_def rates_def)

end
