(* ===== verification/Viz_Wifi.thy ===== *)
theory Viz_Wifi
  imports Viz_Scene
begin

text \<open>
  The plugin \<open>src/visualizer/visualizer/plugins/wifi_intrastructure_link.py\<close>, which draws a dashed line from every station to its access point.
  Links are objects in a store; a node refers to the links of its list \<open>links\<close> by their position in the store (only the
  links of this plugin are listed here). A destroyed link has lost its station. Positions of the nodes and the state of the
  devices (link up, BSSID) come from the simulator.
\<close>

section \<open>Links\<close>

type_synonym device_id = "nat \<times> nat"

record wifi_link =
  wl_sta :: "nat option"
  wl_dev :: device_id
  wl_ap :: "nat option"
  wl_visible :: bool
  wl_points :: "(point \<times> point) option"

record wifi_monitor =
  access_points :: "(string, nat) dict"
  stations :: "(device_id \<times> nat \<times> nat) list"
  wl_store :: "wifi_link list"
  node_links :: "(nat, nat list) dict"

definition links_of :: "wifi_monitor \<Rightarrow> nat \<Rightarrow> nat list" where
  "links_of m n = (case map_of (node_links m) n of None \<Rightarrow> [] | Some ls \<Rightarrow> ls)"

definition wifi_add_link :: "nat \<Rightarrow> nat \<Rightarrow> wifi_monitor \<Rightarrow> wifi_monitor" where
  "wifi_add_link n l m = m\<lparr>node_links := dict_set n (links_of m n @ [l]) (node_links m)\<rparr>"

definition wifi_remove_link :: "nat \<Rightarrow> nat \<Rightarrow> wifi_monitor \<Rightarrow> wifi_monitor result" where
  "wifi_remove_link n l m =
     (if l \<in> set (links_of m n) then Inr (m\<lparr>node_links := dict_set n (remove1 l (links_of m n)) (node_links m)\<rparr>)
      else Inl ValueError)"

definition upd_link :: "nat \<Rightarrow> (wifi_link \<Rightarrow> wifi_link) \<Rightarrow> wifi_monitor \<Rightarrow> wifi_monitor" where
  "upd_link l f m = m\<lparr>wl_store := (wl_store m)[l := f (wl_store m ! l)]\<rparr>"

definition wifi_update_points :: "(nat \<Rightarrow> point) \<Rightarrow> nat \<Rightarrow> wifi_monitor \<Rightarrow> wifi_monitor" where
  "wifi_update_points pos l m =
     (case wl_ap (wl_store m ! l) of
        None \<Rightarrow> m
      | Some ap \<Rightarrow> upd_link l (\<lambda>w. w\<lparr>wl_points := map_option (\<lambda>sta. (pos sta, pos ap)) (wl_sta w)\<rparr>) m)"

definition set_ap :: "(nat \<Rightarrow> point) \<Rightarrow> nat \<Rightarrow> nat option \<Rightarrow> wifi_monitor \<Rightarrow> wifi_monitor result" where
  "set_ap pos l ap m =
     (if ap = wl_ap (wl_store m ! l) then Inr m
      else res_bind (case wl_ap (wl_store m ! l) of None \<Rightarrow> Inr m | Some old \<Rightarrow> wifi_remove_link old l m) (\<lambda>m.
           let m = upd_link l (\<lambda>w. w\<lparr>wl_ap := ap\<rparr>) m;
               m = (case ap of
                      None \<Rightarrow> upd_link l (\<lambda>w. w\<lparr>wl_visible := False\<rparr>) m
                    | Some n \<Rightarrow> upd_link l (\<lambda>w. w\<lparr>wl_visible := True\<rparr>) (wifi_add_link n l m))
           in Inr (wifi_update_points pos l m)))"

text \<open>The constructor ends with \<open>set_ap(None)\<close>, which returns at once; the canvas item stays visible, without points.\<close>

definition new_wifi_link :: "nat \<Rightarrow> device_id \<Rightarrow> wifi_link" where
  "new_wifi_link sta dev = \<lparr>wl_sta = Some sta, wl_dev = dev, wl_ap = None, wl_visible = True, wl_points = None\<rparr>"

definition destroy_link :: "wifi_monitor \<Rightarrow> nat \<Rightarrow> wifi_monitor" where
  "destroy_link m l = upd_link l (\<lambda>w. w\<lparr>wl_sta := None, wl_ap := None, wl_visible := False\<rparr>) m"

section \<open>The monitor\<close>

datatype wifi_device = Not_wifi | Sta_device | Ap_device string | Other_mac

definition new_wifi_monitor :: wifi_monitor where
  "new_wifi_monitor = \<lparr>access_points = [], stations = [], wl_store = [], node_links = []\<rparr>"

definition scan_wifi_device :: "wifi_monitor \<Rightarrow> (nat \<times> nat) \<times> wifi_device \<Rightarrow> wifi_monitor" where
  "scan_wifi_device m d =
     (case d of ((node, devI), dev) \<Rightarrow>
        case dev of
          Sta_device \<Rightarrow> m\<lparr>wl_store := wl_store m @ [new_wifi_link node (node, devI)],
                          stations := stations m @ [((node, devI), node, length (wl_store m))]\<rparr>
        | Ap_device bssid \<Rightarrow> m\<lparr>access_points := dict_set bssid node (access_points m)\<rparr>
        | _ \<Rightarrow> m)"

text \<open>\<open>scan_nodes\<close>: the devices of all nodes, in the order of \<open>viz.nodes\<close>\<close>

definition scan_nodes :: "((nat \<times> nat) \<times> wifi_device) list \<Rightarrow> wifi_monitor \<Rightarrow> wifi_monitor" where
  "scan_nodes devices m =
     foldl scan_wifi_device
       ((foldl destroy_link m (map (snd \<circ> snd) (stations m)))\<lparr>access_points := [], stations := []\<rparr>) devices"

record wifi_env =
  positions :: "nat \<Rightarrow> point"
  link_up :: "device_id \<Rightarrow> bool"
  bssid_of :: "device_id \<Rightarrow> string"

definition update_station :: "wifi_env \<Rightarrow> wifi_monitor \<Rightarrow> device_id \<times> nat \<times> nat \<Rightarrow> wifi_monitor result" where
  "update_station env m st =
     (case st of (dev, node, l) \<Rightarrow>
        if \<not> link_up env dev then set_ap (positions env) l None m
        else if bssid_of env dev = ''00:00:00:00:00:00'' then set_ap (positions env) l None m
        else res_bind (dict_get (access_points m) (bssid_of env dev)) (\<lambda>ap. set_ap (positions env) l (Some ap) m))"

definition wifi_periodic_update :: "wifi_env \<Rightarrow> wifi_monitor \<Rightarrow> wifi_monitor result" where
  "wifi_periodic_update env m = res_fold (update_station env) m (stations m)"

definition wifi_update_view :: "(nat \<Rightarrow> point) \<Rightarrow> wifi_monitor \<Rightarrow> wifi_monitor" where
  "wifi_update_view pos m = foldl (\<lambda>m st. wifi_update_points pos (snd (snd st)) m) m (stations m)"

text \<open>
  The signals the plugin is connected to, in any order; when an update raises, the stations before the one that
  raised have been updated.
\<close>

inductive wifi_step :: "wifi_monitor \<Rightarrow> wifi_monitor \<Rightarrow> bool" where
  scanned: "wifi_step m (scan_nodes devices m)"
| sampled: "stations m = pre @ rest \<Longrightarrow> res_fold (update_station env) m pre = Inr m' \<Longrightarrow> wifi_step m m'"
| viewed: "wifi_step m (wifi_update_view pos m)"

section \<open>The lists of links\<close>

lemma links_of_changes:
  "links_of (wifi_add_link n l m) k = (if k = n then links_of m n @ [l] else links_of m k)"
  "wifi_remove_link n l m = Inr m' \<Longrightarrow> links_of m' k = (if k = n then remove1 l (links_of m n) else links_of m k)"
  "links_of (upd_link l f m) k = links_of m k"
  by (auto simp: links_of_def wifi_add_link_def wifi_remove_link_def upd_link_def split: if_splits)

lemma wifi_frame [simp]:
  "stations (upd_link l f m) = stations m" "access_points (upd_link l f m) = access_points m"
  "node_links (upd_link l f m) = node_links m" "length (wl_store (upd_link l f m)) = length (wl_store m)"
  "stations (wifi_add_link n l m) = stations m" "access_points (wifi_add_link n l m) = access_points m" "wl_store (wifi_add_link n l m) = wl_store m"
  "stations (wifi_update_points pos l m) = stations m" "access_points (wifi_update_points pos l m) = access_points m"
  "node_links (wifi_update_points pos l m) = node_links m" "length (wl_store (wifi_update_points pos l m)) = length (wl_store m)"
  by (auto simp: upd_link_def wifi_add_link_def wifi_update_points_def split: option.split)

lemma wifi_remove_frame:
  "wifi_remove_link n l m = Inr m' \<Longrightarrow> stations m' = stations m \<and> access_points m' = access_points m \<and> wl_store m' = wl_store m"
  by (auto simp: wifi_remove_link_def split: if_splits)

lemma upd_link_nth: "l < length (wl_store m) \<Longrightarrow> wl_store (upd_link l f m) ! k = (if k = l then f (wl_store m ! l) else wl_store m ! k)"
  by (simp add: upd_link_def nth_list_update)

lemma update_points_wl:
  assumes "l < length (wl_store m)"
  shows "wl_store (wifi_update_points pos l m) ! k = (if k = l then (wl_store m ! l)\<lparr>wl_points :=
      (case wl_ap (wl_store m ! l) of None \<Rightarrow> wl_points (wl_store m ! l) | Some ap \<Rightarrow> map_option (\<lambda>sta. (pos sta, pos ap)) (wl_sta (wl_store m ! l)))\<rparr>
    else wl_store m ! k)"
  using assms by (auto simp: wifi_update_points_def upd_link_nth split: option.split)

definition station_links :: "wifi_monitor \<Rightarrow> nat list" where
  "station_links m = map (snd \<circ> snd) (stations m)"

definition link_shown :: "wifi_link \<Rightarrow> bool" where
  "link_shown w \<longleftrightarrow> wl_visible w \<and> wl_points w \<noteq> None"

definition wifi_inv :: "wifi_monitor \<Rightarrow> bool" where
  "wifi_inv m \<longleftrightarrow> distinct (station_links m) \<and>
     (\<forall>(dev, node, l) \<in> set (stations m). l < length (wl_store m) \<and> wl_sta (wl_store m ! l) = Some node) \<and>
     (\<forall>l \<in> set (station_links m). link_shown (wl_store m ! l) \<longleftrightarrow> wl_ap (wl_store m ! l) \<noteq> None) \<and>
     (\<forall>l \<in> set (station_links m). \<forall>n. count (mset (links_of m n)) l = (if wl_ap (wl_store m ! l) = Some n then 1 else 0)) \<and>
     (\<forall>n. \<forall>l \<in> set (links_of m n). l < length (wl_store m))"

lemma wifi_invD:
  assumes "wifi_inv m" "l \<in> set (station_links m)"
  shows "l < length (wl_store m)" "\<exists>node. wl_sta (wl_store m ! l) = Some node"
    "count (mset (links_of m n)) l = (if wl_ap (wl_store m ! l) = Some n then 1 else 0)"
    "link_shown (wl_store m ! l) \<longleftrightarrow> wl_ap (wl_store m ! l) \<noteq> None"
proof -
  show "link_shown (wl_store m ! l) \<longleftrightarrow> wl_ap (wl_store m ! l) \<noteq> None"
    using assms unfolding wifi_inv_def by blast
  show "count (mset (links_of m n)) l = (if wl_ap (wl_store m ! l) = Some n then 1 else 0)"
    using assms unfolding wifi_inv_def by blast
  obtain dev node where "(dev, node, l) \<in> set (stations m)" using assms(2) by (auto simp: station_links_def)
  then show "l < length (wl_store m)" "\<exists>node. wl_sta (wl_store m ! l) = Some node" using assms(1) by (auto simp: wifi_inv_def)
qed

text \<open>\<open>set_ap\<close> on the link of a station never raises; it moves the link to the list of its new access point.\<close>

lemma set_ap_step:
  assumes inv: "wifi_inv m" and l: "l \<in> set (station_links m)"
  shows "\<exists>m'. set_ap pos l ap m = Inr m' \<and> wifi_inv m' \<and> stations m' = stations m \<and> access_points m' = access_points m \<and>
    wl_ap (wl_store m' ! l) = ap \<and> (\<forall>k. k \<noteq> l \<longrightarrow> wl_store m' ! k = wl_store m ! k)"
proof (cases "ap = wl_ap (wl_store m ! l)")
  case True
  then show ?thesis using inv by (simp add: set_ap_def)
next
  case False
  note len = wifi_invD(1) [OF inv l] and cnt = wifi_invD(3) [OF inv l]
  obtain m1 where m1: "(case wl_ap (wl_store m ! l) of None \<Rightarrow> Inr m | Some old \<Rightarrow> wifi_remove_link old l m) = Inr m1"
    "stations m1 = stations m" "access_points m1 = access_points m" "wl_store m1 = wl_store m"
    "\<And>n. links_of m1 n = (if wl_ap (wl_store m ! l) = Some n then remove1 l (links_of m n) else links_of m n)"
  proof (cases "wl_ap (wl_store m ! l)")
    case (Some old)
    then have "l \<in> set (links_of m old)" using cnt [of old] by (metis count_mset_0_iff zero_neq_one)
    then obtain m1 where "wifi_remove_link old l m = Inr m1" by (simp add: wifi_remove_link_def)
    then show ?thesis using that [of m1] Some wifi_remove_frame links_of_changes(2) by auto
  qed (use that [of m] in simp)
  define m2 where "m2 = upd_link l (\<lambda>w. w\<lparr>wl_ap := ap\<rparr>) m1"
  define m3 where "m3 = (case ap of None \<Rightarrow> upd_link l (\<lambda>w. w\<lparr>wl_visible := False\<rparr>) m2
      | Some n \<Rightarrow> upd_link l (\<lambda>w. w\<lparr>wl_visible := True\<rparr>) (wifi_add_link n l m2))"
  define m4 where "m4 = wifi_update_points pos l m3"
  have eq: "set_ap pos l ap m = Inr m4" unfolding set_ap_def m4_def m3_def m2_def Let_def m1(1) using False by simp
  have st: "stations m4 = stations m" "access_points m4 = access_points m" "length (wl_store m4) = length (wl_store m)"
    unfolding m4_def m3_def m2_def by (simp_all add: m1 split: option.split)
  have other: "wl_store m4 ! k = wl_store m ! k" if "k \<noteq> l" for k
    using that len unfolding m4_def m3_def m2_def by (simp add: update_points_wl upd_link_nth m1 split: option.split)
  have own: "wl_ap (wl_store m4 ! l) = ap" "wl_sta (wl_store m4 ! l) = wl_sta (wl_store m ! l)"
    using len unfolding m4_def m3_def m2_def by (simp_all add: update_points_wl upd_link_nth m1 split: option.split)
  have shown: "link_shown (wl_store m4 ! l) \<longleftrightarrow> ap \<noteq> None"
    using len wifi_invD(2) [OF inv l] unfolding m4_def m3_def m2_def link_shown_def
    by (auto simp: update_points_wl upd_link_nth m1 split: option.split)
  have links: "links_of m4 n = (if ap = Some n then links_of m1 n @ [l] else links_of m1 n)" for n
    unfolding m4_def m3_def m2_def by (cases ap) (auto simp: links_of_def upd_link_def wifi_add_link_def wifi_update_points_def split: option.split)
  have "count (mset (links_of m4 n)) k = (if wl_ap (wl_store m4 ! k) = Some n then 1 else 0)" if "k \<in> set (station_links m)" for k n
    using wifi_invD(3) [OF inv that, of n] cnt [of n] False own(1) other [of k]
    by (cases "k = l") (auto simp: links m1(5) simp del: count_mset_0_iff)
  moreover have "k < length (wl_store m)" if "k \<in> set (links_of m4 n)" for k n
    using that inv len by (auto simp: links m1(5) wifi_inv_def split: if_splits dest: subsetD [OF set_remove1_subset])
  moreover have "k < length (wl_store m) \<and> wl_sta (wl_store m4 ! k) = Some node" if "(dev, node, k) \<in> set (stations m)" for dev node k
    using that inv own(2) other [of k] by (cases "k = l") (auto simp: wifi_inv_def)
  moreover have "link_shown (wl_store m4 ! k) \<longleftrightarrow> wl_ap (wl_store m4 ! k) \<noteq> None" if "k \<in> set (station_links m)" for k
    using wifi_invD(4) [OF inv that] own shown other [of k] by (cases "k = l") auto
  ultimately have "wifi_inv m4" using inv st by (auto simp: wifi_inv_def station_links_def)
  then show ?thesis using eq st own(1) other by blast
qed


text \<open>The access point a station should be linked to, and whether the monitor knows it.\<close>

definition station_target :: "wifi_env \<Rightarrow> (string, nat) dict \<Rightarrow> device_id \<Rightarrow> nat option" where
  "station_target env aps dev =
     (if link_up env dev \<and> bssid_of env dev \<noteq> ''00:00:00:00:00:00'' then map_of aps (bssid_of env dev) else None)"

definition station_known :: "wifi_env \<Rightarrow> (string, nat) dict \<Rightarrow> device_id \<Rightarrow> bool" where
  "station_known env aps dev \<longleftrightarrow>
     \<not> link_up env dev \<or> bssid_of env dev = ''00:00:00:00:00:00'' \<or> map_of aps (bssid_of env dev) \<noteq> None"

lemma update_station_eq:
  "update_station env m (dev, node, l) =
     (if station_known env (access_points m) dev then set_ap (positions env) l (station_target env (access_points m) dev) m else Inl KeyError)"
  by (auto simp: update_station_def station_known_def station_target_def dict_get_def split: option.split)

lemma update_stations_step:
  assumes "wifi_inv m" "set sts \<subseteq> set (stations m)" "distinct (map (snd \<circ> snd) sts)"
  shows "if list_all (\<lambda>st. station_known env (access_points m) (fst st)) sts
    then \<exists>m'. res_fold (update_station env) m sts = Inr m' \<and> wifi_inv m' \<and> stations m' = stations m \<and> access_points m' = access_points m \<and>
      (\<forall>k. k \<notin> set (map (snd \<circ> snd) sts) \<longrightarrow> wl_store m' ! k = wl_store m ! k) \<and>
      (\<forall>st \<in> set sts. wl_ap (wl_store m' ! snd (snd st)) = station_target env (access_points m) (fst st))
    else res_fold (update_station env) m sts = Inl KeyError"
  using assms
proof (induction sts arbitrary: m)
  case (Cons st sts)
  obtain dev node l where st: "st = (dev, node, l)" by (cases st)
  show ?case
  proof (cases "station_known env (access_points m) dev")
    case True
    have "l \<in> set (station_links m)" using Cons.prems(2) st by (force simp: station_links_def)
    from set_ap_step [OF Cons.prems(1) this, of "positions env" "station_target env (access_points m) dev"]
    obtain m1 where m1: "update_station env m st = Inr m1" "wifi_inv m1" "stations m1 = stations m" "access_points m1 = access_points m"
      "wl_ap (wl_store m1 ! l) = station_target env (access_points m) dev" "\<And>k. k \<noteq> l \<Longrightarrow> wl_store m1 ! k = wl_store m ! k"
      using True st by (auto simp: update_station_eq)
    have new: "l \<notin> set (map (snd \<circ> snd) sts)" using Cons.prems(3) st by auto
    show ?thesis
    proof (cases "list_all (\<lambda>st. station_known env (access_points m) (fst st)) sts")
      case all: True
      then obtain m' where m': "res_fold (update_station env) m1 sts = Inr m'" "wifi_inv m'" "stations m' = stations m1"
        "access_points m' = access_points m1" "\<And>k. k \<notin> set (map (snd \<circ> snd) sts) \<Longrightarrow> wl_store m' ! k = wl_store m1 ! k"
        "\<forall>st \<in> set sts. wl_ap (wl_store m' ! snd (snd st)) = station_target env (access_points m) (fst st)"
        using Cons.IH [OF m1(2)] Cons.prems m1(3,4) by auto
      have "wl_store m' ! k = wl_store m ! k" if "k \<notin> set (map (snd \<circ> snd) (st # sts))" for k
        using that m'(5) m1(6) st by simp
      moreover have "wl_ap (wl_store m' ! l) = station_target env (access_points m) dev" using m'(5) [OF new] m1(5) by simp
      ultimately show ?thesis using True all st m1 m' by auto
    next
      case False
      then show ?thesis using Cons.IH [OF m1(2)] Cons.prems m1 st True by auto
    qed
  qed (simp add: st update_station_eq)
qed simp


subsection \<open>Every signal keeps the lists right\<close>

lemma wifi_inv_scan_device:
  assumes "wifi_inv m"
  shows "wifi_inv (scan_wifi_device m d)"
proof -
  obtain node devI dev where d: "d = ((node, devI), dev)" by (metis prod.collapse)
  show ?thesis
  proof (cases dev)
    case Sta_device
    have none: "length (wl_store m) \<notin> set (links_of m n)" for n using assms by (auto simp: wifi_inv_def)
    have old: "l < length (wl_store m)" if "l \<in> set (station_links m)" for l using wifi_invD(1) [OF assms that] .
    let ?m = "scan_wifi_device m d"
    have m: "stations ?m = stations m @ [((node, devI), node, length (wl_store m))]" "wl_store ?m = wl_store m @ [new_wifi_link node (node, devI)]"
      "links_of ?m n = links_of m n" for n
      by (simp_all add: scan_wifi_device_def d Sta_device links_of_def)
    then have sl: "station_links ?m = station_links m @ [length (wl_store m)]" by (simp add: station_links_def)
    show ?thesis using assms none old unfolding wifi_inv_def sl m
      by (auto simp: nth_append new_wifi_link_def link_shown_def count_eq_zero_iff less_Suc_eq)
  next
    case (Ap_device bssid)
    then show ?thesis using assms by (simp add: scan_wifi_device_def d wifi_inv_def station_links_def links_of_def)
  qed (use assms in \<open>simp_all add: scan_wifi_device_def d\<close>)
qed

lemma wifi_inv_scan:
  assumes "wifi_inv m"
  shows "wifi_inv (scan_nodes devices m)"
proof -
  let ?m = "(foldl destroy_link m (map (snd \<circ> snd) (stations m)))\<lparr>access_points := [], stations := []\<rparr>"
  have fold: "node_links (foldl destroy_link m ls) = node_links m \<and> length (wl_store (foldl destroy_link m ls)) = length (wl_store m)" for ls
    by (induction ls arbitrary: m) (auto simp: destroy_link_def)
  have "links_of ?m n = links_of m n" for n using fold by (simp add: links_of_def)
  then have "wifi_inv ?m" using assms fold by (auto simp: wifi_inv_def station_links_def)
  then have "wifi_inv (foldl scan_wifi_device ?m ds)" for ds by (induction ds rule: rev_induct) (auto intro: wifi_inv_scan_device)
  then show ?thesis unfolding scan_nodes_def .
qed

lemma wifi_inv_points:
  assumes "wifi_inv m" "l \<in> set (station_links m)"
  shows "wifi_inv (wifi_update_points pos l m)"
proof -
  note len = wifi_invD(1) [OF assms]
  have "links_of (wifi_update_points pos l m) n = links_of m n" for n by (simp add: links_of_def)
  moreover have "wl_ap (wl_store (wifi_update_points pos l m) ! k) = wl_ap (wl_store m ! k)"
    "wl_sta (wl_store (wifi_update_points pos l m) ! k) = wl_sta (wl_store m ! k)" for k
    using len by (simp_all add: update_points_wl)
  moreover have "link_shown (wl_store (wifi_update_points pos l m) ! k) = link_shown (wl_store m ! k)" for k
    using len wifi_invD(2,4) [OF assms] by (auto simp: update_points_wl link_shown_def split: option.split)
  ultimately show ?thesis using assms(1) unfolding wifi_inv_def station_links_def by (simp del: count_mset_0_iff)
qed

lemma update_view_links:
  assumes "wifi_inv m" "set sts \<subseteq> set (stations m)"
  shows "wifi_inv (foldl (\<lambda>m st. wifi_update_points pos (snd (snd st)) m) m sts) \<and>
    stations (foldl (\<lambda>m st. wifi_update_points pos (snd (snd st)) m) m sts) = stations m \<and>
    node_links (foldl (\<lambda>m st. wifi_update_points pos (snd (snd st)) m) m sts) = node_links m \<and>
    (\<forall>k < length (wl_store m). wl_ap (wl_store (foldl (\<lambda>m st. wifi_update_points pos (snd (snd st)) m) m sts) ! k) = wl_ap (wl_store m ! k)) \<and>
    (\<forall>st \<in> set sts. \<forall>ap. wl_ap (wl_store m ! snd (snd st)) = Some ap \<longrightarrow>
      wl_points (wl_store (foldl (\<lambda>m st. wifi_update_points pos (snd (snd st)) m) m sts) ! snd (snd st)) = Some (pos (fst (snd st)), pos ap))"
  using assms
proof (induction sts rule: rev_induct)
  case (snoc st sts)
  let ?m = "foldl (\<lambda>m st. wifi_update_points pos (snd (snd st)) m) m sts"
  obtain dev node l where st: "st = (dev, node, l)" by (cases st)
  have ih: "wifi_inv ?m" "stations ?m = stations m" using snoc by auto
  have mem: "(dev, node, l) \<in> set (stations ?m)" using snoc.prems ih(2) st by auto
  then have l: "l \<in> set (station_links ?m)" by (force simp: station_links_def)
  have sta: "wl_sta (wl_store ?m ! l) = Some node" using ih(1) mem by (auto simp: wifi_inv_def)
  have len: "length (wl_store ?m) = length (wl_store m)" by (induction sts arbitrary: m) auto
  have uniq: "node' = node" if "(dev', node', l) \<in> set (stations m)" for dev' node'
    using ih that sta by (auto simp: wifi_inv_def)
  show ?case using snoc wifi_inv_points [OF ih(1) l, of pos] sta uniq wifi_invD(1) [OF ih(1) l] len
    by (auto simp: st update_points_wl)
qed simp


lemma wifi_step_inv:
  assumes "wifi_inv m" "wifi_step m m'"
  shows "wifi_inv m'"
  using assms(2)
proof cases
  case (scanned devices)
  then show ?thesis using wifi_inv_scan [OF assms(1)] by simp
next
  case (sampled pre rest env)
  have "distinct (map (snd \<circ> snd) pre)" "set pre \<subseteq> set (stations m)"
    using assms(1) sampled by (auto simp: wifi_inv_def station_links_def)
  then show ?thesis using update_stations_step [OF assms(1), of pre env] sampled by (auto split: if_splits)
next
  case (viewed pos)
  then show ?thesis using update_view_links [OF assms(1), of "stations m" pos] by (simp add: wifi_update_view_def)
qed

interpretation wifi_sys: invariant_system wifi_step wifi_inv
  by unfold_locales (rule wifi_step_inv)

lemma wifi_inv_new: "wifi_inv new_wifi_monitor"
  by (simp add: wifi_inv_def new_wifi_monitor_def station_links_def links_of_def)

text \<open>
  C24. The dashed lines follow the associations. After any sequence of topology scans, samplings and repaints, a sampling of the stations
  followed by a repaint links every station to the access point with its BSSID, or to none if its link is down or it is not
  associated: a line is shown exactly for the linked stations, it runs between the present positions of station and access point, and
  it is in the list of links of that access point once and of no other node. The sampling raises \<open>KeyError\<close> exactly if
  some station is associated with an access point the last scan has not seen, and \<open>ValueError\<close> (from removing a link) never.
\<close>

theorem wifi_links_follow:
  assumes "wifi_step\<^sup>*\<^sup>* new_wifi_monitor m"
  shows "if list_all (\<lambda>st. station_known env (access_points m) (fst st)) (stations m)
    then \<exists>m'. wifi_periodic_update env m = Inr m' \<and>
      (\<forall>(dev, node, l) \<in> set (stations m). let w = wl_store (wifi_update_view pos m') ! l; ap = station_target env (access_points m) dev in
         wl_ap w = ap \<and> (link_shown w \<longleftrightarrow> ap \<noteq> None) \<and> (\<forall>a. ap = Some a \<longrightarrow> wl_points w = Some (pos node, pos a)) \<and>
         (\<forall>n. count (mset (links_of (wifi_update_view pos m') n)) l = (if ap = Some n then 1 else 0)))
    else wifi_periodic_update env m = Inl KeyError"
proof -
  have inv: "wifi_inv m" using wifi_sys.inv_reachable [OF assms wifi_inv_new] .
  then have dist: "distinct (map (snd \<circ> snd) (stations m))" by (simp add: wifi_inv_def station_links_def)
  show ?thesis
  proof (cases "list_all (\<lambda>st. station_known env (access_points m) (fst st)) (stations m)")
    case True
    then obtain m' where m': "wifi_periodic_update env m = Inr m'" "wifi_inv m'" "stations m' = stations m"
      "\<And>st. st \<in> set (stations m) \<Longrightarrow> wl_ap (wl_store m' ! snd (snd st)) = station_target env (access_points m) (fst st)"
      using update_stations_step [OF inv subset_refl dist, of env] by (auto simp: wifi_periodic_update_def)
    let ?v = "wifi_update_view pos m'"
    have v: "wifi_inv ?v" "stations ?v = stations m" "\<And>k. k < length (wl_store m') \<Longrightarrow> wl_ap (wl_store ?v ! k) = wl_ap (wl_store m' ! k)"
      "\<And>st ap. st \<in> set (stations m) \<Longrightarrow> wl_ap (wl_store m' ! snd (snd st)) = Some ap \<Longrightarrow>
        wl_points (wl_store ?v ! snd (snd st)) = Some (pos (fst (snd st)), pos ap)"
      using update_view_links [OF m'(2), of "stations m" pos] m'(3) by (auto simp: wifi_update_view_def)
    have "wl_ap (wl_store ?v ! l) = station_target env (access_points m) dev \<and>
        (link_shown (wl_store ?v ! l) \<longleftrightarrow> station_target env (access_points m) dev \<noteq> None) \<and>
        (\<forall>a. station_target env (access_points m) dev = Some a \<longrightarrow> wl_points (wl_store ?v ! l) = Some (pos node, pos a)) \<and>
        (\<forall>n. count (mset (links_of ?v n)) l = (if station_target env (access_points m) dev = Some n then 1 else 0))"
      if st: "(dev, node, l) \<in> set (stations m)" for dev node l
    proof -
      have mem: "l \<in> set (station_links m')" "l \<in> set (station_links ?v)" using st m'(3) v(2) by (force simp: station_links_def)+
      have ap: "wl_ap (wl_store ?v ! l) = station_target env (access_points m) dev" "wl_ap (wl_store m' ! l) = station_target env (access_points m) dev"
        using v(3) [OF wifi_invD(1) [OF m'(2) mem(1)]] m'(4) [OF st] by simp_all
      show ?thesis using ap v(4) [OF st] wifi_invD(3,4) [OF v(1) mem(2)] by (auto simp del: count_mset_0_iff)
    qed
    then show ?thesis using True m'(1) by (auto simp: Let_def simp del: count_mset_0_iff)
  qed (use update_stations_step [OF inv subset_refl dist, of env] in \<open>simp add: wifi_periodic_update_def\<close>)
qed


theorem wifi_links_follow_witness:
  "\<exists>m'. wifi_periodic_update \<lparr>positions = \<lambda>n. (of_nat n, 0), link_up = \<lambda>_. True, bssid_of = \<lambda>_. ''00:00:00:00:00:01''\<rparr>
       (scan_nodes [((0, 0), Ap_device ''00:00:00:00:00:01''), ((1, 0), Sta_device)] new_wifi_monitor) = Inr m' \<and>
     wl_points (wl_store (wifi_update_view (\<lambda>n. (of_nat n, 5)) m') ! 0) = Some ((1, 5), (0, 5)) \<and>
     count (mset (links_of (wifi_update_view (\<lambda>n. (of_nat n, 5)) m') 0)) 0 = 1"
proof -
  let ?m = "scan_nodes [((0, 0), Ap_device ''00:00:00:00:00:01''), ((1, 0), Sta_device)] new_wifi_monitor"
  let ?env = "\<lparr>positions = \<lambda>n. (of_nat n, 0), link_up = \<lambda>_. True, bssid_of = \<lambda>_. ''00:00:00:00:00:01''\<rparr>"
  have m: "stations ?m = [((1, 0), 1, 0)]" "access_points ?m = [(''00:00:00:00:00:01'', 0)]"
    by (simp_all add: scan_nodes_def new_wifi_monitor_def scan_wifi_device_def dict_set_def)
  have "wifi_step\<^sup>*\<^sup>* new_wifi_monitor ?m" by (rule r_into_rtranclp) (rule wifi_step.scanned)
  from wifi_links_follow [OF this, of ?env "\<lambda>n. (of_nat n, 5)"] show ?thesis
    unfolding m by (auto simp: station_known_def station_target_def Let_def simp del: count_mset_0_iff)
qed


text \<open>
  \<open>destroy\<close> does not take a link out of the list of its access point: a new scan leaves all links it destroys in the
  lists, where they stay for good, beside those created later.
\<close>

lemma scan_keeps_links: "links_of (scan_nodes devices m) n = links_of m n"
proof -
  have "node_links (foldl destroy_link m ls) = node_links m" for ls m by (induction ls arbitrary: m) (auto simp: destroy_link_def)
  moreover have "node_links (foldl scan_wifi_device m ds) = node_links m" for m ds
    by (induction ds arbitrary: m) (auto simp: scan_wifi_device_def split: wifi_device.split)
  ultimately show ?thesis by (simp add: scan_nodes_def links_of_def)
qed

end
