(* ===== verification/Viz_Hud.thy ===== *)
theory Viz_Hud
  imports Viz_Scene Py_Number
begin

text \<open>
  The axes of the visualizer (\<open>src/visualizer/visualizer/hud.py\<close>): the division of a range of metres into ticks and the pool of labels at
  them. Floats are rational numbers; \<open>rint(math.log10(x))\<close> is computed exactly. A label is its visibility, the number
  it shows and its place on the canvas; fonts and colours are not modelled. The rectangle of the canvas that is visible and
  the zoom come from the scroll bars.
\<close>

section \<open>Logarithms\<close>

text \<open>\<open>\<lfloor>log10 y\<rfloor>\<close>, by the number of digits before the point of \<open>y\<close> or of its inverse\<close>

definition floor_log10 :: "rat \<Rightarrow> int" where
  "floor_log10 y =
     (if 1 \<le> y then int (length (nat_str (nat \<lfloor>y\<rfloor>))) - 1 else - int (length (nat_str (nat (\<lceil>1 / y\<rceil> - 1)))))"

text \<open>\<open>rint(math.log10(x))\<close>, where \<open>rint(t)\<close> is \<open>math.floor(t + 0.5)\<close>: \<open>k\<close> with \<open>10 ^ (2 k - 1) \<le> x ^ 2 < 10 ^ (2 k + 1)\<close>\<close>

definition rint_log10 :: "rat \<Rightarrow> int" where
  "rint_log10 x = (floor_log10 (x * x) + 1) div 2"

section \<open>Divisions\<close>

definition division_size :: "rat \<Rightarrow> rat" where
  "division_size dx_over_ndiv =
     (let dv = power_of_ten (rint_log10 dx_over_ndiv)
      in if \<bar>dv / 2 - dx_over_ndiv\<bar> < \<bar>dv - dx_over_ndiv\<bar> then dv / 2
         else if \<bar>dv * 2 - dx_over_ndiv\<bar> < \<bar>dv - dx_over_ndiv\<bar> then dv * 2
         else dv)"

text \<open>The loop runs five times; what it changes of \<open>ndiv\<close> is not used again.\<close>

definition compute_divisions :: "rat \<Rightarrow> rat \<Rightarrow> (rat \<times> rat) result" where
  "compute_divisions xi xf =
     (if \<not> xi < xf then Inl AssertionError
      else
        let dx = xf - xi; ndiv = 5; text_width = dx / ndiv / 2; dx_over_ndiv = dx / ndiv
        in Inr (fst (foldl (\<lambda>((x0, dv), ndiv) n.
             let dv = division_size dx_over_ndiv
             in ((dv * of_int \<lceil>xi / dv\<rceil> - dv, dv), if 1 < n then of_int \<lfloor>dx / text_width + 1 / 2\<rfloor> else ndiv))
             ((0, 0), ndiv) [0 ..< 5 :: nat])))"

text \<open>\<open>while x < limit: ...; x += xdiv\<close>\<close>

partial_function (option) axis_ticks :: "rat \<Rightarrow> rat \<Rightarrow> rat \<Rightarrow> rat list option" where
  "axis_ticks x xdiv limit =
     (if x < limit then Option.bind (axis_ticks (x + xdiv) xdiv limit) (\<lambda>ts. Some (x # ts)) else Some [])"

section \<open>Labels\<close>

record axis_label =
  al_visible :: bool
  al_value :: rat
  al_place :: point

record axes =
  ax_visible :: bool
  ax_hlines :: "(point \<times> point) list"
  ax_vlines :: "(point \<times> point) list"
  ax_labels :: "axis_label list"

text \<open>\<open>get_label\<close> takes a hidden label from the pool or makes a new one; its properties are then set.\<close>

fun place_labels :: "axis_label list \<Rightarrow> (rat \<times> point) list \<Rightarrow> axis_label list \<times> axis_label list" where
  "place_labels unused [] = ([], unused)"
| "place_labels unused ((x, p) # xs) =
     (case place_labels (tl unused) xs of (used, rest) \<Rightarrow>
        (\<lparr>al_visible = True, al_value = x, al_place = p\<rparr> # used, rest))"

definition update_view :: "rat option \<Rightarrow> point \<times> point \<Rightarrow> axes \<Rightarrow> axes result option" where
  "update_view viz_zoom rect a =
     (case viz_zoom of
        None \<Rightarrow> Some (Inr a)
      | Some zoom \<Rightarrow>
          let unused_labels = map (\<lambda>l. l\<lparr>al_visible := False\<rparr>) (ax_labels a) in
          if zoom = 0 then Some (Inl ZeroDivisionError)
          else case rect of ((x1, y1), (x2, y2)) \<Rightarrow>
            let offset = 10 / zoom; line_width = 5 / zoom; yc = y2 - line_width / 2; xc = x1 + line_width / 2;
                sim_x1 = x1 / PIXELS_PER_METER; sim_x2 = x2 / PIXELS_PER_METER;
                sim_y1 = y1 / PIXELS_PER_METER; sim_y2 = y2 / PIXELS_PER_METER
            in (case compute_divisions sim_x1 sim_x2 of
                  Inl e \<Rightarrow> Some (Inl e)
                | Inr (x0, xdiv) \<Rightarrow> Option.bind (axis_ticks x0 xdiv sim_x2) (\<lambda>xs.
               (case compute_divisions sim_y1 sim_y2 of
                  Inl e \<Rightarrow> Some (Inl e)
                | Inr (y0, ydiv) \<Rightarrow> Option.bind (axis_ticks y0 ydiv sim_y2) (\<lambda>ys.
                    case place_labels unused_labels
                           (map (\<lambda>x. (x, (PIXELS_PER_METER * x, yc - offset))) xs @ map (\<lambda>y. (y, (xc + offset, PIXELS_PER_METER * y))) ys) of
                      (used, rest) \<Rightarrow>
                        Some (Inr (a\<lparr>ax_hlines := ((x1, yc), (x2, yc)) # map (\<lambda>x. ((PIXELS_PER_METER * x, yc - offset), (PIXELS_PER_METER * x, yc))) xs,
                                    ax_vlines := ((xc, y1), (xc, y2)) # map (\<lambda>y. ((xc, PIXELS_PER_METER * y), (xc + offset, PIXELS_PER_METER * y))) ys,
                                    ax_labels := used @ rest\<rparr>)))))))"

text \<open>Making the axes visible again does not show the labels; they come back with the next \<open>update_view\<close>.\<close>

definition set_visible :: "bool \<Rightarrow> axes \<Rightarrow> axes" where
  "set_visible visible a =
     (if visible then a\<lparr>ax_visible := True\<rparr>
      else a\<lparr>ax_visible := False, ax_labels := map (\<lambda>l. l\<lparr>al_visible := False\<rparr>) (ax_labels a)\<rparr>)"

definition adjustment_changed :: "rat option \<Rightarrow> point \<times> point \<Rightarrow> axes \<Rightarrow> axes result option" where
  "adjustment_changed viz_zoom rect a = (if ax_visible a then update_view viz_zoom rect a else Some (Inr a))"

definition new_axes :: "rat option \<Rightarrow> point \<times> point \<Rightarrow> axes result option" where
  "new_axes viz_zoom rect = update_view viz_zoom rect \<lparr>ax_visible = True, ax_hlines = [], ax_vlines = [], ax_labels = []\<rparr>"

section \<open>The size of a division\<close>

lemma nat_str_length:
  "0 < n \<Longrightarrow> 10 ^ (length (nat_str n) - 1) \<le> n \<and> n < 10 ^ length (nat_str n)"
proof (induction n rule: nat_str.induct)
  case (1 n)
  show ?case
  proof (cases "n < 10")
    case True
    then show ?thesis using 1 by (simp add: nat_str.simps [of n])
  next
    case False
    let ?m = "n div 10"
    have m: "10 ^ (length (nat_str ?m) - 1) \<le> ?m" "?m < 10 ^ length (nat_str ?m)" using 1 False by auto
    obtain l where l: "length (nat_str ?m) = Suc l" by (cases "length (nat_str ?m)") auto
    have "10 * 10 ^ l \<le> n" using m(1) l by (simp add: less_eq_div_iff_mult_less_eq mult.commute)
    moreover have "n < 10 * 10 ^ Suc l" using m(2) l by (simp add: div_less_iff_less_mult mult.commute)
    moreover note l
    ultimately have "10 * 10 ^ l \<le> n" "n < 10 * 10 ^ Suc l" by auto
    then show ?thesis using False l by (simp add: nat_str.simps [of n])
  qed
qed

lemma power_of_ten_powi: "power_of_ten k = 10 powi k"
  by (simp add: power_of_ten_def power_int_def inverse_eq_divide power_one_over)

lemma power_of_ten_nat [simp]: "power_of_ten (int n) = 10 ^ n" "power_of_ten (- int n) = 1 / 10 ^ n"
  by (simp_all add: power_of_ten_def)

lemma power_of_ten_pos [simp]: "0 < power_of_ten k"
  by (simp add: power_of_ten_powi)

lemma power_of_ten_add: "power_of_ten (a + b) = power_of_ten a * power_of_ten b"
  by (simp add: power_of_ten_powi power_int_add)

lemma power_of_ten_mono: "a \<le> b \<Longrightarrow> power_of_ten a \<le> power_of_ten b"
  by (simp add: power_of_ten_powi power_int_increasing)

lemma ten_power_le:
  "10 ^ l \<le> n \<Longrightarrow> (10 :: rat) ^ l \<le> of_nat n" "Suc n \<le> 10 ^ l \<Longrightarrow> of_nat n + 1 \<le> (10 :: rat) ^ l"
  by (metis of_nat_le_iff of_nat_numeral of_nat_power) (metis of_nat_Suc add.commute of_nat_le_iff of_nat_numeral of_nat_power)

lemma floor_log10_bounds:
  assumes "0 < y"
  shows "power_of_ten (floor_log10 y) \<le> y" "y < power_of_ten (floor_log10 y + 1)"
proof -
  have "power_of_ten (floor_log10 y) \<le> y \<and> y < power_of_ten (floor_log10 y + 1)"
  proof (cases "1 \<le> y")
    case True
    define n where "n = nat \<lfloor>y\<rfloor>"
    have n: "0 < n" "of_nat n \<le> y" "y < of_nat n + 1" using True unfolding n_def by linarith+
    obtain l where l: "length (nat_str n) = Suc l" by (cases "length (nat_str n)") auto
    have "10 ^ l \<le> n" "Suc n \<le> 10 ^ Suc l" using nat_str_length [OF n(1)] l by auto
    then have "10 ^ l \<le> y" "y < 10 ^ Suc l" using n ten_power_le(1) [of l n] ten_power_le(2) [of n "Suc l"] by linarith+
    moreover have "floor_log10 y = int l" using True l by (simp add: floor_log10_def flip: n_def)
    moreover have "int l + 1 = int (Suc l)" by simp
    ultimately show ?thesis by (simp only: power_of_ten_nat)
  next
    case False
    define n where "n = nat (\<lceil>1 / y\<rceil> - 1)"
    have z: "1 < 1 / y" using False assms by simp
    have n: "0 < n" "of_nat n < 1 / y" "1 / y \<le> of_nat n + 1" using z unfolding n_def by linarith+
    obtain l where l: "length (nat_str n) = Suc l" by (cases "length (nat_str n)") auto
    have "10 ^ l \<le> n" "Suc n \<le> 10 ^ Suc l" using nat_str_length [OF n(1)] l by auto
    then have "10 ^ l < 1 / y" "1 / y \<le> 10 ^ Suc l" using n ten_power_le(1) [of l n] ten_power_le(2) [of n "Suc l"] by linarith+
    then have "y < 1 / 10 ^ l" "1 / 10 ^ Suc l \<le> y" using assms by (simp_all add: field_simps)
    moreover have "floor_log10 y = - int (Suc l)" using False l by (simp add: floor_log10_def flip: n_def)
    moreover have "- int (Suc l) + 1 = - int l" by simp
    ultimately show ?thesis by (simp only: power_of_ten_nat)
  qed
  then show "power_of_ten (floor_log10 y) \<le> y" "y < power_of_ten (floor_log10 y + 1)" by auto
qed

lemma rint_log10_bounds:
  assumes "0 < x"
  shows "power_of_ten (2 * rint_log10 x - 1) \<le> x * x" "x * x < power_of_ten (2 * rint_log10 x + 1)"
proof -
  let ?m = "floor_log10 (x * x)" let ?k = "rint_log10 x"
  have y: "0 < x * x" using assms by simp
  have "2 * ?k - 1 \<le> ?m" "?m + 1 \<le> 2 * ?k + 1" by (simp_all add: rint_log10_def)
  then show "power_of_ten (2 * ?k - 1) \<le> x * x" "x * x < power_of_ten (2 * ?k + 1)"
    using floor_log10_bounds [OF y] power_of_ten_mono [of "2 * ?k - 1" ?m] power_of_ten_mono [of "?m + 1" "2 * ?k + 1"] by auto
qed

text \<open>The definition is the source's expression, on real numbers.\<close>

lemma of_rat_power_of_ten: "of_rat (power_of_ten k) = (10 :: real) powr of_int k"
proof (cases k)
  case (nonneg n)
  then show ?thesis by (simp add: powr_realpow of_rat_power)
next
  case (neg n)
  have "power_of_ten (- int (Suc n)) = 1 / 10 ^ Suc n" by (simp only: power_of_ten_nat)
  then have "of_rat (power_of_ten k) = (1 :: real) / 10 ^ Suc n" by (simp add: neg of_rat_divide of_rat_mult of_rat_power)
  also have "\<dots> = 10 powr - real (Suc n)" by (simp only: powr_minus_divide powr_realpow zero_less_numeral)
  finally show ?thesis by (simp add: neg)
qed

lemma rint_log10_correct:
  assumes "0 < x"
  shows "rint_log10 x = \<lfloor>log 10 (of_rat x) + 1 / 2\<rfloor>"
proof -
  let ?k = "rint_log10 x" and ?X = "of_rat x :: real"
  have X: "0 < ?X" using assms by simp
  have two: "log 10 (?X * ?X) = 2 * log 10 ?X" using X by (simp add: log_mult)
  have "of_rat (power_of_ten (2 * ?k - 1)) \<le> (of_rat (x * x) :: real)" "of_rat (x * x) < (of_rat (power_of_ten (2 * ?k + 1)) :: real)"
    using rint_log10_bounds [OF assms] by (simp_all only: of_rat_less_eq of_rat_less)
  then have "10 powr of_int (2 * ?k - 1) \<le> ?X * ?X" "?X * ?X < 10 powr of_int (2 * ?k + 1)"
    by (simp_all only: of_rat_power_of_ten of_rat_mult)
  then have "of_int (2 * ?k - 1) \<le> 2 * log 10 ?X" "2 * log 10 ?X < of_int (2 * ?k + 1)"
    using X two by (simp_all add: le_log_iff log_less_iff flip: two)
  then have "of_int ?k \<le> log 10 ?X + 1 / 2" "log 10 ?X + 1 / 2 < of_int ?k + 1" by simp_all
  then show ?thesis by (metis floor_unique)
qed


lemma square_bound: "0 \<le> a \<Longrightarrow> a * a < b * b \<Longrightarrow> 0 \<le> b \<Longrightarrow> a < (b :: rat)"
  by (meson mult_mono not_le)

lemma division_size_bounds:
  assumes "0 < x"
  obtains k where "division_size x \<in> {power_of_ten k / 2, power_of_ten k, power_of_ten k * 2}"
    "31 / 50 * division_size x \<le> x" "x \<le> 8 / 5 * division_size x"
proof -
  define t where "t = power_of_ten (rint_log10 x)"
  have t: "0 < t" by (simp add: t_def)
  have "power_of_ten (2 * rint_log10 x) = t * t" unfolding t_def mult_2 power_of_ten_add ..
  moreover have "power_of_ten (- 1) = 1 / 10" "power_of_ten 1 = 10" by (simp_all add: power_of_ten_def)
  ultimately have sq: "power_of_ten (2 * rint_log10 x - 1) = t * t / 10" "power_of_ten (2 * rint_log10 x + 1) = t * t * 10"
    using power_of_ten_add [of "2 * rint_log10 x" "-1"] power_of_ten_add [of "2 * rint_log10 x" 1] by simp_all
  have x2: "t * t / 10 \<le> x * x" "x * x < t * t * 10" using rint_log10_bounds [OF assms] unfolding sq by auto
  have tt: "0 < t * t" using t by simp
  have "(31 / 100 * t) * (31 / 100 * t) = 961 / 10000 * (t * t)" "(16 / 5 * t) * (16 / 5 * t) = 256 / 25 * (t * t)" by simp_all
  then have "(31 / 100 * t) * (31 / 100 * t) < x * x" "x * x < (16 / 5 * t) * (16 / 5 * t)" using x2 tt by linarith+
  then have r: "31 / 100 * t < x" "x < 16 / 5 * t" using t assms by (auto intro: square_bound)
  define d where "d = division_size x"
  have d: "d = (if \<bar>t / 2 - x\<bar> < \<bar>t - x\<bar> then t / 2 else if \<bar>t * 2 - x\<bar> < \<bar>t - x\<bar> then t * 2 else t)"
    by (simp add: d_def division_size_def t_def Let_def)
  have "31 / 50 * d \<le> x" "x \<le> 8 / 5 * d" using r t unfolding d by (auto simp: abs_if split: if_splits)
  moreover have "d \<in> {t / 2, t, t * 2}" by (simp add: d)
  ultimately show ?thesis using that unfolding d_def t_def by blast
qed

lemma axis_ticks_eq:
  assumes "0 < d"
  shows "axis_ticks x d limit = Some (map (\<lambda>i. x + of_nat i * d) [0 ..< nat \<lceil>(limit - x) / d\<rceil>])"
proof (induction "nat \<lceil>(limit - x) / d\<rceil>" arbitrary: x)
  case 0
  then have "\<not> x < limit" using assms by (simp add: field_simps)
  then show ?case using 0 by (subst axis_ticks.simps) simp
next
  case (Suc n)
  have "0 < (limit - x) / d" using Suc(2) by linarith
  then have lt: "x < limit" using assms by (simp add: zero_less_divide_iff)
  have "(limit - (x + d)) / d = (limit - x) / d - 1" using assms by (simp add: field_simps)
  then have n: "n = nat \<lceil>(limit - (x + d)) / d\<rceil>" using Suc(2) by linarith
  have "map (\<lambda>i. x + of_nat i * d) [0 ..< Suc n] = x # map (\<lambda>i. (x + d) + of_nat i * d) [0 ..< n]"
    by (simp add: upt_conv_Cons map_Suc_upt [symmetric] algebra_simps del: upt_Suc)
  then have "map (\<lambda>i. x + of_nat i * d) [0 ..< nat \<lceil>(limit - x) / d\<rceil>] = x # map (\<lambda>i. (x + d) + of_nat i * d) [0 ..< n]"
    using Suc(2) by simp
  moreover have "axis_ticks x d limit = Some (x # map (\<lambda>i. (x + d) + of_nat i * d) [0 ..< n])"
    using Suc(1) [OF n] lt n by (subst axis_ticks.simps) simp
  ultimately show ?case by simp
qed

lemma compute_divisions_eq:
  assumes "xi < xf"
  shows "compute_divisions xi xf =
    Inr (division_size ((xf - xi) / 5) * of_int \<lceil>xi / division_size ((xf - xi) / 5)\<rceil> - division_size ((xf - xi) / 5), division_size ((xf - xi) / 5))"
  using assms by (simp add: compute_divisions_def Let_def upt_rec numeral_eq_Suc)

lemma divisions:
  assumes "xi < xf"
  shows "\<exists>k m x0 d ts. compute_divisions xi xf = Inr (x0, d) \<and> d \<in> {power_of_ten k / 2, power_of_ten k, power_of_ten k * 2} \<and>
    x0 = d * of_int m \<and> x0 < xi \<and> xi \<le> x0 + d \<and> axis_ticks x0 d xf = Some ts \<and>
    ts = map (\<lambda>i. x0 + of_nat i * d) [0 ..< length ts] \<and> 4 \<le> length ts \<and> length ts \<le> 9"
proof -
  define d where "d = division_size ((xf - xi) / 5)"
  define x0 where "x0 = d * of_int \<lceil>xi / d\<rceil> - d"
  obtain k where k: "d \<in> {power_of_ten k / 2, power_of_ten k, power_of_ten k * 2}" "31 / 50 * d \<le> (xf - xi) / 5" "(xf - xi) / 5 \<le> 8 / 5 * d"
    using division_size_bounds [of "(xf - xi) / 5"] assms unfolding d_def by auto
  have d: "0 < d" using k(1) power_of_ten_pos [of k] by (elim insertE emptyE; linarith)
  have c: "xi / d \<le> of_int \<lceil>xi / d\<rceil>" "of_int \<lceil>xi / d\<rceil> < xi / d + 1" by linarith+
  then have "xi \<le> of_int \<lceil>xi / d\<rceil> * d" "of_int \<lceil>xi / d\<rceil> * d < xi + d"
    using d mult_right_mono [OF c(1), of d] mult_strict_right_mono [OF c(2) d] by (simp_all add: distrib_right)
  then have x0: "x0 < xi" "xi \<le> x0 + d" by (simp_all add: x0_def mult.commute)
  let ?n = "nat \<lceil>(xf - x0) / d\<rceil>"
  have k': "31 / 10 * d \<le> xf - xi" "xf - xi \<le> 8 * d" using k(2,3) by simp_all
  have "3 * d < xf - x0" using k'(1) x0(1) d by linarith
  moreover have "xf - x0 \<le> 9 * d" using k'(2) x0(2) by linarith
  ultimately have "3 < (xf - x0) / d" "(xf - x0) / d \<le> 9" using d by (simp_all add: field_simps)
  then have n: "4 \<le> ?n" "?n \<le> 9" by linarith+
  have "compute_divisions xi xf = Inr (x0, d)" by (simp add: compute_divisions_eq [OF assms] x0_def d_def)
  moreover have "x0 = d * of_int (\<lceil>xi / d\<rceil> - 1)" by (simp add: x0_def algebra_simps)
  ultimately show ?thesis using axis_ticks_eq [OF d, of x0 xf] k(1) x0 n
    by (intro exI [of _ k] exI [of _ "\<lceil>xi / d\<rceil> - 1"] exI [of _ x0] exI [of _ d] exI [of _ "map (\<lambda>i. x0 + of_nat i * d) [0 ..< ?n]"]) simp
qed


text \<open>
  C25. The ticks of an axis: for every range the size of a division is a power of ten, half of it or twice it, the first tick is a multiple of
  it just before the range, the loop that sets the ticks ends, and it sets between 4 and 9 of them, one every division.
\<close>

theorem axis_divisions:
  assumes "xi < xf"
  shows "\<exists>k m x0 d ts. compute_divisions xi xf = Inr (x0, d) \<and> d \<in> {power_of_ten k / 2, power_of_ten k, power_of_ten k * 2} \<and>
    x0 = d * of_int m \<and> x0 < xi \<and> xi \<le> x0 + d \<and> axis_ticks x0 d xf = Some ts \<and>
    ts = map (\<lambda>i. x0 + of_nat i * d) [0 ..< length ts] \<and> 4 \<le> length ts \<and> length ts \<le> 9"
  by (rule divisions [OF assms])

theorem axis_divisions_witness:
  "\<exists>ts. compute_divisions 12 137 = Inr (0, 20) \<and> axis_ticks 0 20 137 = Some ts \<and> length ts \<le> 9"
proof -
  have s: "nat_str 625 = ''625''" by (simp add: nat_str.simps digit_char_def char_of_def bit_0)
  have "division_size 25 = 20"
    by (simp add: division_size_def rint_log10_def floor_log10_def s power_of_ten_def Let_def)
  then have c: "compute_divisions 12 137 = Inr (0, 20)" by (simp add: compute_divisions_eq ceiling_eq_iff)
  then show ?thesis using axis_divisions [of 12 137] by auto
qed

section \<open>The labels\<close>

lemma place_labels_eq:
  "place_labels unused vs = (map (\<lambda>(x, p). \<lparr>al_visible = True, al_value = x, al_place = p\<rparr>) vs, drop (length vs) unused)"
  by (induction unused vs rule: place_labels.induct) (auto simp: drop_Suc)

text \<open>
  Repainting the axes: the loops end, and afterwards the visible labels are exactly those of the ticks of both axes, each with the
  value of its tick and at its place, at most 18 in all; the labels of the pool that are not needed stay hidden, and a new label is made
  only when the pool is empty.
\<close>

theorem axes_labels:
  assumes "0 < zoom" "x1 < x2" "y1 < y2"
  shows "\<exists>xs ys a'. update_view (Some zoom) ((x1, y1), (x2, y2)) a = Some (Inr a') \<and>
    map (\<lambda>l. (al_value l, al_place l)) (filter al_visible (ax_labels a')) =
      map (\<lambda>x. (x, (3 * x, y2 - 5 / zoom / 2 - 10 / zoom))) xs @ map (\<lambda>y. (y, (x1 + 5 / zoom / 2 + 10 / zoom, 3 * y))) ys \<and>
    (\<exists>x0 dx. compute_divisions (x1 / 3) (x2 / 3) = Inr (x0, dx) \<and> axis_ticks x0 dx (x2 / 3) = Some xs) \<and>
    (\<exists>y0 dy. compute_divisions (y1 / 3) (y2 / 3) = Inr (y0, dy) \<and> axis_ticks y0 dy (y2 / 3) = Some ys) \<and>
    length xs \<le> 9 \<and> length ys \<le> 9 \<and> length (ax_labels a') = max (length (ax_labels a)) (length xs + length ys)"
proof -
  have lt: "x1 / 3 < x2 / 3" "y1 / 3 < y2 / 3" using assms by simp_all
  obtain x0 dx xs where x: "compute_divisions (x1 / 3) (x2 / 3) = Inr (x0, dx)" "axis_ticks x0 dx (x2 / 3) = Some xs" "length xs \<le> 9"
    using divisions [OF lt(1)] by blast
  obtain y0 dy ys where y: "compute_divisions (y1 / 3) (y2 / 3) = Inr (y0, dy)" "axis_ticks y0 dy (y2 / 3) = Some ys" "length ys \<le> 9"
    using divisions [OF lt(2)] by blast
  have hidden: "filter al_visible (drop n (map (\<lambda>l. l\<lparr>al_visible := False\<rparr>) ls)) = []" for n ls
    by (auto simp: filter_empty_conv dest!: in_set_dropD)
  have shown: "filter al_visible (map (\<lambda>(x, p). \<lparr>al_visible = True, al_value = x, al_place = p\<rparr>) vs) =
      map (\<lambda>(x, p). \<lparr>al_visible = True, al_value = x, al_place = p\<rparr>) vs" for vs
    by (auto simp: filter_id_conv)
  show ?thesis using assms(1) x y
    by (intro exI [of _ xs] exI [of _ ys]) (simp add: update_view_def PIXELS_PER_METER_def place_labels_eq hidden Let_def max_def comp_def)
qed


theorem axes_labels_witness:
  "\<exists>a'. new_axes (Some 2) ((0, 0), (300, 150)) = Some (Inr a') \<and> length (ax_labels a') \<le> 18 \<and> list_all al_visible (ax_labels a')"
proof -
  let ?a = "\<lparr>ax_visible = True, ax_hlines = [], ax_vlines = [], ax_labels = []\<rparr>"
  obtain xs ys a' where a: "update_view (Some 2) ((0, 0), (300, 150)) ?a = Some (Inr a')"
    "map (\<lambda>l. (al_value l, al_place l)) (filter al_visible (ax_labels a')) =
      map (\<lambda>x. (x, (3 * x, 150 - 5 / 2 / 2 - 10 / 2))) xs @ map (\<lambda>y. (y, (0 + 5 / 2 / 2 + 10 / 2, 3 * y))) ys"
    "length xs \<le> 9" "length ys \<le> 9" "length (ax_labels a') = max (length (ax_labels ?a)) (length xs + length ys)"
    using axes_labels [of 2 0 300 0 150 ?a] by auto
  have "length (filter al_visible (ax_labels a')) = length xs + length ys" using arg_cong [OF a(2), of length] by simp
  then have "length (filter al_visible (ax_labels a')) = length (ax_labels a')" using a(5) by simp
  then have "list_all al_visible (ax_labels a')" by (metis Ball_set length_filter_less less_irrefl)
  then show ?thesis using a by (simp add: new_axes_def)
qed

text \<open>Hiding the axes and showing them again leaves every label hidden.\<close>

lemma set_visible_loses_labels: "filter al_visible (ax_labels (set_visible True (set_visible False a))) = []"
  by (auto simp: set_visible_def filter_empty_conv)

end
