(* ===== verification/Viz_Packets.thy ===== *)
theory Viz_Packets
  imports Py_String
begin

text \<open>
  The plugin \<open>src/visualizer/visualizer/plugins/show_last_packets.py\<close>: the list of header types a packet capture can be filtered by, the buttons
  that change the filter, and the rows of the lists of packets. The type system of the simulator is given by the
  parent of every registered type (\<open>None\<close> where \<open>HasParent\<close> is false); a type is its number.
\<close>

section \<open>Header types\<close>

record type_ids =
  n_registered :: nat
  parent_of :: "nat \<Rightarrow> nat option"
  header :: nat
  trailer :: nat

text \<open>The loop up the hierarchy; \<open>None\<close> stands for not ending.\<close>

partial_function (option) type_is_good :: "type_ids \<Rightarrow> nat \<Rightarrow> bool option" where
  "type_is_good ts typeid_tmp =
     (if typeid_tmp = header ts \<or> typeid_tmp = trailer ts then Some True
      else case parent_of ts typeid_tmp of
             Some p \<Rightarrow> type_is_good ts p
           | None \<Rightarrow> Some False)"

fun make_filter :: "type_ids \<Rightarrow> nat list \<Rightarrow> (nat \<times> bool) list option" where
  "make_filter ts [] = Some []"
| "make_filter ts (t # rest) =
     Option.bind (type_is_good ts t) (\<lambda>good.
     Option.bind (make_filter ts rest) (\<lambda>cs.
     Some (if \<not> good \<or> t = header ts \<or> t = trailer ts then cs else (t, True) # cs)))"

definition packet_filter_list :: "type_ids \<Rightarrow> (nat \<times> bool) list option" where
  "packet_filter_list ts = make_filter ts [0 ..< n_registered ts]"

section \<open>The buttons\<close>

datatype capture_mode = FILTER_HEADERS_OR | FILTER_HEADERS_AND

record capture_options =
  co_mode :: capture_mode
  co_numLastPackets :: nat
  co_headers :: "nat list"

text \<open>The widgets and the options the simulator has for the node.\<close>

record packet_window =
  pw_filter :: "(nat \<times> bool) list"
  pw_and :: bool
  pw_sent :: "capture_options option"

definition update_capture_options :: "packet_window \<Rightarrow> packet_window" where
  "update_capture_options w =
     w\<lparr>pw_sent := Some \<lparr>co_mode = (if pw_and w then FILTER_HEADERS_AND else FILTER_HEADERS_OR), co_numLastPackets = 100,
                       co_headers = map fst (filter snd (pw_filter w))\<rparr>\<rparr>"

definition new_packet_window :: "type_ids \<Rightarrow> packet_window option" where
  "new_packet_window ts =
     map_option (\<lambda>cs. update_capture_options \<lparr>pw_filter = cs, pw_and = False, pw_sent = None\<rparr>) (packet_filter_list ts)"

definition sel_all_cb :: "packet_window \<Rightarrow> packet_window" where
  "sel_all_cb w = update_capture_options (w\<lparr>pw_filter := map (\<lambda>c. (fst c, True)) (pw_filter w)\<rparr>)"

definition sel_none_cb :: "packet_window \<Rightarrow> packet_window" where
  "sel_none_cb w = update_capture_options (w\<lparr>pw_filter := map (\<lambda>c. (fst c, False)) (pw_filter w)\<rparr>)"

text \<open>The radio button AND emits \<open>toggled\<close> when it is switched on or off; the list emits \<open>cell-edited\<close> after it has set \<open>selected\<close>.\<close>

definition op_toggled :: "bool \<Rightarrow> packet_window \<Rightarrow> packet_window" where
  "op_toggled active w = (if active = pw_and w then w else update_capture_options (w\<lparr>pw_and := active\<rparr>))"

definition cell_edited :: "nat \<Rightarrow> bool \<Rightarrow> packet_window \<Rightarrow> packet_window" where
  "cell_edited i sel w =
     (if i < length (pw_filter w)
      then update_capture_options (w\<lparr>pw_filter := (pw_filter w)[i := (fst (pw_filter w ! i), sel)]\<rparr>) else w)"

inductive packet_step :: "packet_window \<Rightarrow> packet_window \<Rightarrow> bool" where
  all: "packet_step w (sel_all_cb w)"
| none: "packet_step w (sel_none_cb w)"
| mode: "packet_step w (op_toggled active w)"
| edit: "packet_step w (cell_edited i sel w)"

section \<open>The lists of packets\<close>

record packet_sample =
  ps_time :: string
  ps_device :: "(string \<times> nat) option"
  ps_size :: nat
  ps_contents :: string

text \<open>A device is its name, empty if it has none, and its index.\<close>

definition interface_name :: "(string \<times> nat) option \<Rightarrow> string" where
  "interface_name device =
     (case device of
        None \<Rightarrow> ''(unknown)''
      | Some (name, i) \<Rightarrow> if name = [] then ''(interface '' @ nat_str i @ '')'' else name)"

definition packet_rows :: "packet_sample list \<Rightarrow> (string \<times> string \<times> string \<times> string) list" where
  "packet_rows packet_list =
     map (\<lambda>p. (ps_time p, interface_name (ps_device p), nat_str (ps_size p), ps_contents p)) packet_list"

section \<open>The filter lists the header types\<close>

definition subtype :: "type_ids \<Rightarrow> nat \<Rightarrow> nat \<Rightarrow> bool" where
  "subtype ts t u \<longleftrightarrow> (\<lambda>t p. parent_of ts t = Some p)\<^sup>*\<^sup>* t u"

lemma subtype_step:
  "subtype ts t u \<longleftrightarrow> t = u \<or> (\<exists>p. parent_of ts t = Some p \<and> subtype ts p u)"
  unfolding subtype_def by (auto elim: converse_rtranclpE intro: converse_rtranclp_into_rtranclp)

lemma type_is_good_eq:
  assumes "\<And>t p. parent_of ts t = Some p \<Longrightarrow> rank p < (rank t :: nat)"
  shows "type_is_good ts t = Some (subtype ts t (header ts) \<or> subtype ts t (trailer ts))"
proof (induction t rule: measure_induct_rule [of rank])
  case (less t)
  show ?case
  proof (cases "t = header ts \<or> t = trailer ts")
    case True
    then show ?thesis by (subst type_is_good.simps) (auto simp: subtype_step [of ts t])
  next
    case False
    then show ?thesis using less assms by (subst type_is_good.simps) (auto simp: subtype_step [of ts t] split: option.split)
  qed
qed

lemma make_filter_eq:
  assumes "\<And>t p. parent_of ts t = Some p \<Longrightarrow> rank p < (rank t :: nat)"
  shows "make_filter ts us = Some (map (\<lambda>t. (t, True)) (filter (\<lambda>t. (subtype ts t (header ts) \<or> subtype ts t (trailer ts)) \<and>
    t \<noteq> header ts \<and> t \<noteq> trailer ts) us))"
  by (induction us) (auto simp: type_is_good_eq [OF assms])

definition packet_inv :: "nat list \<Rightarrow> packet_window \<Rightarrow> bool" where
  "packet_inv types w \<longleftrightarrow> map fst (pw_filter w) = types \<and>
     pw_sent w = Some \<lparr>co_mode = (if pw_and w then FILTER_HEADERS_AND else FILTER_HEADERS_OR), co_numLastPackets = 100,
       co_headers = map fst (filter snd (pw_filter w))\<rparr>"

lemma packet_inv_update: "map fst (pw_filter w) = types \<Longrightarrow> packet_inv types (update_capture_options w)"
  by (simp add: packet_inv_def update_capture_options_def)

lemma packet_step_inv:
  assumes "packet_inv types w" and "packet_step w w'"
  shows "packet_inv types w'"
proof -
  have types: "map fst (pw_filter w) = types" using assms(1) by (simp add: packet_inv_def)
  from assms(2) show ?thesis
  proof cases
    case all
    then show ?thesis using types by (auto simp: sel_all_cb_def comp_def intro!: packet_inv_update)
  next
    case none
    then show ?thesis using types by (auto simp: sel_none_cb_def comp_def intro!: packet_inv_update)
  next
    case (mode active)
    then show ?thesis using types assms(1) by (auto simp: op_toggled_def intro!: packet_inv_update)
  next
    case (edit i sel)
    have "map fst ((pw_filter w)[i := (fst (pw_filter w ! i), sel)]) = types" if "i < length (pw_filter w)"
      using types that by (metis fst_conv list_update_id map_update nth_map)
    then show ?thesis using edit assms(1) by (auto simp: cell_edited_def intro!: packet_inv_update)
  qed
qed

interpretation packet_sys: invariant_system packet_step "packet_inv types" for types
  by unfold_locales (rule packet_step_inv)

text \<open>
  C39. When no type is its own ancestor, the window opens, and after any use of its buttons and check boxes the list shows exactly
  the proper subtypes of \<open>ns3::Header\<close> and \<open>ns3::Trailer\<close>, in the order of their registration, and the simulator
  has the options the widgets show: the checked types, the mode of the radio buttons and 100 packets.
\<close>

theorem packet_filter_in_step:
  assumes "\<And>t p. parent_of ts t = Some p \<Longrightarrow> rank p < (rank t :: nat)"
  shows "\<exists>w. new_packet_window ts = Some w \<and> (\<forall>w'. packet_step\<^sup>*\<^sup>* w w' \<longrightarrow>
    map fst (pw_filter w') = filter (\<lambda>t. (subtype ts t (header ts) \<or> subtype ts t (trailer ts)) \<and> t \<noteq> header ts \<and> t \<noteq> trailer ts) [0 ..< n_registered ts] \<and>
    pw_sent w' = Some \<lparr>co_mode = (if pw_and w' then FILTER_HEADERS_AND else FILTER_HEADERS_OR), co_numLastPackets = 100,
      co_headers = map fst (filter snd (pw_filter w'))\<rparr>)"
proof -
  let ?types = "filter (\<lambda>t. (subtype ts t (header ts) \<or> subtype ts t (trailer ts)) \<and> t \<noteq> header ts \<and> t \<noteq> trailer ts) [0 ..< n_registered ts]"
  let ?w = "update_capture_options \<lparr>pw_filter = map (\<lambda>t. (t, True)) ?types, pw_and = False, pw_sent = None\<rparr>"
  have "new_packet_window ts = Some ?w"
    by (simp add: new_packet_window_def packet_filter_list_def make_filter_eq [OF assms])
  moreover have "packet_inv ?types ?w" by (rule packet_inv_update) (simp add: comp_def)
  then have "packet_inv ?types w'" if "packet_step\<^sup>*\<^sup>* ?w w'" for w' using packet_sys.inv_reachable that by blast
  ultimately show ?thesis unfolding packet_inv_def by blast
qed

text \<open>Five types: an object, the header and the trailer type below it, one header and one trailer of the program.\<close>

theorem packet_filter_in_step_witness:
  "let ts = \<lparr>n_registered = 5, parent_of = (\<lambda>t. [None, Some 0, Some 0, Some 1, Some 2, None] ! min t 5), header = 1, trailer = 2\<rparr> in
   \<exists>w. new_packet_window ts = Some w \<and>
     pw_sent (sel_none_cb w) = Some \<lparr>co_mode = FILTER_HEADERS_OR, co_numLastPackets = 100, co_headers = []\<rparr> \<and>
     map fst (pw_filter (sel_none_cb w)) = [3, 4]"
proof -
  define ts where
    "ts = \<lparr>n_registered = 5, parent_of = (\<lambda>t. [None, Some 0, Some 0, Some 1, Some 2, None] ! min t 5), header = 1, trailer = 2\<rparr>"
  have rank: "p < t" if "parent_of ts t = Some p" for t p
    using that by (cases "t < 5") (auto simp: ts_def less_Suc_eq numeral_eq_Suc)
  have up: "type_is_good ts 0 = Some False" "type_is_good ts 1 = Some True" "type_is_good ts 2 = Some True"
    by (subst type_is_good.simps, simp add: ts_def)+
  have "type_is_good ts 3 = Some True" "type_is_good ts 4 = Some True"
    by (subst type_is_good.simps, simp add: ts_def up [unfolded ts_def, simplified])+
  with up have "new_packet_window ts = Some (update_capture_options \<lparr>pw_filter = [(3, True), (4, True)], pw_and = False, pw_sent = None\<rparr>)"
    by (simp add: new_packet_window_def packet_filter_list_def upt_rec numeral_eq_Suc ts_def)
  moreover obtain w where w: "new_packet_window ts = Some w" and
      sent: "pw_sent (sel_none_cb w) = Some \<lparr>co_mode = (if pw_and (sel_none_cb w) then FILTER_HEADERS_AND else FILTER_HEADERS_OR),
        co_numLastPackets = 100, co_headers = map fst (filter snd (pw_filter (sel_none_cb w)))\<rparr>"
    using packet_filter_in_step [of ts "\<lambda>t. t", OF rank] packet_step.none by blast
  ultimately show ?thesis
    unfolding ts_def [symmetric] Let_def by (auto simp: sel_none_cb_def update_capture_options_def)
qed

end
