(* ===== verification/Xml_Text.thy ===== *)
theory Xml_Text
  imports Test_Report
begin

text \<open>
  Reading XML text into the element trees of \<open>Test_Report\<close>, as \<open>xml.etree.ElementTree\<close> does for the results file of \<open>src/test.py\<close>. Covered are
  documents of printable ASCII with elements, attributes in double quotes without references, and the references
  \<open>&lt; &gt; &amp; &quot; &apos; &#39;\<close> in text; \<open>None\<close> stands for a document that is malformed or has something else in
  it (comments, sections, line ends other than a newline). The text of an element is what comes before its first child; text after a child
  (the \<open>tail\<close>) is never read by the scripts and is dropped.
\<close>

section \<open>Tokens\<close>

datatype xml_token =
    Open string "(string \<times> string) list"
  | Empty string "(string \<times> string) list"
  | Close string
  | Chr char

definition xml_char :: "char \<Rightarrow> bool" where
  "xml_char c \<longleftrightarrow> (let k = of_char c :: nat in 32 \<le> k \<and> k < 127 \<or> k = 9 \<or> k = 10)"

definition name_char :: "char \<Rightarrow> bool" where
  "name_char c \<longleftrightarrow> (let k = of_char c :: nat in 65 \<le> k \<and> k \<le> 90 \<or> 97 \<le> k \<and> k \<le> 122)"

definition xml_name :: "string \<Rightarrow> bool" where
  "xml_name n \<longleftrightarrow> n \<noteq> [] \<and> list_all name_char n"

definition references :: "(string, char) dict" where
  "references = [(''lt'', CHR ''<''), (''gt'', CHR ''>''), (''amp'', CHR ''&''), (''quot'', CHR 0x22), (''apos'', CHR 0x27), (''#39'', CHR 0x27)]"

definition attr_char :: "char \<Rightarrow> bool" where
  "attr_char c \<longleftrightarrow> xml_char c \<and> c \<noteq> CHR 0x0A \<and> c \<noteq> CHR 0x09 \<and> c \<noteq> CHR ''<'' \<and> c \<noteq> CHR ''>'' \<and> c \<noteq> CHR ''&'' \<and> c \<noteq> CHR 0x22"

lemma length_tl_dropWhile: "length (tl (dropWhile P r)) < Suc (length r)"
  using length_dropWhile_le [of P r] by (simp add: le_imp_less_Suc)

text \<open>Attributes, each after at least one blank.\<close>

function attributes :: "string \<Rightarrow> (string \<times> string) list option" where
  "attributes s =
     (if s = [] then Some []
      else if hd s \<noteq> CHR '' '' then None
      else
        let s' = dropWhile (\<lambda>c. c = CHR '' '') s; n = takeWhile name_char s'
        in case dropWhile name_char s' of
             c # d # r \<Rightarrow>
               if xml_name n \<and> c = CHR ''='' \<and> d = CHR 0x22 \<and> CHR 0x22 \<in> set r \<and> list_all attr_char (takeWhile (\<lambda>c. c \<noteq> CHR 0x22) r)
               then map_option ((#) (n, takeWhile (\<lambda>c. c \<noteq> CHR 0x22) r)) (attributes (tl (dropWhile (\<lambda>c. c \<noteq> CHR 0x22) r)))
               else None
           | _ \<Rightarrow> if s' = [] then Some [] else None)"
  by pat_completeness auto
termination
proof (relation "measure length")
  show "(tl (dropWhile (\<lambda>c. c \<noteq> CHR 0x22) r), s) \<in> measure length"
    if s: "x = dropWhile (\<lambda>c. c = CHR '' '') s" and d: "dropWhile name_char x = c # cr" "cr = q # r" for s r :: string and x c cr q
  proof -
    have "length (c # q # r) \<le> length s"
      using length_dropWhile_le [of name_char x] length_dropWhile_le [of "\<lambda>c. c = CHR '' ''" s] s d by simp
    then show ?thesis using length_tl_dropWhile [of "\<lambda>c. c \<noteq> CHR 0x22" r] by simp
  qed
qed simp

declare attributes.simps [simp del]

definition markup :: "string \<Rightarrow> xml_token option" where
  "markup s =
     (if s \<noteq> [] \<and> hd s = CHR ''/'' then if xml_name (tl s) then Some (Close (tl s)) else None
      else
        let empty = s \<noteq> [] \<and> last s = CHR ''/''; s = (if empty then butlast s else s); n = takeWhile name_char s
        in if xml_name n
           then map_option (\<lambda>as. if empty then Empty n as else Open n as)
                  (Option.bind (attributes (dropWhile name_char s)) (\<lambda>as. if distinct (map fst as) then Some as else None))
           else None)"

function xml_tokens :: "string \<Rightarrow> xml_token list option" where
  "xml_tokens s =
     (case s of
        [] \<Rightarrow> Some []
      | c # r \<Rightarrow>
          if c = CHR ''<'' then
            if CHR ''>'' \<in> set r
            then Option.bind (markup (takeWhile (\<lambda>c. c \<noteq> CHR ''>'') r)) (\<lambda>t.
                 map_option ((#) t) (xml_tokens (tl (dropWhile (\<lambda>c. c \<noteq> CHR ''>'') r))))
            else None
          else if c = CHR ''&'' then
            if CHR '';'' \<in> set r
            then Option.bind (map_of references (takeWhile (\<lambda>c. c \<noteq> CHR '';'') r)) (\<lambda>d.
                 map_option ((#) (Chr d)) (xml_tokens (tl (dropWhile (\<lambda>c. c \<noteq> CHR '';'') r))))
            else None
          else if xml_char c \<and> c \<noteq> CHR ''>'' then map_option ((#) (Chr c)) (xml_tokens r)
          else None)"
  by pat_completeness auto
termination
  by (relation "measure length") (auto simp: length_tl_dropWhile simp del: length_tl)

declare xml_tokens.simps [simp del]

section \<open>Trees\<close>

text \<open>An open element: its name and attributes, the text before its first child, and its children.\<close>

type_synonym xml_frame = "string \<times> (string \<times> string) list \<times> string \<times> xml list"

fun build_step :: "xml_frame list \<Rightarrow> xml_token \<Rightarrow> xml_frame list option" where
  "build_step ((n, a, t, ks) # S) (Chr c) = Some ((n, a, (if ks = [] then t @ [c] else t), ks) # S)"
| "build_step ((n, a, t, ks) # S) (Empty m b) = Some ((n, a, t, ks @ [Elem m b None []]) # S)"
| "build_step ((n, a, t, ks) # S) (Open m b) = Some ((m, b, [], []) # (n, a, t, ks) # S)"
| "build_step ((n, a, t, ks) # (n', a', t', ks') # S) (Close m) =
     (if m = n then Some ((n', a', t', ks' @ [Elem n a (if t = [] then None else Some t) ks]) # S) else None)"
| "build_step _ _ = None"

fun build :: "xml_frame list \<Rightarrow> xml_token list \<Rightarrow> xml_frame list option" where
  "build S [] = Some S"
| "build S (t # ts) = Option.bind (build_step S t) (\<lambda>S. build S ts)"

text \<open>The text before the first element of a piece of content, and its elements.\<close>

definition xml_content :: "string \<Rightarrow> (string \<times> xml list) option" where
  "xml_content s =
     Option.bind (xml_tokens s) (\<lambda>ts.
     Option.bind (build [([], [], [], [])] ts) (\<lambda>S.
       case S of [(_, _, t, ks)] \<Rightarrow> Some (t, ks) | _ \<Rightarrow> None))"

text \<open>\<open>ET.parse\<close>: an optional declaration, and one element with nothing but white space around it.\<close>

definition xml_declaration :: string where
  "xml_declaration = ''<?xml version=\"1.0\"?>''"

definition xml_parse :: "string \<Rightarrow> xml option" where
  "xml_parse s =
     (let s = py_strip (if take (length xml_declaration) s = xml_declaration then drop (length xml_declaration) s else s)
      in if s \<noteq> [] \<and> hd s = CHR ''<'' \<and> last s = CHR ''>''
         then Option.bind (xml_content s) (\<lambda>(t, ks). case ks of [e] \<Rightarrow> Some e | _ \<Rightarrow> None)
         else None)"

section \<open>Reading a concatenation\<close>

lemma split_at: "d \<notin> set m \<Longrightarrow> takeWhile (\<lambda>c. c \<noteq> d) (m @ d # r) = m \<and> tl (dropWhile (\<lambda>c. c \<noteq> d) (m @ d # r)) = r"
  by (simp add: takeWhile_append dropWhile_append)

definition plain_char :: "char \<Rightarrow> bool" where
  "plain_char c \<longleftrightarrow> xml_char c \<and> c \<noteq> CHR ''<'' \<and> c \<noteq> CHR ''>'' \<and> c \<noteq> CHR ''&''"

lemma xml_tokens_Nil [simp]: "xml_tokens [] = Some []"
  by (simp add: xml_tokens.simps)

lemma xml_tokens_char: "plain_char c \<Longrightarrow> xml_tokens (c # r) = map_option ((#) (Chr c)) (xml_tokens r)"
  by (subst xml_tokens.simps) (simp add: plain_char_def)

lemma xml_tokens_markup:
  "CHR ''>'' \<notin> set m \<Longrightarrow> xml_tokens (CHR ''<'' # m @ CHR ''>'' # r) = Option.bind (markup m) (\<lambda>t. map_option ((#) t) (xml_tokens r))"
  using split_at [of "CHR ''>''" m r] by (subst xml_tokens.simps) simp

lemma xml_tokens_reference:
  "CHR '';'' \<notin> set n \<Longrightarrow> map_of references n = Some d \<Longrightarrow>
     xml_tokens (CHR ''&'' # n @ CHR '';'' # r) = map_option ((#) (Chr d)) (xml_tokens r)"
  using split_at [of "CHR '';''" n r] by (subst xml_tokens.simps) simp

lemma cut_append: "d \<in> set r \<Longrightarrow> takeWhile (\<lambda>c. c \<noteq> d) (r @ s) = takeWhile (\<lambda>c. c \<noteq> d) r
    \<and> tl (dropWhile (\<lambda>c. c \<noteq> d) (r @ s)) = tl (dropWhile (\<lambda>c. c \<noteq> d) r) @ s"
  using split_list_first [of d r] by (auto simp: takeWhile_append dropWhile_append)

lemmas xml_tokens_Cons = xml_tokens.simps [of "c # r" for c r, unfolded list.case]

lemma xml_tokens_append:
  "xml_tokens s = Some ts \<Longrightarrow> xml_tokens (s @ r) = map_option ((@) ts) (xml_tokens r)"
proof (induction s arbitrary: ts rule: length_induct)
  case (1 s)
  note IH = 1(1) [rule_format] and s = 1(2)
  have cut: "xml_tokens (tl (dropWhile P u) @ r) = map_option ((@) us) (xml_tokens r)"
    if "s = c # u" "xml_tokens (tl (dropWhile P u)) = Some us" for c P u us
    using IH [OF _ that(2)] that(1) length_tl_dropWhile [of P u] by simp
  show ?case
  proof (cases s)
    case Nil
    then show ?thesis using s by (simp add: option.map_ident)
  next
    case (Cons c u)
    consider (markup) "c = CHR ''<''" | (reference) "c = CHR ''&''" | (other) "c \<noteq> CHR ''<''" "c \<noteq> CHR ''&''" by blast
    then show ?thesis
    proof cases
      case markup
      then obtain t us where "CHR ''>'' \<in> set u" "markup (takeWhile (\<lambda>c. c \<noteq> CHR ''>'') u) = Some t"
          "xml_tokens (tl (dropWhile (\<lambda>c. c \<noteq> CHR ''>'') u)) = Some us" "ts = t # us"
        using s Cons by (auto simp: xml_tokens_Cons bind_eq_Some_conv split: if_splits)
      then show ?thesis using markup Cons cut [OF Cons] cut_append [of "CHR ''>''" u r]
        by (simp add: xml_tokens_Cons option.map_comp comp_def)
    next
      case reference
      then obtain d us where "CHR '';'' \<in> set u" "map_of references (takeWhile (\<lambda>c. c \<noteq> CHR '';'') u) = Some d"
          "xml_tokens (tl (dropWhile (\<lambda>c. c \<noteq> CHR '';'') u)) = Some us" "ts = Chr d # us"
        using s Cons by (auto simp: xml_tokens_Cons bind_eq_Some_conv split: if_splits)
      then show ?thesis using reference Cons cut [OF Cons] cut_append [of "CHR '';''" u r]
        by (simp add: xml_tokens_Cons option.map_comp comp_def)
    next
      case other
      then obtain us where "xml_char c" "c \<noteq> CHR ''>''" "xml_tokens u = Some us" "ts = Chr c # us"
        using s Cons by (auto simp: xml_tokens_Cons split: if_splits)
      then show ?thesis using other Cons IH [of u us] by (simp add: xml_tokens_Cons option.map_comp comp_def)
    qed
  qed
qed

lemma build_append: "build S (ts @ us) = Option.bind (build S ts) (\<lambda>S. build S us)"
  by (induction ts arbitrary: S) (auto split: Option.bind_split)

text \<open>What a piece of content adds to the element it is in.\<close>

fun extend :: "xml_frame \<Rightarrow> xml_frame \<Rightarrow> xml_frame" where
  "extend (n, a, t, ks) (_, _, t', ks') = (n, a, (if ks = [] then t @ t' else t), ks @ ks')"

lemma build_step_extend:
  assumes "build_step (T @ [B]) tok = Some X"
  shows "\<exists>T' B'. X = T' @ [B'] \<and> build_step (T @ extend F B # S) tok = Some (T' @ extend F B' # S)"
proof -
  obtain n a t ks where F: "F = (n, a, t, ks)" by (cases F)
  obtain m b u js where B: "B = (m, b, u, js)" by (cases B)
  show ?thesis
  proof (cases T)
    case Nil
    then show ?thesis using assms by (cases tok) (auto simp: F B)
  next
    case (Cons f T1)
    then show ?thesis using assms
      by (cases tok; cases T1; cases f) (auto simp: F B append_eq_Cons_conv split: if_splits)
  qed
qed

lemma build_extend:
  "build (T @ [B]) ts = Some X \<Longrightarrow> \<exists>T' B'. X = T' @ [B'] \<and> build (T @ extend F B # S) ts = Some (T' @ extend F B' # S)"
proof (induction ts arbitrary: T B)
  case (Cons tok ts)
  then obtain Y where Y: "build_step (T @ [B]) tok = Some Y" "build Y ts = Some X" by (auto simp: bind_eq_Some_conv)
  obtain T1 B1 where 1: "Y = T1 @ [B1]" "build_step (T @ extend F B # S) tok = Some (T1 @ extend F B1 # S)"
    using build_step_extend [OF Y(1)] by blast
  show ?case using Cons.IH [OF Y(2) [unfolded 1(1)]] 1(2) by simp
qed auto

lemma xml_content_build:
  assumes "xml_content s = Some (t, ks)"
  shows "\<exists>ts. xml_tokens s = Some ts \<and> (\<forall>F S. build (F # S) ts = Some (extend F ([], [], t, ks) # S))"
proof -
  obtain ts X where X: "xml_tokens s = Some ts" "build [([], [], [], [])] ts = Some X"
      "(case X of [(_, _, t, ks)] \<Rightarrow> Some (t, ks) | _ \<Rightarrow> None) = Some (t, ks)"
    using assms by (auto simp: xml_content_def bind_eq_Some_conv)
  then obtain n a where ts: "xml_tokens s = Some ts" "build [([], [], [], [])] ts = Some [(n, a, t, ks)]"
    by (cases X; cases "tl X") auto
  have "build (F # S) ts = Some (extend F ([], [], t, ks) # S)" for F S
  proof -
    have "extend F ([], [], [], []) = F" by (cases F) simp
    with build_extend [of "[]" "([], [], [], [])" ts _ F S] ts(2) obtain T' B'
      where "[(n, a, t, ks)] = T' @ [B']" "build (F # S) ts = Some (T' @ extend F B' # S)" by fastforce
    then show ?thesis by (cases F) (auto simp: Cons_eq_append_conv)
  qed
  with ts(1) show ?thesis by blast
qed

lemma xml_contentI:
  assumes "xml_tokens s = Some ts" "build [([], [], [], [])] ts = Some [([], [], t, ks)]"
  shows "xml_content s = Some (t, ks)"
  using assms by (simp add: xml_content_def)

lemma xml_content_append:
  assumes "xml_content s = Some (t, ks)" "xml_content s' = Some (t', ks')"
  shows "xml_content (s @ s') = Some (if ks = [] then t @ t' else t, ks @ ks')"
proof -
  obtain ts where ts: "xml_tokens s = Some ts" "\<And>F S. build (F # S) ts = Some (extend F ([], [], t, ks) # S)"
    using xml_content_build [OF assms(1)] by blast
  obtain us where us: "xml_tokens s' = Some us" "\<And>F S. build (F # S) us = Some (extend F ([], [], t', ks') # S)"
    using xml_content_build [OF assms(2)] by blast
  have "xml_tokens (s @ s') = Some (ts @ us)" using xml_tokens_append [OF ts(1)] us(1) by simp
  then show ?thesis by (rule xml_contentI) (simp add: build_append ts us)
qed

lemma xml_content_Nil [simp]: "xml_content [] = Some ([], [])"
  by (simp add: xml_content_def)

lemma xml_content_Cons:
  "plain_char c \<Longrightarrow> xml_content r = Some (t, ks) \<Longrightarrow> xml_content (c # r) = Some (c # t, ks)"
  using xml_content_append [of "[c]" "[c]" "[]" r t ks] by (simp add: xml_content_def xml_tokens_char)

lemma xml_content_text: "list_all plain_char s \<Longrightarrow> xml_content s = Some (s, [])"
  by (induction s) (auto intro: xml_content_Cons)

lemma xml_content_reference:
  "CHR '';'' \<notin> set n \<Longrightarrow> map_of references n = Some d \<Longrightarrow> xml_content (CHR ''&'' # n @ '';'') = Some ([d], [])"
  using xml_tokens_reference [of n d "[]"] by (simp add: xml_content_def)

lemma markup_name: "xml_name n \<Longrightarrow> CHR ''>'' \<notin> set n \<and> markup n = Some (Open n []) \<and> markup (CHR ''/'' # n) = Some (Close n)"
proof -
  assume n: "xml_name n"
  then have "\<forall>c \<in> set n. name_char c" "\<not> name_char (CHR ''/'')" "\<not> name_char (CHR ''>'')"
    by (auto simp: xml_name_def list_all_iff name_char_def)
  moreover have "hd n \<noteq> CHR ''/''" "last n \<noteq> CHR ''/''" "CHR ''>'' \<notin> set n"
    using n calculation by (auto simp: xml_name_def list_all_iff dest: hd_in_set last_in_set)
  ultimately show ?thesis using n 
    by (simp add: markup_def Let_def attributes.simps takeWhile_eq_all_conv [THEN iffD2] dropWhile_eq_Nil_conv [THEN iffD2])
qed

lemma xml_content_element:
  assumes "xml_name n" "xml_content s = Some (t, ks)"
  shows "xml_content (''<'' @ n @ ''>'' @ s @ ''</'' @ n @ ''>'') = Some ([], [Elem n [] (if t = [] then None else Some t) ks])"
proof -
  obtain ts where ts: "xml_tokens s = Some ts" "\<And>F S. build (F # S) ts = Some (extend F ([], [], t, ks) # S)"
    using xml_content_build [OF assms(2)] by blast
  have close: "xml_tokens (CHR ''<'' # (CHR ''/'' # n) @ CHR ''>'' # []) = Some [Close n]"
    using markup_name [OF assms(1)] by (subst xml_tokens_markup) auto
  have "xml_tokens (CHR ''<'' # n @ CHR ''>'' # s @ CHR ''<'' # (CHR ''/'' # n) @ CHR ''>'' # []) = Some (Open n [] # ts @ [Close n])"
    using markup_name [OF assms(1)] xml_tokens_append [OF ts(1)] close by (subst xml_tokens_markup) auto
  then have "xml_tokens (''<'' @ n @ ''>'' @ s @ ''</'' @ n @ ''>'') = Some (Open n [] # ts @ [Close n])" by simp
  then show ?thesis by (rule xml_contentI) (simp add: build_append ts(2))
qed

lemma xml_content_empty:
  assumes "CHR ''>'' \<notin> set m" "markup m = Some (Empty n a)"
  shows "xml_content (''<'' @ m @ ''>'') = Some ([], [Elem n a None []])"
  using xml_tokens_markup [OF assms(1), of "[]"] assms(2) by (simp add: xml_content_def)

section \<open>Attributes and documents\<close>

fun attr_text :: "string \<times> string \<Rightarrow> string" where
  "attr_text (n, v) = CHR '' '' # n @ CHR ''='' # CHR 0x22 # v @ [CHR 0x22]"

definition attr_ok :: "string \<times> string \<Rightarrow> bool" where
  "attr_ok nv \<longleftrightarrow> xml_name (fst nv) \<and> list_all attr_char (snd nv)"

lemma attributes_Cons:
  assumes "attr_ok nv"
  shows "attributes (attr_text nv @ r) = map_option ((#) nv) (attributes r)"
proof -
  obtain n v where nv: "nv = (n, v)" by (cases nv)
  have n: "xml_name n" "\<forall>c \<in> set n. name_char c" "n \<noteq> []" and v: "\<forall>c \<in> set v. attr_char c"
    using assms by (auto simp: nv attr_ok_def xml_name_def list_all_iff)
  have q: "CHR 0x22 \<notin> set v" "\<not> name_char (CHR ''='')" "\<not> name_char (CHR '' '')" using v by (auto simp: attr_char_def name_char_def)
  have hd: "hd n \<noteq> CHR '' ''" using n q by (metis hd_in_set)
  have "dropWhile (\<lambda>c. c = CHR '' '') (n @ x) = n @ x" for x using n(3) hd by (cases n) auto
  moreover have "takeWhile name_char (n @ CHR ''='' # x) = n" "dropWhile name_char (n @ CHR ''='' # x) = CHR ''='' # x" for x
    using n(2) q by (simp_all add: takeWhile_append2 dropWhile_append2)
  ultimately show ?thesis
    using split_at [OF q(1), of r] n(1) v by (subst attributes.simps) (simp add: nv Let_def list_all_iff)
qed

lemma attributes_text: "list_all attr_ok as \<Longrightarrow> attributes (concat (map attr_text as)) = Some as"
proof (induction as)
  case Nil
  then show ?case by (subst attributes.simps) simp
qed (simp add: attributes_Cons)

lemma attr_text_chars: "attr_ok nv \<Longrightarrow> CHR ''>'' \<notin> set (attr_text nv)"
proof -
  have "\<not> name_char (CHR ''>'')" "\<not> attr_char (CHR ''>'')" by (simp_all add: name_char_def attr_char_def)
  then show "attr_ok nv \<Longrightarrow> CHR ''>'' \<notin> set (attr_text nv)"
    by (cases nv) (auto simp: attr_ok_def xml_name_def list_all_iff)
qed

lemma xml_content_attributes:
  assumes "xml_name n" "list_all attr_ok as" "distinct (map fst as)"
  shows "xml_content (''<'' @ n @ concat (map attr_text as) @ ''/>'') = Some ([], [Elem n as None []])"
proof -
  let ?as = "concat (map attr_text as)"
  have n: "\<forall>c \<in> set n. name_char c" "n \<noteq> []" "\<not> name_char (CHR '' '')" "\<not> name_char (CHR ''/'')"
    using assms(1) by (auto simp: xml_name_def list_all_iff name_char_def)
  have "takeWhile name_char ?as = []" "dropWhile name_char ?as = ?as" using n(3) by (cases as; auto)+
  then have "takeWhile name_char (n @ ?as) = n" "dropWhile name_char (n @ ?as) = ?as"
    using n(1) by (simp_all add: takeWhile_append2 dropWhile_append2)
  moreover have "hd (n @ ?as @ ''/'') \<noteq> CHR ''/''" using n by (cases n) auto
  moreover have "butlast (n @ ?as @ ''/'') = n @ ?as" by (simp add: butlast_append)
  ultimately have "markup (n @ ?as @ ''/'') = Some (Empty n as)"
    using assms attributes_text [OF assms(2)] n(2) by (simp add: markup_def Let_def)
  moreover have "CHR ''>'' \<notin> set (n @ ?as @ ''/'')"
    using assms(2) attr_text_chars markup_name [OF assms(1)] by (auto simp: list_all_iff)
  ultimately show ?thesis using xml_content_empty [of "n @ ?as @ ''/''"] by simp
qed

lemma xml_parse_document:
  assumes "xml_name n" "xml_content s = Some (t, ks)"
  shows "xml_parse (xml_declaration @ newline @ ''<'' @ n @ ''>'' @ s @ ''</'' @ n @ ''>'' @ newline) =
    Some (Elem n [] (if t = [] then None else Some t) ks)"
proof -
  let ?d = "''<'' @ n @ ''>'' @ s @ ''</'' @ n @ ''>''"
  have "py_strip (newline @ ?d @ newline) = ?d" by (simp add: py_strip_def py_space_def)
  then show ?thesis using xml_content_element [OF assms] by (simp add: xml_parse_def)
qed

end
