(* ===== verification/Test_Output.thy ===== *)
theory Test_Output
  imports Test_Runner Xml_Text
begin

text \<open>
  From the results of the jobs to the text report: the test runner (\<open>src/src/core/model/test.cc\<close>) writes the report of its test suite as XML
  into a temporary file, \<open>src/test.py\<close> puts these files and its own entries together into the results file, reads the file
  again and translates it into the text report. Times are milliseconds; \<open>std::fixed\<close> with precision 3 prints them like \<open>"%.3f"\<close>.
\<close>

section \<open>The report of the test runner\<close>











section \<open>What is read back\<close>








section \<open>Pieces of text\<close>


















section \<open>The text report of a run\<close>

























section \<open>The end of a run\<close>

text \<open>
  What \<open>run_tests\<close> does around the pool and the result loop: the number of worker threads (\<open>sysconf\<close> is \<open>None\<close> when the
  name is unknown, then \<open>sysctl\<close> gives output and error output of the command), the directory for temporary files, named by the time
  of the start, and after the summary the reports, the notes and the removal of the directory. A directory is in the set
  with all directories above it; only directories are listed.
\<close>

definition processor_count :: "bool \<Rightarrow> int option \<Rightarrow> string \<times> string \<Rightarrow> int result" where
  "processor_count win32 sysconf sysctl =
     (if win32 then Inr 1
      else case sysconf of
             Some n \<Rightarrow> Inr n
           | None \<Rightarrow> if snd sysctl = [] then py_int 10 (fst sysctl) else Inr 1)"











section \<open>The reports of a run\<close>
















end
