(* ===== verification/Viz_Clip.thy ===== *)
theory Viz_Clip
  imports Viz_Scene
begin

text \<open>
  \<open>PyViz::LineClipping\<close> (\<open>src/visualizer/model/pyviz.cc\<close>), with which the visualizer finds the visible part of an arrow: the
  class \<open>FastClipping\<close>, a switch over the regions in which the two ends of the line lie. Coordinates are rational numbers; the
  rounding of doubles is not modelled. The theory shows that the 49 cases of the switch compute the part of the line inside
  the window.
\<close>

unbundle bit_operations_syntax

record clip_window =
  m_clipMin :: point
  m_clipMax :: point

record clip_line =
  line_start :: point
  line_end :: point
  line_dx :: rat
  line_dy :: rat

definition clip_start_top :: "clip_window \<Rightarrow> clip_line \<Rightarrow> clip_line" where
  "clip_start_top w l = l\<lparr>line_start := (fst (line_start l) + line_dx l * (snd (m_clipMin w) - snd (line_start l)) / line_dy l, snd (m_clipMin w))\<rparr>"

definition clip_start_bottom :: "clip_window \<Rightarrow> clip_line \<Rightarrow> clip_line" where
  "clip_start_bottom w l = l\<lparr>line_start := (fst (line_start l) + line_dx l * (snd (m_clipMax w) - snd (line_start l)) / line_dy l, snd (m_clipMax w))\<rparr>"

definition clip_start_right :: "clip_window \<Rightarrow> clip_line \<Rightarrow> clip_line" where
  "clip_start_right w l = l\<lparr>line_start := (fst (m_clipMax w), snd (line_start l) + line_dy l * (fst (m_clipMax w) - fst (line_start l)) / line_dx l)\<rparr>"

definition clip_start_left :: "clip_window \<Rightarrow> clip_line \<Rightarrow> clip_line" where
  "clip_start_left w l = l\<lparr>line_start := (fst (m_clipMin w), snd (line_start l) + line_dy l * (fst (m_clipMin w) - fst (line_start l)) / line_dx l)\<rparr>"

definition clip_end_top :: "clip_window \<Rightarrow> clip_line \<Rightarrow> clip_line" where
  "clip_end_top w l = l\<lparr>line_end := (fst (line_end l) + line_dx l * (snd (m_clipMin w) - snd (line_end l)) / line_dy l, snd (m_clipMin w))\<rparr>"

definition clip_end_bottom :: "clip_window \<Rightarrow> clip_line \<Rightarrow> clip_line" where
  "clip_end_bottom w l = l\<lparr>line_end := (fst (line_end l) + line_dx l * (snd (m_clipMax w) - snd (line_end l)) / line_dy l, snd (m_clipMax w))\<rparr>"

definition clip_end_right :: "clip_window \<Rightarrow> clip_line \<Rightarrow> clip_line" where
  "clip_end_right w l = l\<lparr>line_end := (fst (m_clipMax w), snd (line_end l) + line_dy l * (fst (m_clipMax w) - fst (line_end l)) / line_dx l)\<rparr>"

definition clip_end_left :: "clip_window \<Rightarrow> clip_line \<Rightarrow> clip_line" where
  "clip_end_left w l = l\<lparr>line_end := (fst (m_clipMin w), snd (line_end l) + line_dy l * (fst (m_clipMin w) - fst (line_end l)) / line_dx l)\<rparr>"

text \<open>The comparisons of the code, for either end of the line\<close>

abbreviation left_of :: "clip_window \<Rightarrow> point \<Rightarrow> bool" where
  "left_of w p \<equiv> fst p < fst (m_clipMin w)"

abbreviation right_of :: "clip_window \<Rightarrow> point \<Rightarrow> bool" where
  "right_of w p \<equiv> fst (m_clipMax w) < fst p"

abbreviation above :: "clip_window \<Rightarrow> point \<Rightarrow> bool" where
  "above w p \<equiv> snd p < snd (m_clipMin w)"

abbreviation below :: "clip_window \<Rightarrow> point \<Rightarrow> bool" where
  "below w p \<equiv> snd (m_clipMax w) < snd p"

definition line_code :: "clip_window \<Rightarrow> clip_line \<Rightarrow> nat" where
  "line_code w l =
     (let code = 0;
          code = (if above w (line_end l) then code OR 8 else if below w (line_end l) then code OR 4 else code);
          code = (if right_of w (line_end l) then code OR 2 else if left_of w (line_end l) then code OR 1 else code);
          code = (if above w (line_start l) then code OR 128 else if below w (line_start l) then code OR 64 else code)
      in if right_of w (line_start l) then code OR 32 else if left_of w (line_start l) then code OR 16 else code)"

definition clip_switch :: "nat \<Rightarrow> clip_window \<Rightarrow> clip_line \<Rightarrow> bool \<times> clip_line" where
  "clip_switch code w l =
    (if code = 0x00 then (True, l)
     else if code = 0x01 then
       let l = clip_end_left w l in (True, l)
     else if code = 0x02 then
       let l = clip_end_right w l in (True, l)
     else if code = 0x04 then
       let l = clip_end_bottom w l in (True, l)
     else if code = 0x05 then
       let l = clip_end_left w l; l = (if below w (line_end l) then clip_end_bottom w l else l) in (True, l)
     else if code = 0x06 then
       let l = clip_end_right w l; l = (if below w (line_end l) then clip_end_bottom w l else l) in (True, l)
     else if code = 0x08 then
       let l = clip_end_top w l in (True, l)
     else if code = 0x09 then
       let l = clip_end_left w l; l = (if above w (line_end l) then clip_end_top w l else l) in (True, l)
     else if code = 0x0A then
       let l = clip_end_right w l; l = (if above w (line_end l) then clip_end_top w l else l) in (True, l)
     else if code = 0x10 then
       let l = clip_start_left w l in (True, l)
     else if code = 0x12 then
       let l = clip_start_left w l; l = clip_end_right w l in (True, l)
     else if code = 0x14 then
       let l = clip_start_left w l in if below w (line_start l) then (False, l)
       else let l = clip_end_bottom w l in (True, l)
     else if code = 0x16 then
       let l = clip_start_left w l in if below w (line_start l) then (False, l)
       else let l = clip_end_bottom w l; l = (if right_of w (line_end l) then clip_end_right w l else l) in (True, l)
     else if code = 0x18 then
       let l = clip_start_left w l in if above w (line_start l) then (False, l)
       else let l = clip_end_top w l in (True, l)
     else if code = 0x1A then
       let l = clip_start_left w l in if above w (line_start l) then (False, l)
       else let l = clip_end_top w l; l = (if right_of w (line_end l) then clip_end_right w l else l) in (True, l)
     else if code = 0x20 then
       let l = clip_start_right w l in (True, l)
     else if code = 0x21 then
       let l = clip_start_right w l; l = clip_end_left w l in (True, l)
     else if code = 0x24 then
       let l = clip_start_right w l in if below w (line_start l) then (False, l)
       else let l = clip_end_bottom w l in (True, l)
     else if code = 0x25 then
       let l = clip_start_right w l in if below w (line_start l) then (False, l)
       else let l = clip_end_bottom w l; l = (if left_of w (line_end l) then clip_end_left w l else l) in (True, l)
     else if code = 0x28 then
       let l = clip_start_right w l in if above w (line_start l) then (False, l)
       else let l = clip_end_top w l in (True, l)
     else if code = 0x29 then
       let l = clip_start_right w l in if above w (line_start l) then (False, l)
       else let l = clip_end_top w l; l = (if left_of w (line_end l) then clip_end_left w l else l) in (True, l)
     else if code = 0x40 then
       let l = clip_start_bottom w l in (True, l)
     else if code = 0x41 then
       let l = clip_start_bottom w l in if left_of w (line_start l) then (False, l)
       else let l = clip_end_left w l; l = (if below w (line_end l) then clip_end_bottom w l else l) in (True, l)
     else if code = 0x42 then
       let l = clip_start_bottom w l in if right_of w (line_start l) then (False, l)
       else let l = clip_end_right w l in (True, l)
     else if code = 0x48 then
       let l = clip_start_bottom w l; l = clip_end_top w l in (True, l)
     else if code = 0x49 then
       let l = clip_start_bottom w l in if left_of w (line_start l) then (False, l)
       else let l = clip_end_left w l; l = (if above w (line_end l) then clip_end_top w l else l) in (True, l)
     else if code = 0x4A then
       let l = clip_start_bottom w l in if right_of w (line_start l) then (False, l)
       else let l = clip_end_right w l; l = (if above w (line_end l) then clip_end_top w l else l) in (True, l)
     else if code = 0x50 then
       let l = clip_start_left w l; l = (if below w (line_start l) then clip_start_bottom w l else l) in (True, l)
     else if code = 0x52 then
       let l = clip_end_right w l in if below w (line_end l) then (False, l)
       else let l = clip_start_bottom w l; l = (if left_of w (line_start l) then clip_start_left w l else l) in (True, l)
     else if code = 0x58 then
       let l = clip_end_top w l in if left_of w (line_end l) then (False, l)
       else let l = clip_start_bottom w l; l = (if left_of w (line_start l) then clip_start_left w l else l) in (True, l)
     else if code = 0x5A then
       let l = clip_start_left w l in if above w (line_start l) then (False, l)
       else let l = clip_end_right w l in if below w (line_end l) then (False, l)
       else let l = (if below w (line_start l) then clip_start_bottom w l else l); l = (if above w (line_end l) then clip_end_top w l else l) in (True, l)
     else if code = 0x60 then
       let l = clip_start_right w l; l = (if below w (line_start l) then clip_start_bottom w l else l) in (True, l)
     else if code = 0x61 then
       let l = clip_end_left w l in if below w (line_end l) then (False, l)
       else let l = clip_start_bottom w l; l = (if right_of w (line_start l) then clip_start_right w l else l) in (True, l)
     else if code = 0x68 then
       let l = clip_end_top w l in if right_of w (line_end l) then (False, l)
       else let l = clip_start_right w l; l = (if below w (line_start l) then clip_start_bottom w l else l) in (True, l)
     else if code = 0x69 then
       let l = clip_end_left w l in if below w (line_end l) then (False, l)
       else let l = clip_start_right w l in if above w (line_start l) then (False, l)
       else let l = (if above w (line_end l) then clip_end_top w l else l); l = (if below w (line_start l) then clip_start_bottom w l else l) in (True, l)
     else if code = 0x80 then
       let l = clip_start_top w l in (True, l)
     else if code = 0x81 then
       let l = clip_start_top w l in if left_of w (line_start l) then (False, l)
       else let l = clip_end_left w l in (True, l)
     else if code = 0x82 then
       let l = clip_start_top w l in if right_of w (line_start l) then (False, l)
       else let l = clip_end_right w l in (True, l)
     else if code = 0x84 then
       let l = clip_start_top w l; l = clip_end_bottom w l in (True, l)
     else if code = 0x85 then
       let l = clip_start_top w l in if left_of w (line_start l) then (False, l)
       else let l = clip_end_left w l; l = (if below w (line_end l) then clip_end_bottom w l else l) in (True, l)
     else if code = 0x86 then
       let l = clip_start_top w l in if right_of w (line_start l) then (False, l)
       else let l = clip_end_right w l; l = (if below w (line_end l) then clip_end_bottom w l else l) in (True, l)
     else if code = 0x90 then
       let l = clip_start_left w l; l = (if above w (line_start l) then clip_start_top w l else l) in (True, l)
     else if code = 0x92 then
       let l = clip_end_right w l in if above w (line_end l) then (False, l)
       else let l = clip_start_top w l; l = (if left_of w (line_start l) then clip_start_left w l else l) in (True, l)
     else if code = 0x94 then
       let l = clip_end_bottom w l in if left_of w (line_end l) then (False, l)
       else let l = clip_start_left w l; l = (if above w (line_start l) then clip_start_top w l else l) in (True, l)
     else if code = 0x96 then
       let l = clip_start_left w l in if below w (line_start l) then (False, l)
       else let l = clip_end_right w l in if above w (line_end l) then (False, l)
       else let l = (if above w (line_start l) then clip_start_top w l else l); l = (if below w (line_end l) then clip_end_bottom w l else l) in (True, l)
     else if code = 0xA0 then
       let l = clip_start_right w l; l = (if above w (line_start l) then clip_start_top w l else l) in (True, l)
     else if code = 0xA1 then
       let l = clip_end_left w l in if above w (line_end l) then (False, l)
       else let l = clip_start_top w l; l = (if right_of w (line_start l) then clip_start_right w l else l) in (True, l)
     else if code = 0xA4 then
       let l = clip_end_bottom w l in if right_of w (line_end l) then (False, l)
       else let l = clip_start_right w l; l = (if above w (line_start l) then clip_start_top w l else l) in (True, l)
     else if code = 0xA5 then
       let l = clip_end_left w l in if above w (line_end l) then (False, l)
       else let l = clip_start_right w l in if below w (line_start l) then (False, l)
       else let l = (if below w (line_end l) then clip_end_bottom w l else l); l = (if above w (line_start l) then clip_start_top w l else l) in (True, l)
     else (False, l))"

definition ClipLine :: "clip_window \<Rightarrow> clip_line \<Rightarrow> bool \<times> clip_line" where
  "ClipLine w l = clip_switch (line_code w l) w l"

text \<open>The result of \<open>ClipLine\<close> is not used: the line is returned as it is then.\<close>

definition LineClipping :: "point \<Rightarrow> point \<Rightarrow> point \<times> point \<Rightarrow> point \<times> point" where
  "LineClipping bounds1 bounds2 line =
     (case line of (p, q) \<Rightarrow>
        let w = \<lparr>m_clipMin = bounds1, m_clipMax = bounds2\<rparr>;
            l = \<lparr>line_start = p, line_end = q, line_dx = fst q - fst p, line_dy = snd q - snd p\<rparr>;
            (_, l) = ClipLine w l
        in (line_start l, line_end l))"

subsection \<open>Positions along the line\<close>

text \<open>A point of the line given by its parameter, and a line cut at two parameters\<close>

definition along :: "point \<Rightarrow> rat \<Rightarrow> rat \<Rightarrow> rat \<Rightarrow> point" where
  "along p dx dy u = (fst p + u * dx, snd p + u * dy)"

definition cut :: "point \<Rightarrow> rat \<Rightarrow> rat \<Rightarrow> rat \<Rightarrow> rat \<Rightarrow> clip_line" where
  "cut p dx dy s e = \<lparr>line_start = along p dx dy s, line_end = along p dx dy e, line_dx = dx, line_dy = dy\<rparr>"

text \<open>The parameter at which a coordinate has a given value\<close>

definition cross :: "rat \<Rightarrow> rat \<Rightarrow> rat \<Rightarrow> rat" where
  "cross c a d = (c - a) / d"

lemma cross_hit: "d \<noteq> 0 \<Longrightarrow> a + cross c a d * d = c"
  by (simp add: cross_def)

lemma cross_step: "d \<noteq> 0 \<Longrightarrow> a' + u * d' + d' * (c - (a + u * d)) / d = a' + cross c a d * d'"
  by (simp add: cross_def field_simps)

lemma cross_mono: "0 < d \<Longrightarrow> c \<le> c' \<Longrightarrow> cross c a d \<le> cross c' a d" "d < 0 \<Longrightarrow> c \<le> c' \<Longrightarrow> cross c' a d \<le> cross c a d"
  by (simp_all add: cross_def divide_right_mono divide_right_mono_neg)

lemma along_pos:
  "0 < dx \<Longrightarrow> fst (along p dx dy u) < c \<longleftrightarrow> u < cross c (fst p) dx"
  "0 < dx \<Longrightarrow> c < fst (along p dx dy u) \<longleftrightarrow> cross c (fst p) dx < u"
  "0 < dy \<Longrightarrow> snd (along p dx dy u) < c \<longleftrightarrow> u < cross c (snd p) dy"
  "0 < dy \<Longrightarrow> c < snd (along p dx dy u) \<longleftrightarrow> cross c (snd p) dy < u"
  by (simp_all add: along_def cross_def field_simps)

lemma along_neg:
  "dx < 0 \<Longrightarrow> fst (along p dx dy u) < c \<longleftrightarrow> cross c (fst p) dx < u"
  "dx < 0 \<Longrightarrow> c < fst (along p dx dy u) \<longleftrightarrow> u < cross c (fst p) dx"
  "dy < 0 \<Longrightarrow> snd (along p dx dy u) < c \<longleftrightarrow> cross c (snd p) dy < u"
  "dy < 0 \<Longrightarrow> c < snd (along p dx dy u) \<longleftrightarrow> u < cross c (snd p) dy"
  by (simp_all add: along_def cross_def field_simps)

lemma along_zero: "fst (along p 0 dy u) = fst p" "snd (along p dx 0 u) = snd p"
  by (simp_all add: along_def)

lemma cut_simps:
  "line_start (cut p dx dy s e) = along p dx dy s" "line_end (cut p dx dy s e) = along p dx dy e"
  by (simp_all add: cut_def)

lemma clip_cut:
  "dy \<noteq> 0 \<Longrightarrow> clip_start_top w (cut p dx dy s e) = cut p dx dy (cross (snd (m_clipMin w)) (snd p) dy) e"
  "dy \<noteq> 0 \<Longrightarrow> clip_start_bottom w (cut p dx dy s e) = cut p dx dy (cross (snd (m_clipMax w)) (snd p) dy) e"
  "dx \<noteq> 0 \<Longrightarrow> clip_start_left w (cut p dx dy s e) = cut p dx dy (cross (fst (m_clipMin w)) (fst p) dx) e"
  "dx \<noteq> 0 \<Longrightarrow> clip_start_right w (cut p dx dy s e) = cut p dx dy (cross (fst (m_clipMax w)) (fst p) dx) e"
  "dy \<noteq> 0 \<Longrightarrow> clip_end_top w (cut p dx dy s e) = cut p dx dy s (cross (snd (m_clipMin w)) (snd p) dy)"
  "dy \<noteq> 0 \<Longrightarrow> clip_end_bottom w (cut p dx dy s e) = cut p dx dy s (cross (snd (m_clipMax w)) (snd p) dy)"
  "dx \<noteq> 0 \<Longrightarrow> clip_end_left w (cut p dx dy s e) = cut p dx dy s (cross (fst (m_clipMin w)) (fst p) dx)"
  "dx \<noteq> 0 \<Longrightarrow> clip_end_right w (cut p dx dy s e) = cut p dx dy s (cross (fst (m_clipMax w)) (fst p) dx)"
  by (simp_all add: cut_def along_def cross_hit cross_step clip_start_top_def clip_start_bottom_def clip_start_left_def
      clip_start_right_def clip_end_top_def clip_end_bottom_def clip_end_left_def clip_end_right_def)

subsection \<open>The visible part\<close>

definition inside :: "clip_window \<Rightarrow> point \<Rightarrow> bool" where
  "inside w p \<longleftrightarrow> \<not> left_of w p \<and> \<not> right_of w p \<and> \<not> above w p \<and> \<not> below w p"

definition window_ok :: "clip_window \<Rightarrow> bool" where
  "window_ok w \<longleftrightarrow> fst (m_clipMin w) \<le> fst (m_clipMax w) \<and> snd (m_clipMin w) \<le> snd (m_clipMax w)"

lemma window_okD:
  "window_ok w \<Longrightarrow> fst (m_clipMin w) \<le> fst (m_clipMax w)" "window_ok w \<Longrightarrow> snd (m_clipMin w) \<le> snd (m_clipMax w)"
  by (simp_all add: window_ok_def)

text \<open>
  What clipping should give: the line cut at two of its points; when it reports success these are the ends of the visible
  part, otherwise nothing of the line is visible.
\<close>

definition clips :: "clip_window \<Rightarrow> point \<Rightarrow> rat \<Rightarrow> rat \<Rightarrow> bool \<times> clip_line \<Rightarrow> bool" where
  "clips w p dx dy r \<longleftrightarrow>
     (\<exists>s e. snd r = cut p dx dy s e \<and> 0 \<le> s \<and> s \<le> 1 \<and> 0 \<le> e \<and> e \<le> 1
        \<and> (if fst r then s \<le> e \<and> (\<forall>u. 0 \<le> u \<and> u \<le> 1 \<longrightarrow> (inside w (along p dx dy u) \<longleftrightarrow> s \<le> u \<and> u \<le> e))
           else \<forall>u. 0 \<le> u \<and> u \<le> 1 \<longrightarrow> \<not> inside w (along p dx dy u)))"

lemma clips_True:
  assumes "0 \<le> s" "s \<le> e" "e \<le> 1"
    and "\<And>u. s \<le> u \<Longrightarrow> u \<le> e \<Longrightarrow> \<not> left_of w (along p dx dy u)" "\<And>u. s \<le> u \<Longrightarrow> u \<le> e \<Longrightarrow> \<not> right_of w (along p dx dy u)"
    and "\<And>u. s \<le> u \<Longrightarrow> u \<le> e \<Longrightarrow> \<not> above w (along p dx dy u)" "\<And>u. s \<le> u \<Longrightarrow> u \<le> e \<Longrightarrow> \<not> below w (along p dx dy u)"
    and "\<And>u. 0 \<le> u \<Longrightarrow> \<not> left_of w (along p dx dy u) \<Longrightarrow> \<not> right_of w (along p dx dy u) \<Longrightarrow> \<not> above w (along p dx dy u) \<Longrightarrow>
      \<not> below w (along p dx dy u) \<Longrightarrow> s \<le> u"
    and "\<And>u. u \<le> 1 \<Longrightarrow> \<not> left_of w (along p dx dy u) \<Longrightarrow> \<not> right_of w (along p dx dy u) \<Longrightarrow> \<not> above w (along p dx dy u) \<Longrightarrow>
      \<not> below w (along p dx dy u) \<Longrightarrow> u \<le> e"
  shows "clips w p dx dy (True, cut p dx dy s e)"
proof -
  have "inside w (along p dx dy u) \<longleftrightarrow> s \<le> u \<and> u \<le> e" if "0 \<le> u" "u \<le> 1" for u
    unfolding inside_def using assms(4-9) [of u] that by blast
  moreover have "s \<le> 1" "0 \<le> e" using assms(1-3) by simp_all
  ultimately show ?thesis
    unfolding clips_def fst_conv snd_conv if_True using assms(1-3) by blast
qed

lemma clips_False:
  assumes "0 \<le> s" "s \<le> 1" "0 \<le> e" "e \<le> 1"
    and "\<And>u. 0 \<le> u \<Longrightarrow> u \<le> 1 \<Longrightarrow> \<not> left_of w (along p dx dy u) \<Longrightarrow> \<not> right_of w (along p dx dy u) \<Longrightarrow> \<not> above w (along p dx dy u) \<Longrightarrow>
      \<not> below w (along p dx dy u) \<Longrightarrow> False"
  shows "clips w p dx dy (False, cut p dx dy s e)"
proof -
  have "\<not> inside w (along p dx dy u)" if "0 \<le> u" "u \<le> 1" for u
    unfolding inside_def using assms(5) [of u] that by blast
  then show ?thesis
    unfolding clips_def fst_conv snd_conv if_False using assms(1-4) by blast
qed

text \<open>The cases of the switch, for each direction of the line\<close>

lemmas clip_simps = clip_cut cut_simps along_pos along_neg along_zero

lemma clips_pos_pos:
  assumes w: "window_ok w" and dx: "0 < dx" and dy: "0 < dy"
  shows "clips w p dx dy (ClipLine w (cut p dx dy 0 1))"
  unfolding ClipLine_def line_code_def Let_def
  using dx cross_mono(1) [OF dx window_okD(1) [OF w], of "fst p"] dy cross_mono(1) [OF dy window_okD(2) [OF w], of "snd p"]
  by (simp only: clip_simps split: if_split, intro conjI impI)
    (simp_all add: clip_switch_def clip_simps split del: if_split,
     (simp_all only: Let_def clip_simps split: if_split)?,
     ((intro conjI impI)?; (rule clips_True | rule clips_False); (simp only: clip_simps)?; (linarith | simp)?)+)

lemma clips_pos_zero:
  assumes w: "window_ok w" and dx: "0 < dx"
  shows "clips w p dx 0 (ClipLine w (cut p dx 0 0 1))"
  unfolding ClipLine_def line_code_def Let_def
  using dx cross_mono(1) [OF dx window_okD(1) [OF w], of "fst p"] window_okD(2) [OF w]
  by (simp only: clip_simps split: if_split, intro conjI impI)
    (simp_all add: clip_switch_def clip_simps split del: if_split,
     (auto simp: Let_def clip_simps intro!: clips_True clips_False split: if_split)?)

lemma clips_pos_neg:
  assumes w: "window_ok w" and dx: "0 < dx" and dy: "dy < 0"
  shows "clips w p dx dy (ClipLine w (cut p dx dy 0 1))"
  unfolding ClipLine_def line_code_def Let_def
  using dx cross_mono(1) [OF dx window_okD(1) [OF w], of "fst p"] dy cross_mono(2) [OF dy window_okD(2) [OF w], of "snd p"]
  by (simp only: clip_simps split: if_split, intro conjI impI)
    (simp_all add: clip_switch_def clip_simps split del: if_split,
     (simp_all only: Let_def clip_simps split: if_split)?,
     ((intro conjI impI)?; (rule clips_True | rule clips_False); (simp only: clip_simps)?; (linarith | simp)?)+)

lemma clips_zero_pos:
  assumes w: "window_ok w" and dy: "0 < dy"
  shows "clips w p 0 dy (ClipLine w (cut p 0 dy 0 1))"
  unfolding ClipLine_def line_code_def Let_def
  using window_okD(1) [OF w] dy cross_mono(1) [OF dy window_okD(2) [OF w], of "snd p"]
  by (simp only: clip_simps split: if_split, intro conjI impI)
    (simp_all add: clip_switch_def clip_simps split del: if_split,
     (auto simp: Let_def clip_simps intro!: clips_True clips_False split: if_split)?)

lemma clips_zero_zero:
  assumes w: "window_ok w"
  shows "clips w p 0 0 (ClipLine w (cut p 0 0 0 1))"
  unfolding ClipLine_def line_code_def Let_def
  using window_okD(1) [OF w] window_okD(2) [OF w]
  by (simp only: clip_simps split: if_split, intro conjI impI)
    (simp_all add: clip_switch_def clip_simps split del: if_split,
     (auto simp: Let_def clip_simps intro!: clips_True clips_False split: if_split)?)

lemma clips_zero_neg:
  assumes w: "window_ok w" and dy: "dy < 0"
  shows "clips w p 0 dy (ClipLine w (cut p 0 dy 0 1))"
  unfolding ClipLine_def line_code_def Let_def
  using window_okD(1) [OF w] dy cross_mono(2) [OF dy window_okD(2) [OF w], of "snd p"]
  by (simp only: clip_simps split: if_split, intro conjI impI)
    (simp_all add: clip_switch_def clip_simps split del: if_split,
     (auto simp: Let_def clip_simps intro!: clips_True clips_False split: if_split)?)

lemma clips_neg_pos:
  assumes w: "window_ok w" and dx: "dx < 0" and dy: "0 < dy"
  shows "clips w p dx dy (ClipLine w (cut p dx dy 0 1))"
  unfolding ClipLine_def line_code_def Let_def
  using dx cross_mono(2) [OF dx window_okD(1) [OF w], of "fst p"] dy cross_mono(1) [OF dy window_okD(2) [OF w], of "snd p"]
  by (simp only: clip_simps split: if_split, intro conjI impI)
    (simp_all add: clip_switch_def clip_simps split del: if_split,
     (simp_all only: Let_def clip_simps split: if_split)?,
     ((intro conjI impI)?; (rule clips_True | rule clips_False); (simp only: clip_simps)?; (linarith | simp)?)+)

lemma clips_neg_zero:
  assumes w: "window_ok w" and dx: "dx < 0"
  shows "clips w p dx 0 (ClipLine w (cut p dx 0 0 1))"
  unfolding ClipLine_def line_code_def Let_def
  using dx cross_mono(2) [OF dx window_okD(1) [OF w], of "fst p"] window_okD(2) [OF w]
  by (simp only: clip_simps split: if_split, intro conjI impI)
    (simp_all add: clip_switch_def clip_simps split del: if_split,
     (auto simp: Let_def clip_simps intro!: clips_True clips_False split: if_split)?)

lemma clips_neg_neg:
  assumes w: "window_ok w" and dx: "dx < 0" and dy: "dy < 0"
  shows "clips w p dx dy (ClipLine w (cut p dx dy 0 1))"
  unfolding ClipLine_def line_code_def Let_def
  using dx cross_mono(2) [OF dx window_okD(1) [OF w], of "fst p"] dy cross_mono(2) [OF dy window_okD(2) [OF w], of "snd p"]
  by (simp only: clip_simps split: if_split, intro conjI impI)
    (simp_all add: clip_switch_def clip_simps split del: if_split,
     (simp_all only: Let_def clip_simps split: if_split)?,
     ((intro conjI impI)?; (rule clips_True | rule clips_False); (simp only: clip_simps)?; (linarith | simp)?)+)

lemma ClipLine_clips: "window_ok w \<Longrightarrow> clips w p dx dy (ClipLine w (cut p dx dy 0 1))"
  by (cases dx "0 :: rat" rule: linorder_cases; cases dy "0 :: rat" rule: linorder_cases)
    (simp_all add: clips_pos_pos clips_pos_zero clips_pos_neg clips_zero_pos clips_zero_zero clips_zero_neg
      clips_neg_pos clips_neg_zero clips_neg_neg)

subsection \<open>LineClipping\<close>

text \<open>The parameters of the visible points of the line from \<open>p\<close> to \<open>q\<close>, and a point of that line\<close>

definition visible :: "point \<Rightarrow> point \<Rightarrow> point \<Rightarrow> point \<Rightarrow> rat set" where
  "visible b1 b2 p q = {u. 0 \<le> u \<and> u \<le> 1 \<and> inside \<lparr>m_clipMin = b1, m_clipMax = b2\<rparr> (along p (fst q - fst p) (snd q - snd p) u)}"

abbreviation on_segment :: "point \<Rightarrow> point \<Rightarrow> rat \<Rightarrow> point" where
  "on_segment p q \<equiv> along p (fst q - fst p) (snd q - snd p)"

abbreviation segment_line :: "point \<Rightarrow> point \<Rightarrow> clip_line" where
  "segment_line p q \<equiv> \<lparr>line_start = p, line_end = q, line_dx = fst q - fst p, line_dy = snd q - snd p\<rparr>"

lemma segment_line_cut: "segment_line p q = cut p (fst q - fst p) (snd q - snd p) 0 1"
  by (simp add: cut_def along_def)

lemma LineClipping_cut:
  assumes "fst b1 \<le> fst b2" "snd b1 \<le> snd b2"
  obtains s e where "LineClipping b1 b2 (p, q) = (on_segment p q s, on_segment p q e)" "0 \<le> s" "s \<le> 1" "0 \<le> e" "e \<le> 1"
    and "fst (ClipLine \<lparr>m_clipMin = b1, m_clipMax = b2\<rparr> (segment_line p q)) \<longleftrightarrow> visible b1 b2 p q \<noteq> {}"
    and "visible b1 b2 p q \<noteq> {} \<Longrightarrow> s \<le> e \<and> visible b1 b2 p q = {s..e}"
proof -
  let ?w = "\<lparr>m_clipMin = b1, m_clipMax = b2\<rparr>" and ?r = "ClipLine \<lparr>m_clipMin = b1, m_clipMax = b2\<rparr> (segment_line p q)"
  have "clips ?w p (fst q - fst p) (snd q - snd p) ?r"
    unfolding segment_line_cut by (rule ClipLine_clips) (simp add: window_ok_def assms)
  then obtain s e where l: "snd ?r = cut p (fst q - fst p) (snd q - snd p) s e" and b: "0 \<le> s" "s \<le> 1" "0 \<le> e" "e \<le> 1"
    and v: "if fst ?r then s \<le> e \<and> (\<forall>u. 0 \<le> u \<and> u \<le> 1 \<longrightarrow> (inside ?w (on_segment p q u) \<longleftrightarrow> s \<le> u \<and> u \<le> e))
       else \<forall>u. 0 \<le> u \<and> u \<le> 1 \<longrightarrow> \<not> inside ?w (on_segment p q u)"
    unfolding clips_def by blast
  have vis: "visible b1 b2 p q = (if fst ?r then {s..e} else {})" and se: "fst ?r \<Longrightarrow> s \<le> e"
    using v b by (auto simp: visible_def split: if_splits)
  have "LineClipping b1 b2 (p, q) = (line_start (snd ?r), line_end (snd ?r))"
    by (simp add: LineClipping_def Let_def split: prod.split)
  then show ?thesis
    using that [of s e] l b vis se by (simp add: cut_simps split: if_splits)
qed

text \<open>
  C19. \<open>PyViz::LineClipping\<close>: for a window given by its top left and bottom right corners, \<open>ClipLine\<close> reports success exactly if a
  point of the line is inside the window, and then \<open>LineClipping\<close> returns the two ends of the visible part: the points of the
  line between them are exactly the points of the line inside the window.
\<close>

theorem LineClipping_visible_part:
  assumes "fst b1 \<le> fst b2" "snd b1 \<le> snd b2"
  shows "(fst (ClipLine \<lparr>m_clipMin = b1, m_clipMax = b2\<rparr> (segment_line p q)) \<longleftrightarrow> visible b1 b2 p q \<noteq> {})
    \<and> (visible b1 b2 p q \<noteq> {} \<longrightarrow>
        (\<exists>s e. s \<le> e \<and> visible b1 b2 p q = {s..e} \<and> LineClipping b1 b2 (p, q) = (on_segment p q s, on_segment p q e)))"
  using LineClipping_cut [OF assms, of p q] by metis

lemma LineClipping_visible_part_witness:
  "LineClipping (0, 0) (10, 10) ((-5, 0), (15, 20)) = ((0, 5), (5, 10))
   \<and> (\<exists>s e. s \<le> e \<and> visible (0, 0) (10, 10) (-5, 0) (15, 20) = {s..e}
        \<and> LineClipping (0, 0) (10, 10) ((-5, 0), (15, 20)) = (on_segment (-5, 0) (15, 20) s, on_segment (-5, 0) (15, 20) e))"
proof
  show "LineClipping (0, 0) (10, 10) ((-5, 0), (15, 20)) = ((0, 5), (5, 10))"
    by (simp add: LineClipping_def ClipLine_def line_code_def clip_switch_def clip_start_left_def clip_end_bottom_def)
  have "1 / 3 \<in> visible (0, 0) (10, 10) (-5, 0) (15, 20)"
    by (simp add: visible_def inside_def along_def)
  then show "\<exists>s e. s \<le> e \<and> visible (0, 0) (10, 10) (-5, 0) (15, 20) = {s..e}
        \<and> LineClipping (0, 0) (10, 10) ((-5, 0), (15, 20)) = (on_segment (-5, 0) (15, 20) s, on_segment (-5, 0) (15, 20) e)"
    using LineClipping_visible_part [of "(0, 0)" "(10, 10)" "(-5, 0)" "(15, 20)"] by auto
qed

text \<open>The middle of the clipped line\<close>

definition midpoint :: "point \<times> point \<Rightarrow> point" where
  "midpoint l = ((fst (fst l) + fst (snd l)) / 2, (snd (fst l) + snd (snd l)) / 2)"

lemma midpoint_along: "midpoint (along p dx dy s, along p dx dy e) = along p dx dy ((s + e) / 2)"
  by (simp add: midpoint_def along_def field_simps)

lemma midpoint_clipped:
  assumes "fst b1 \<le> fst b2" "snd b1 \<le> snd b2"
  shows "inside \<lparr>m_clipMin = b1, m_clipMax = b2\<rparr> (midpoint (LineClipping b1 b2 (p, q))) \<longleftrightarrow> visible b1 b2 p q \<noteq> {}"
proof -
  obtain s e where *: "LineClipping b1 b2 (p, q) = (on_segment p q s, on_segment p q e)" "0 \<le> s" "s \<le> 1" "0 \<le> e" "e \<le> 1"
    "visible b1 b2 p q \<noteq> {} \<Longrightarrow> s \<le> e \<and> visible b1 b2 p q = {s..e}"
    using LineClipping_cut [OF assms, of p q] by metis
  have mid: "(s + e) / 2 \<in> visible b1 b2 p q \<longleftrightarrow> inside \<lparr>m_clipMin = b1, m_clipMax = b2\<rparr> (midpoint (LineClipping b1 b2 (p, q)))"
    using *(2-5) by (simp add: visible_def *(1) midpoint_along)
  show ?thesis
    using mid *(6) by (cases "visible b1 b2 p q = {}") auto
qed

end
