(* ===== verification/Viz_View.thy ===== *)
theory Viz_View
  imports Viz_Clip Py_Format
begin

text \<open>
  The view of the visualizer onto the scene (\<open>core.py\<close>): scroll bars, zoom, panning with the middle button, following and
  centering a node, the first scaling of the view, the place of the arrows' labels, snapshots and tooltips.

  The scroll bars (\<open>Gtk.Adjustment\<close>) and the conversions between canvas and pixels (GooCanvas) are the parameter \<open>canvas_lib\<close>,
  with the locale \<open>canvas\<close> for what their documentation says. Coordinates are rational numbers.
\<close>

record adjustment =
  adj_value :: rat
  adj_lower :: rat
  adj_upper :: rat
  adj_page :: rat

type_synonym scrollbars = "adjustment \<times> adjustment"

text \<open>
  \<open>Adjustment.set_value\<close>; \<open>convert_to_pixels\<close>, \<open>convert_from_pixels\<close>, for the bounds and the scale of the canvas; \<open>set_scale\<close>,
  \<open>set_bounds\<close> and \<open>scroll_to\<close> by what they do to the scroll bars
\<close>

record canvas_lib =
  lib_set_value :: "rat \<Rightarrow> adjustment \<Rightarrow> adjustment"
  lib_to_pixels :: "point \<times> point \<Rightarrow> rat \<Rightarrow> point \<Rightarrow> point"
  lib_from_pixels :: "point \<times> point \<Rightarrow> rat \<Rightarrow> point \<Rightarrow> point"
  lib_configure :: "point \<times> point \<Rightarrow> rat \<Rightarrow> scrollbars \<Rightarrow> scrollbars"
  lib_scroll_to :: "point \<times> point \<Rightarrow> rat \<Rightarrow> point \<Rightarrow> scrollbars \<Rightarrow> scrollbars"

record panning_state =
  initial_mouse_pos :: point
  initial_canvas_pos :: point

record view =
  vw_scene :: scene
  vw_bars :: scrollbars
  vw_zoom :: adjustment
  vw_scale :: rat
  vw_panning :: "panning_state option"
  vw_follow :: "nat option"

definition convert_to_pixels :: "canvas_lib \<Rightarrow> view \<Rightarrow> point \<Rightarrow> point" where
  "convert_to_pixels lib v = lib_to_pixels lib (vs_bounds (vw_scene v)) (vw_scale v)"

definition convert_from_pixels :: "canvas_lib \<Rightarrow> view \<Rightarrow> point \<Rightarrow> point" where
  "convert_from_pixels lib v = lib_from_pixels lib (vs_bounds (vw_scene v)) (vw_scale v)"

definition set_bars :: "canvas_lib \<Rightarrow> point \<Rightarrow> view \<Rightarrow> view" where
  "set_bars lib p v = v\<lparr>vw_bars := (lib_set_value lib (fst p) (fst (vw_bars v)), lib_set_value lib (snd p) (snd (vw_bars v)))\<rparr>"

subsection \<open>Zoom\<close>

text \<open>The signal \<open>value-changed\<close> of the zoom adjustment sets the scale of the canvas.\<close>

definition zoom_changed :: "canvas_lib \<Rightarrow> view \<Rightarrow> view" where
  "zoom_changed lib v =
     (let z = adj_value (vw_zoom v)
      in v\<lparr>vw_scale := z, vw_bars := lib_configure lib (vs_bounds (vw_scene v)) z (vw_bars v)\<rparr>)"

definition set_zoom :: "canvas_lib \<Rightarrow> rat \<Rightarrow> view \<Rightarrow> view" where
  "set_zoom lib x v =
     (let zoom = lib_set_value lib x (vw_zoom v); changed = adj_value zoom \<noteq> adj_value (vw_zoom v); v = v\<lparr>vw_zoom := zoom\<rparr>
      in if changed then zoom_changed lib v else v)"

datatype scroll_direction = Scroll_up | Scroll_down | Scroll_other

fun canvas_scroll_event :: "canvas_lib \<Rightarrow> scroll_direction \<Rightarrow> view \<Rightarrow> bool \<times> view" where
  "canvas_scroll_event lib Scroll_up v = (True, set_zoom lib (adj_value (vw_zoom v) * (5 / 4)) v)"
| "canvas_scroll_event lib Scroll_down v = (True, set_zoom lib (adj_value (vw_zoom v) / (5 / 4)) v)"
| "canvas_scroll_event lib Scroll_other v = (False, v)"

subsection \<open>Panning\<close>

definition begin_panning :: "point \<Rightarrow> view \<Rightarrow> view" where
  "begin_panning pos v =
     v\<lparr>vw_panning := Some \<lparr>initial_mouse_pos = pos, initial_canvas_pos = (adj_value (fst (vw_bars v)), adj_value (snd (vw_bars v)))\<rparr>\<rparr>"

definition end_panning :: "view \<Rightarrow> view" where
  "end_panning v = v\<lparr>vw_panning := None\<rparr>"

text \<open>\<open>pos\<close> is the position of the pointer: from the event, or asked for when the event is a hint.\<close>

definition panning_motion :: "canvas_lib \<Rightarrow> point \<Rightarrow> view \<Rightarrow> view result" where
  "panning_motion lib pos v =
     (case vw_panning v of
        None \<Rightarrow> Inl AssertionError
      | Some st \<Rightarrow>
          let dx = fst pos - fst (initial_mouse_pos st); dy = snd pos - snd (initial_mouse_pos st)
          in Inr (set_bars lib (fst (initial_canvas_pos st) - dx, snd (initial_canvas_pos st) - dy) v))"

definition canvas_button_press :: "nat \<Rightarrow> point \<Rightarrow> view \<Rightarrow> bool \<times> view" where
  "canvas_button_press button pos v = (if button = 2 then (True, begin_panning pos v) else (False, v))"

definition canvas_button_release :: "nat \<Rightarrow> view \<Rightarrow> bool \<times> view" where
  "canvas_button_release button v = (if button = 2 then (True, end_panning v) else (False, v))"

subsection \<open>Following and centering\<close>

definition centre_pixels :: "canvas_lib \<Rightarrow> point \<Rightarrow> view \<Rightarrow> view" where
  "centre_pixels lib p v =
     (let (px, py) = convert_to_pixels lib v p
      in set_bars lib (px - adj_page (fst (vw_bars v)) / 2, py - adj_page (snd (vw_bars v)) / 2) v)"

text \<open>Moving a node may extend the bounds of the canvas, and with them the range of the scroll bars.\<close>

definition scene_moved :: "canvas_lib \<Rightarrow> scene \<Rightarrow> view \<Rightarrow> view" where
  "scene_moved lib s v =
     v\<lparr>vw_scene := s,
       vw_bars := (if vs_bounds s = vs_bounds (vw_scene v) then vw_bars v
                   else lib_configure lib (vs_bounds s) (vw_scale v) (vw_bars v))\<rparr>"

definition follow_position :: "canvas_lib \<Rightarrow> view \<Rightarrow> nat \<Rightarrow> view" where
  "follow_position lib v i =
     (case has_mobility i (vw_scene v) of (mob, s) \<Rightarrow>
        let v = v\<lparr>vw_scene := s\<rparr> in
        if mob then
          case mobility_of s i of
            None \<Rightarrow> v
          | Some pos \<Rightarrow>
              let p = transform_point_simulation_to_canvas pos;
                  v = scene_moved lib (set_node_position i p s) v
              in if vw_follow v = Some i then centre_pixels lib p v else v
        else v)"

definition follow_positions :: "canvas_lib \<Rightarrow> view \<Rightarrow> view" where
  "follow_positions lib v = foldl (follow_position lib) v (dict_keys (vs_nodes (vw_scene v)))"

text \<open>A node is given as an object of the simulator, by its number, or as an object of the visualizer.\<close>

datatype node_ref = Ns3_node nat | Node_number nat | Viz_node nat | Other_object

definition set_follow_node :: "node_ref option \<Rightarrow> view \<Rightarrow> view result" where
  "set_follow_node node v =
     (case node of
        Some (Ns3_node i) \<Rightarrow> res_bind (dict_get (vs_nodes (vw_scene v)) i) (\<lambda>_. Inr (v\<lparr>vw_follow := Some i\<rparr>))
      | Some (Viz_node i) \<Rightarrow> Inr (v\<lparr>vw_follow := Some i\<rparr>)
      | _ \<Rightarrow> Inr (v\<lparr>vw_follow := None\<rparr>))"

definition center_on_node :: "canvas_lib \<Rightarrow> node_ref \<Rightarrow> view \<Rightarrow> view result" where
  "center_on_node lib node v =
     (case node of
        Other_object \<Rightarrow> Inl TypeError
      | Ns3_node i \<Rightarrow> res_bind (dict_get (vs_nodes (vw_scene v)) i) (\<lambda>n. Inr (centre_pixels lib (nv_pos n) v))
      | Node_number i \<Rightarrow> res_bind (dict_get (vs_nodes (vw_scene v)) i) (\<lambda>n. Inr (centre_pixels lib (nv_pos n) v))
      | Viz_node i \<Rightarrow> Inr (centre_pixels lib (end_pos (vw_scene v) (Node_end i)) v))"

subsection \<open>The visible part of the canvas\<close>

definition view_corners :: "canvas_lib \<Rightarrow> view \<Rightarrow> point \<times> point" where
  "view_corners lib v =
     (let (h, w) = vw_bars v
      in (convert_from_pixels lib v (adj_value h, adj_value w),
          convert_from_pixels lib v (adj_value h + adj_page h, adj_value w + adj_page w)))"

definition get_label_over_line_position :: "canvas_lib \<Rightarrow> point \<Rightarrow> point \<Rightarrow> view \<Rightarrow> point" where
  "get_label_over_line_position lib pos1 pos2 v =
     (let (b1, b2) = view_corners lib v; (p, q) = LineClipping b1 b2 (pos1, pos2)
      in ((fst p + fst q) / 2, (snd p + snd q) / 2))"

definition scroll_to :: "canvas_lib \<Rightarrow> point \<Rightarrow> view \<Rightarrow> view" where
  "scroll_to lib p v = v\<lparr>vw_bars := lib_scroll_to lib (vs_bounds (vw_scene v)) (vw_scale v) p (vw_bars v)\<rparr>"

definition autoscale_view :: "canvas_lib \<Rightarrow> view \<Rightarrow> view" where
  "autoscale_view lib v =
     (if vs_nodes (vw_scene v) = [] then v
      else
        let v = follow_positions lib v;
            positions = map (\<lambda>(_, n). nv_pos n) (vs_nodes (vw_scene v));
            min_x = Min (set (map fst positions)); min_y = Min (set (map snd positions));
            max_x = Max (set (map fst positions)); max_y = Max (set (map snd positions));
            (min_x_px, min_y_px) = convert_to_pixels lib v (min_x, min_y);
            (max_x_px, max_y_px) = convert_to_pixels lib v (max_x, max_y);
            new_dx = 3 / 2 * (max_x_px - min_x_px); new_dy = 3 / 2 * (max_y_px - min_y_px)
        in if new_dx = 0 \<or> new_dy = 0 then v
           else
             let v = set_zoom lib (min (adj_page (fst (vw_bars v)) / new_dx) (adj_page (snd (vw_bars v)) / new_dy)) v;
                 ((x1, y1), (x2, y2)) = view_corners lib v;
                 width = x2 - x1; height = y2 - y1;
                 center_x = (min_x + max_x) / 2; center_y = (min_y + max_y) / 2
             in scroll_to lib (center_x - width / 2, center_y - height / 2) v)"

subsection \<open>Snapshots\<close>

datatype surface = PSSurface | PDFSurface | SVGSurface

text \<open>A snapshot that was drawn: kind and name of the file, its size, the origin and the scale of the drawing\<close>

record snapshot =
  ss_surface :: surface
  ss_file :: string
  ss_size :: point
  ss_origin :: point
  ss_scale :: rat

datatype snapshot_outcome = No_snapshot | Error_dialog string | Drawn snapshot

definition take_screenshot :: "canvas_lib \<Rightarrow> string option \<Rightarrow> view \<Rightarrow> snapshot_outcome" where
  "take_screenshot lib file_name v =
     (case file_name of
        None \<Rightarrow> No_snapshot
      | Some f \<Rightarrow>
          let ((x1, y1), (x2, y2)) = view_corners lib v;
              extension = py_lower (snd (splitext f));
              draw = (\<lambda>kind. Drawn \<lparr>ss_surface = kind, ss_file = f, ss_size = (x2 - x1, y2 - y1), ss_origin = (- x1, - y1),
                                    ss_scale = adj_value (vw_zoom v)\<rparr>)
          in if extension = ''.eps'' then draw PSSurface
             else if extension = ''.pdf'' then draw PDFSurface
             else if extension = ''.svg'' then draw SVGSurface
             else Error_dialog (''Unknown extension '' @ [CHR 0x27] @ extension
                    @ [CHR 0x27] @ '' (valid extensions are '' @ [CHR 0x27] @ ''.eps'' @ [CHR 0x27] @ '', '' @ [CHR 0x27] @ ''.svg''
                    @ [CHR 0x27] @ '', and '' @ [CHR 0x27] @ ''.pdf'' @ [CHR 0x27] @ '')''))"

subsection \<open>What GTK and GooCanvas promise\<close>

definition in_range :: "rat \<Rightarrow> adjustment \<Rightarrow> bool" where
  "in_range x a \<longleftrightarrow> adj_lower a \<le> x \<and> x \<le> adj_upper a - adj_page a"

locale canvas =
  fixes lib :: canvas_lib
  assumes set_value_only: "lib_set_value lib x a = a\<lparr>adj_value := adj_value (lib_set_value lib x a)\<rparr>"
    and set_value_in: "in_range x a \<Longrightarrow> adj_value (lib_set_value lib x a) = x"
    and set_value_lower: "adj_lower a \<le> adj_value (lib_set_value lib x a)"
    and to_pixels_shift: "lib_to_pixels lib b z (x + dx, y + dy) =
      (fst (lib_to_pixels lib b z (x, y)) + z * dx, snd (lib_to_pixels lib b z (x, y)) + z * dy)"
    and from_to_pixels: "0 < z \<Longrightarrow> lib_from_pixels lib b z (lib_to_pixels lib b z p) = p"
    and to_from_pixels: "0 < z \<Longrightarrow> lib_to_pixels lib b z (lib_from_pixels lib b z p) = p"
    and configure_page:
      "adj_page (fst (lib_configure lib b z bars)) = adj_page (fst bars)"
      "adj_page (snd (lib_configure lib b z bars)) = adj_page (snd bars)"
    and configure_range:
      "adj_lower (fst (lib_configure lib b z bars)) \<le> fst (lib_to_pixels lib b z (fst b))"
      "fst (lib_to_pixels lib b z (snd b)) \<le> adj_upper (fst (lib_configure lib b z bars))"
      "adj_lower (snd (lib_configure lib b z bars)) \<le> snd (lib_to_pixels lib b z (fst b))"
      "snd (lib_to_pixels lib b z (snd b)) \<le> adj_upper (snd (lib_configure lib b z bars))"
    and scroll_only: "\<exists>p. lib_scroll_to lib b z q (h, w) = (h\<lparr>adj_value := fst p\<rparr>, w\<lparr>adj_value := snd p\<rparr>)"
    and scroll_in: "lib_to_pixels lib b z q = (px, py) \<Longrightarrow> in_range px h \<Longrightarrow> in_range py w \<Longrightarrow>
      lib_scroll_to lib b z q (h, w) = (h\<lparr>adj_value := px\<rparr>, w\<lparr>adj_value := py\<rparr>)"
begin

lemma set_value_fields [simp]:
  "adj_lower (lib_set_value lib x a) = adj_lower a" "adj_upper (lib_set_value lib x a) = adj_upper a"
  "adj_page (lib_set_value lib x a) = adj_page a"
  by (subst set_value_only, simp)+

lemma scroll_fields [simp]:
  "adj_lower (fst (lib_scroll_to lib b z q bars)) = adj_lower (fst bars)" "adj_lower (snd (lib_scroll_to lib b z q bars)) = adj_lower (snd bars)"
  "adj_upper (fst (lib_scroll_to lib b z q bars)) = adj_upper (fst bars)" "adj_upper (snd (lib_scroll_to lib b z q bars)) = adj_upper (snd bars)"
  "adj_page (fst (lib_scroll_to lib b z q bars)) = adj_page (fst bars)" "adj_page (snd (lib_scroll_to lib b z q bars)) = adj_page (snd bars)"
  using scroll_only [of b z q "fst bars" "snd bars"] by (auto simp: prod_eq_iff)

text \<open>The conversions preserve differences up to the scale.\<close>

lemma to_pixels_diff:
  "fst (lib_to_pixels lib b z q) = fst (lib_to_pixels lib b z p) + z * (fst q - fst p)"
  "snd (lib_to_pixels lib b z q) = snd (lib_to_pixels lib b z p) + z * (snd q - snd p)"
  using to_pixels_shift [of b z "fst p" "fst q - fst p" "snd p" "snd q - snd p"] by simp_all

lemma from_pixels_diff:
  assumes "0 < z"
  shows "fst (lib_from_pixels lib b z q) = fst (lib_from_pixels lib b z p) + (fst q - fst p) / z"
    "snd (lib_from_pixels lib b z q) = snd (lib_from_pixels lib b z p) + (snd q - snd p) / z"
  using to_pixels_diff [of b z "lib_from_pixels lib b z q" "lib_from_pixels lib b z p"] assms
  by (simp_all add: to_from_pixels field_simps)

end

subsection \<open>The view stays consistent\<close>

text \<open>
  The canvas has the scale of the zoom button, the window has a size, and the scroll bars reach all of the canvas.
\<close>

definition bars_ok :: "canvas_lib \<Rightarrow> point \<times> point \<Rightarrow> rat \<Rightarrow> scrollbars \<Rightarrow> bool" where
  "bars_ok lib b z bars \<longleftrightarrow>
     0 < adj_page (fst bars) \<and> 0 < adj_page (snd bars)
     \<and> adj_lower (fst bars) \<le> fst (lib_to_pixels lib b z (fst b)) \<and> fst (lib_to_pixels lib b z (snd b)) \<le> adj_upper (fst bars)
     \<and> adj_lower (snd bars) \<le> snd (lib_to_pixels lib b z (fst b)) \<and> snd (lib_to_pixels lib b z (snd b)) \<le> adj_upper (snd bars)"

definition view_ok :: "canvas_lib \<Rightarrow> view \<Rightarrow> bool" where
  "view_ok lib v \<longleftrightarrow>
     vw_scale v = adj_value (vw_zoom v) \<and> 0 < adj_lower (vw_zoom v) \<and> adj_lower (vw_zoom v) \<le> adj_value (vw_zoom v)
     \<and> bars_ok lib (vs_bounds (vw_scene v)) (vw_scale v) (vw_bars v)"

lemma view_ok_other [simp]:
  "view_ok lib (v\<lparr>vw_panning := x\<rparr>) = view_ok lib v" "view_ok lib (v\<lparr>vw_follow := y\<rparr>) = view_ok lib v"
  by (simp_all add: view_ok_def)

text \<open>What happens to a view; \<open>moved\<close> is any change of the scene, \<open>resize\<close> is the user's change of the size of the window.\<close>

inductive view_step :: "canvas_lib \<Rightarrow> view \<Rightarrow> view \<Rightarrow> bool" for lib where
  zoom: "view_step lib v (set_zoom lib x v)"
| scroll: "view_step lib v (snd (canvas_scroll_event lib d v))"
| press: "view_step lib v (snd (canvas_button_press button pos v))"
| release: "view_step lib v (snd (canvas_button_release button v))"
| motion: "panning_motion lib pos v = Inr v' \<Longrightarrow> view_step lib v v'"
| update: "view_step lib v (follow_positions lib v)"
| follow: "set_follow_node node v = Inr v' \<Longrightarrow> view_step lib v v'"
| centre: "center_on_node lib ref v = Inr v' \<Longrightarrow> view_step lib v v'"
| autoscale: "view_step lib v (autoscale_view lib v)"
| moved: "view_step lib v (scene_moved lib s v)"
| resize: "0 < pw \<Longrightarrow> 0 < ph \<Longrightarrow> vw_bars v = (h, w) \<Longrightarrow>
    view_step lib v (v\<lparr>vw_bars := lib_configure lib (vs_bounds (vw_scene v)) (vw_scale v) (h\<lparr>adj_page := pw\<rparr>, w\<lparr>adj_page := ph\<rparr>)\<rparr>)"

context canvas
begin

lemma bars_ok_configure: "0 < adj_page (fst bars) \<Longrightarrow> 0 < adj_page (snd bars) \<Longrightarrow> bars_ok lib b z (lib_configure lib b z bars)"
  by (simp add: bars_ok_def configure_page configure_range)

lemma bars_ok_reconfigure: "bars_ok lib b' z' bars \<Longrightarrow> bars_ok lib b z (lib_configure lib b z bars)"
  by (rule bars_ok_configure) (simp_all add: bars_ok_def)

lemma view_ok_set_bars: "view_ok lib v \<Longrightarrow> view_ok lib (set_bars lib p v)"
  by (auto simp: view_ok_def bars_ok_def set_bars_def)

lemma view_ok_scroll_to: "view_ok lib v \<Longrightarrow> view_ok lib (scroll_to lib p v)"
  by (auto simp: view_ok_def bars_ok_def scroll_to_def)

lemma view_ok_set_zoom: "view_ok lib v \<Longrightarrow> view_ok lib (set_zoom lib x v)"
  by (auto simp: view_ok_def set_zoom_def zoom_changed_def Let_def set_value_lower intro: bars_ok_reconfigure)

lemma view_ok_centre_pixels: "view_ok lib v \<Longrightarrow> view_ok lib (centre_pixels lib p v)"
  by (simp add: centre_pixels_def view_ok_set_bars split: prod.split)

lemma view_ok_scene_moved: "view_ok lib v \<Longrightarrow> view_ok lib (scene_moved lib s v)"
  by (auto simp: view_ok_def scene_moved_def intro: bars_ok_reconfigure)

end

lemma has_mobility_bounds [simp]: "vs_bounds (snd (has_mobility i s)) = vs_bounds s"
  by (simp add: has_mobility_def upd_node_def Let_def split: option.split)

context canvas
begin

lemma view_ok_follow_position: "view_ok lib v \<Longrightarrow> view_ok lib (follow_position lib v i)"
proof -
  assume v: "view_ok lib v"
  obtain mob s where m: "has_mobility i (vw_scene v) = (mob, s)" by force
  have b: "vs_bounds s = vs_bounds (vw_scene v)" using has_mobility_bounds [of i "vw_scene v"] m by simp
  have "view_ok lib (v\<lparr>vw_scene := s\<rparr>)" using v b by (auto simp: view_ok_def)
  then show ?thesis
    by (simp add: follow_position_def m Let_def view_ok_scene_moved view_ok_centre_pixels split: option.split)
qed

lemma view_ok_follow_positions: "view_ok lib v \<Longrightarrow> view_ok lib (follow_positions lib v)"
proof -
  have "view_ok lib v \<Longrightarrow> view_ok lib (foldl (follow_position lib) v is)" for "is"
    by (induction "is" arbitrary: v) (simp_all add: view_ok_follow_position)
  then show "view_ok lib v \<Longrightarrow> view_ok lib (follow_positions lib v)" by (simp add: follow_positions_def)
qed

lemma view_ok_autoscale: "view_ok lib v \<Longrightarrow> view_ok lib (autoscale_view lib v)"
  by (auto simp: autoscale_view_def Let_def view_ok_follow_positions view_ok_set_zoom view_ok_scroll_to split: prod.split)

lemma view_ok_step: "view_step lib v v' \<Longrightarrow> view_ok lib v \<Longrightarrow> view_ok lib v'"
proof (induction rule: view_step.induct)
  case (scroll v d)
  then show ?case by (cases d) (simp_all add: view_ok_set_zoom)
next
  case (motion pos v v')
  then show ?case by (auto simp: panning_motion_def Let_def view_ok_set_bars split: option.splits)
next
  case (follow node v v')
  then show ?case
    by (auto simp: set_follow_node_def res_bind_Inr_iff split: option.splits node_ref.splits)
next
  case (centre ref v v')
  then show ?case
    by (auto simp: center_on_node_def res_bind_Inr_iff view_ok_centre_pixels split: node_ref.splits)
next
  case (resize pw ph v h w)
  then show ?case by (simp add: view_ok_def bars_ok_configure)
qed (simp_all add: view_ok_set_zoom view_ok_scene_moved view_ok_follow_positions view_ok_autoscale canvas_button_press_def canvas_button_release_def
      begin_panning_def end_panning_def)

end

sublocale canvas \<subseteq> view_sys: invariant_system "view_step lib" "view_ok lib"
  by unfold_locales (rule view_ok_step)

subsection \<open>The window after create_gui\<close>

definition new_view :: "canvas_lib \<Rightarrow> scene \<Rightarrow> scrollbars \<Rightarrow> view" where
  "new_view lib s bars =
     (let v = \<lparr>vw_scene = s, vw_bars = lib_configure lib (vs_bounds s) 1 bars,
               vw_zoom = \<lparr>adj_value = 1, adj_lower = 1 / 100, adj_upper = 10, adj_page = 1\<rparr>, vw_scale = 1, vw_panning = None, vw_follow = None\<rparr>
      in zoom_changed lib (scroll_to lib (0, 0) v))"

context canvas
begin

lemma new_view_ok: "0 < adj_page (fst bars) \<Longrightarrow> 0 < adj_page (snd bars) \<Longrightarrow> view_ok lib (new_view lib s bars)"
  by (simp add: new_view_def zoom_changed_def view_ok_def scroll_to_def Let_def bars_ok_configure configure_page)

lemma reachable_ok:
  "0 < adj_page (fst bars) \<Longrightarrow> 0 < adj_page (snd bars) \<Longrightarrow> (view_step lib)\<^sup>*\<^sup>* (new_view lib s bars) v \<Longrightarrow> view_ok lib v"
  by (rule view_sys.inv_reachable) (assumption, rule new_view_ok)

lemma view_ok_scale: "view_ok lib v \<Longrightarrow> 0 < vw_scale v"
  by (auto simp: view_ok_def)

lemma corners_size:
  assumes "view_ok lib v" "view_corners lib v = (b1, b2)"
  shows "fst b2 = fst b1 + adj_page (fst (vw_bars v)) / vw_scale v" "snd b2 = snd b1 + adj_page (snd (vw_bars v)) / vw_scale v"
  using assms(2) from_pixels_diff [OF view_ok_scale [OF assms(1)], of "vs_bounds (vw_scene v)"
      "(adj_value (fst (vw_bars v)) + adj_page (fst (vw_bars v)), adj_value (snd (vw_bars v)) + adj_page (snd (vw_bars v)))"
      "(adj_value (fst (vw_bars v)), adj_value (snd (vw_bars v)))"]
  by (auto simp: view_corners_def convert_from_pixels_def case_prod_unfold Let_def)

lemma corners_ordered:
  assumes "view_ok lib v" "view_corners lib v = (b1, b2)"
  shows "fst b1 < fst b2" "snd b1 < snd b2"
  using corners_size [OF assms] view_ok_scale [OF assms(1)] assms(1) by (simp_all add: view_ok_def bars_ok_def)

end

subsection \<open>The labels of the arrows\<close>

lemma label_is_midpoint:
  "view_corners lib v = (b1, b2) \<Longrightarrow> get_label_over_line_position lib p q v = midpoint (LineClipping b1 b2 (p, q))"
  by (simp add: get_label_over_line_position_def midpoint_def case_prod_unfold Let_def)

text \<open>
  C21. In every state the window can reach, the label of an arrow from \<open>p\<close> to \<open>q\<close> is in the visible part of the canvas exactly if
  a part of the arrow is, and it is then at the middle of the visible part of the arrow.
\<close>

theorem label_on_visible_part:
  assumes lib: "canvas lib" and "0 < adj_page (fst bars)" "0 < adj_page (snd bars)"
    and "(view_step lib)\<^sup>*\<^sup>* (new_view lib s bars) v" and c: "view_corners lib v = (b1, b2)"
  shows "(inside \<lparr>m_clipMin = b1, m_clipMax = b2\<rparr> (get_label_over_line_position lib p q v) \<longleftrightarrow> visible b1 b2 p q \<noteq> {})
    \<and> (visible b1 b2 p q \<noteq> {} \<longrightarrow>
        (\<exists>s e. visible b1 b2 p q = {s..e} \<and> s \<le> e \<and> get_label_over_line_position lib p q v = on_segment p q ((s + e) / 2)))"
proof -
  have ok: "view_ok lib v" using canvas.reachable_ok [OF lib] assms(2-4) by blast
  have b: "fst b1 \<le> fst b2" "snd b1 \<le> snd b2" using canvas.corners_ordered [OF lib ok c] by simp_all
  note label = label_is_midpoint [OF c]
  from LineClipping_cut [OF b, of p q] obtain s e where
    "LineClipping b1 b2 (p, q) = (on_segment p q s, on_segment p q e)" "visible b1 b2 p q \<noteq> {} \<Longrightarrow> s \<le> e \<and> visible b1 b2 p q = {s..e}"
    by metis
  then show ?thesis
    using midpoint_clipped [OF b, of p q] by (auto simp: label midpoint_along)
qed

subsection \<open>Panning\<close>

text \<open>The point of the canvas under the pointer\<close>

definition under_pointer :: "canvas_lib \<Rightarrow> point \<Rightarrow> view \<Rightarrow> point" where
  "under_pointer lib pos v = convert_from_pixels lib v (adj_value (fst (vw_bars v)) + fst pos, adj_value (snd (vw_bars v)) + snd pos)"

text \<open>
  However the pointer has moved since the button was pressed, when the scroll bars can follow its last motion the same point of
  the canvas is under it as at the beginning.
\<close>

definition pan_to :: "canvas_lib \<Rightarrow> point list \<Rightarrow> view \<Rightarrow> view result" where
  "pan_to lib path v = res_fold (\<lambda>v pos. panning_motion lib pos v) v path"

lemma res_fold_last: "res_fold f s (xs @ [x]) = res_bind (res_fold f s xs) (\<lambda>s. f s x)"
  by (simp add: res_fold_append res_bind_def split: sum.split)

context canvas
begin

lemma set_value_again: "\<exists>y. lib_set_value lib x (a\<lparr>adj_value := x'\<rparr>) = a\<lparr>adj_value := y\<rparr>"
  by (rule exI [of _ "adj_value (lib_set_value lib x (a\<lparr>adj_value := x'\<rparr>))"]) (subst set_value_only, simp)

lemma pan_to_total:
  assumes "vw_panning v = Some st"
  shows "\<exists>v'. pan_to lib path v = Inr v' \<and> vw_panning v' = Some st \<and> vw_scene v' = vw_scene v \<and> vw_scale v' = vw_scale v
    \<and> (\<exists>x y. vw_bars v' = ((fst (vw_bars v))\<lparr>adj_value := x\<rparr>, (snd (vw_bars v))\<lparr>adj_value := y\<rparr>))"
proof (induction path rule: rev_induct)
  case Nil
  have "vw_bars v = ((fst (vw_bars v))\<lparr>adj_value := adj_value (fst (vw_bars v))\<rparr>, (snd (vw_bars v))\<lparr>adj_value := adj_value (snd (vw_bars v))\<rparr>)"
    by (simp add: prod_eq_iff)
  then have "\<exists>x y. vw_bars v = ((fst (vw_bars v))\<lparr>adj_value := x\<rparr>, (snd (vw_bars v))\<lparr>adj_value := y\<rparr>)" by blast
  then show ?case using assms by (simp add: pan_to_def)
next
  case (snoc pos path)
  then obtain v' x y where v': "pan_to lib path v = Inr v'" "vw_panning v' = Some st" "vw_scene v' = vw_scene v" "vw_scale v' = vw_scale v"
    "vw_bars v' = ((fst (vw_bars v))\<lparr>adj_value := x\<rparr>, (snd (vw_bars v))\<lparr>adj_value := y\<rparr>)" by blast
  then show ?case
    by (auto simp: pan_to_def res_fold_last panning_motion_def Let_def set_bars_def set_value_again)
qed

lemma pan_keeps_point:
  assumes v: "vw_panning v = None" "vw_bars v = (h, w)"
    and r: "in_range (adj_value h - (fst pos - fst pos0)) h" "in_range (adj_value w - (snd pos - snd pos0)) w"
  shows "\<exists>v'. pan_to lib (path @ [pos]) (begin_panning pos0 v) = Inr v' \<and> under_pointer lib pos v' = under_pointer lib pos0 v"
proof -
  let ?st = "\<lparr>initial_mouse_pos = pos0, initial_canvas_pos = (adj_value h, adj_value w)\<rparr>"
  have b: "vw_panning (begin_panning pos0 v) = Some ?st" by (simp add: begin_panning_def v)
  obtain v' x y where v': "pan_to lib path (begin_panning pos0 v) = Inr v'" "vw_panning v' = Some ?st" "vw_scene v' = vw_scene v"
    "vw_scale v' = vw_scale v" "vw_bars v' = (h\<lparr>adj_value := x\<rparr>, w\<lparr>adj_value := y\<rparr>)"
    using pan_to_total [OF b, of path] by (auto simp: begin_panning_def v)
  have "in_range (adj_value h - (fst pos - fst pos0)) (h\<lparr>adj_value := x\<rparr>)" "in_range (adj_value w - (snd pos - snd pos0)) (w\<lparr>adj_value := y\<rparr>)"
    using r by (simp_all add: in_range_def)
  then show ?thesis
    using v' v by (simp add: pan_to_def res_fold_last panning_motion_def Let_def set_bars_def set_value_in under_pointer_def convert_from_pixels_def)
qed

end

subsection \<open>The first scaling of the view\<close>

lemma follow_position_scene: "vw_scene (follow_position lib v i) = update_node_position (vw_scene v) i"
  by (simp add: follow_position_def update_node_position_def Let_def scene_moved_def centre_pixels_def set_bars_def
      split: prod.split option.split)

lemma follow_positions_scene: "vw_scene (follow_positions lib v) = update_node_positions (vw_scene v)"
proof -
  have "vw_scene (foldl (follow_position lib) v is) = foldl update_node_position (vw_scene v) is" for "is"
    by (induction "is" arbitrary: v) (simp_all add: follow_position_scene)
  then show ?thesis by (simp add: follow_positions_def update_node_positions_def)
qed

text \<open>The rectangle around the nodes\<close>

definition node_box :: "scene \<Rightarrow> point \<times> point" where
  "node_box s =
     (let ps = map (\<lambda>(_, n). nv_pos n) (vs_nodes s)
      in ((Min (set (map fst ps)), Min (set (map snd ps))), (Max (set (map fst ps)), Max (set (map snd ps)))))"


context canvas
begin

lemma follow_position_frame:
  "vw_zoom (follow_position lib v i) = vw_zoom v \<and> vw_scale (follow_position lib v i) = vw_scale v
   \<and> adj_page (fst (vw_bars (follow_position lib v i))) = adj_page (fst (vw_bars v))
   \<and> adj_page (snd (vw_bars (follow_position lib v i))) = adj_page (snd (vw_bars v))"
  by (simp add: follow_position_def Let_def scene_moved_def centre_pixels_def set_bars_def configure_page
      split: prod.split option.split)

lemma follow_positions_frame:
  "vw_zoom (follow_positions lib v) = vw_zoom v \<and> vw_scale (follow_positions lib v) = vw_scale v
   \<and> adj_page (fst (vw_bars (follow_positions lib v))) = adj_page (fst (vw_bars v))
   \<and> adj_page (snd (vw_bars (follow_positions lib v))) = adj_page (snd (vw_bars v))"
proof -
  have "vw_zoom (foldl (follow_position lib) v is) = vw_zoom v \<and> vw_scale (foldl (follow_position lib) v is) = vw_scale v
   \<and> adj_page (fst (vw_bars (foldl (follow_position lib) v is))) = adj_page (fst (vw_bars v))
   \<and> adj_page (snd (vw_bars (foldl (follow_position lib) v is))) = adj_page (snd (vw_bars v))" for "is"
    by (induction "is" arbitrary: v) (simp_all add: follow_position_frame)
  then show ?thesis by (simp add: follow_positions_def)
qed

lemma set_zoom_in:
  assumes "view_ok lib v" "in_range z (vw_zoom v)"
  shows "vw_scale (set_zoom lib z v) = z" "vw_scene (set_zoom lib z v) = vw_scene v"
    "adj_page (fst (vw_bars (set_zoom lib z v))) = adj_page (fst (vw_bars v))"
    "adj_page (snd (vw_bars (set_zoom lib z v))) = adj_page (snd (vw_bars v))"
  using assms by (auto simp: set_zoom_def zoom_changed_def set_value_in view_ok_def Let_def configure_page)

text \<open>Scrolling to a place whose rectangle lies inside the bounds of the canvas\<close>

lemma scroll_to_corner:
  assumes ok: "view_ok lib v" and c: "view_corners lib v = (c1, c2)" and b: "vs_bounds (vw_scene v) = (b1, b2)"
    and t: "fst b1 \<le> fst t" "snd b1 \<le> snd t" "fst t + (fst c2 - fst c1) \<le> fst b2" "snd t + (snd c2 - snd c1) \<le> snd b2"
  shows "view_corners lib (scroll_to lib t v) = (t, (fst t + (fst c2 - fst c1), snd t + (snd c2 - snd c1)))"
proof -
  obtain h w where bars: "vw_bars v = (h, w)" by force
  let ?z = "vw_scale v" and ?to = "lib_to_pixels lib (b1, b2) (vw_scale v)"
  have z: "0 < ?z" by (rule view_ok_scale [OF ok])
  have size: "fst c2 = fst c1 + adj_page h / ?z" "snd c2 = snd c1 + adj_page w / ?z"
    using corners_size [OF ok c] by (simp_all add: bars)
  have bo: "adj_lower h \<le> fst (?to b1)" "fst (?to b2) \<le> adj_upper h" "adj_lower w \<le> snd (?to b1)" "snd (?to b2) \<le> adj_upper w"
    using ok by (auto simp: view_ok_def bars_ok_def bars b)
  have "0 \<le> ?z * (fst t - fst b1)" "0 \<le> ?z * (snd t - snd b1)" using z t by simp_all
  then have lo: "adj_lower h \<le> fst (?to t)" "adj_lower w \<le> snd (?to t)"
    unfolding to_pixels_diff [of "(b1, b2)" ?z t b1] using bo by linarith+
  have "?z * (fst t + adj_page h / ?z - fst b2) \<le> 0" "?z * (snd t + adj_page w / ?z - snd b2) \<le> 0"
    using z t size by (simp_all add: mult_le_0_iff)
  moreover have "?z * (fst t + adj_page h / ?z - fst b2) = fst (?to t) + adj_page h - fst (?to b2)"
    "?z * (snd t + adj_page w / ?z - snd b2) = snd (?to t) + adj_page w - snd (?to b2)"
    unfolding to_pixels_diff [of "(b1, b2)" ?z t b2] using z by (simp_all add: algebra_simps)
  ultimately have "in_range (fst (?to t)) h" "in_range (snd (?to t)) w"
    unfolding in_range_def using bo lo by linarith+
  then have "vw_bars (scroll_to lib t v) = (h\<lparr>adj_value := fst (?to t)\<rparr>, w\<lparr>adj_value := snd (?to t)\<rparr>)"
    by (simp add: scroll_to_def b bars scroll_in)
  moreover have "lib_from_pixels lib (b1, b2) ?z (fst (?to t), snd (?to t)) = t" by (simp add: from_to_pixels z)
  ultimately have c': "view_corners lib (scroll_to lib t v) =
      (t, lib_from_pixels lib (b1, b2) ?z (fst (?to t) + adj_page h, snd (?to t) + adj_page w))"
    by (simp add: view_corners_def convert_from_pixels_def b) (simp add: scroll_to_def b)
  have "fst (snd (view_corners lib (scroll_to lib t v))) = fst t + adj_page h / ?z"
    "snd (snd (view_corners lib (scroll_to lib t v))) = snd t + adj_page w / ?z"
    using corners_size [OF view_ok_scroll_to [OF ok] c'] by (simp_all add: c', simp_all add: scroll_to_def bars)
  then show ?thesis using size c' by (simp add: prod_eq_iff)
qed

text \<open>
  The view after scaling: \<open>z\<close> is the zoom factor asked for, and the window, placed around the middle of the nodes, must fit
  into the bounds of the canvas.
\<close>

lemma autoscale_corners:
  assumes ok: "view_ok lib v" and one: "vw_scale v = 1" and ne: "vs_nodes (vw_scene v) \<noteq> []"
    and box: "node_box (update_node_positions (vw_scene v)) = ((x1, y1), (x2, y2))" and less: "x1 < x2" "y1 < y2"
    and z: "z = min (adj_page (fst (vw_bars v)) / (3 / 2 * (x2 - x1))) (adj_page (snd (vw_bars v)) / (3 / 2 * (y2 - y1)))"
    and range: "in_range z (vw_zoom v)"
    and size: "wd = adj_page (fst (vw_bars v)) / z" "ht = adj_page (snd (vw_bars v)) / z"
    and c: "c = ((x1 + x2) / 2, (y1 + y2) / 2)"
    and b: "vs_bounds (update_node_positions (vw_scene v)) = (b1, b2)"
    and fits: "fst b1 \<le> fst c - wd / 2" "fst c + wd / 2 \<le> fst b2" "snd b1 \<le> snd c - ht / 2" "snd c + ht / 2 \<le> snd b2"
  shows "vw_scene (autoscale_view lib v) = update_node_positions (vw_scene v) \<and> vw_scale (autoscale_view lib v) = z
    \<and> view_corners lib (autoscale_view lib v) = ((fst c - wd / 2, snd c - ht / 2), (fst c + wd / 2, snd c + ht / 2))"
proof -
  let ?u = "follow_positions lib v"
  let ?w = "set_zoom lib z ?u"
  have u: "view_ok lib ?u" "vw_scene ?u = update_node_positions (vw_scene v)" "vw_scale ?u = 1" "vw_zoom ?u = vw_zoom v"
    "adj_page (fst (vw_bars ?u)) = adj_page (fst (vw_bars v))" "adj_page (snd (vw_bars ?u)) = adj_page (snd (vw_bars v))"
    using follow_positions_frame [of v] ok one by (simp_all add: view_ok_follow_positions follow_positions_scene)
  have w: "view_ok lib ?w" "vw_scale ?w = z" "vw_scene ?w = update_node_positions (vw_scene v)"
    "adj_page (fst (vw_bars ?w)) = adj_page (fst (vw_bars v))" "adj_page (snd (vw_bars ?w)) = adj_page (snd (vw_bars v))"
    using set_zoom_in [OF u(1), of z] range u by (simp_all add: view_ok_set_zoom)
  obtain c1 c2 where cw: "view_corners lib ?w = (c1, c2)" using prod.exhaust by blast
  have cs: "fst c2 - fst c1 = wd" "snd c2 - snd c1 = ht"
    using corners_size [OF w(1) cw] by (simp_all add: w size)
  have px: "convert_to_pixels lib ?u (x2, y2) = (fst (convert_to_pixels lib ?u (x1, y1)) + (x2 - x1), snd (convert_to_pixels lib ?u (x1, y1)) + (y2 - y1))"
    using to_pixels_diff [of _ 1 "(x2, y2)" "(x1, y1)"] by (simp add: convert_to_pixels_def u(3) prod_eq_iff)
  have zz: "min (adj_page (fst (vw_bars v)) * 2 / (3 * x2 - 3 * x1)) (adj_page (snd (vw_bars v)) * 2 / (3 * y2 - 3 * y1)) = z"
    by (simp add: z)
  have "autoscale_view lib v = scroll_to lib (fst c - wd / 2, snd c - ht / 2) ?w"
    using box less ne cs
    by (simp add: autoscale_view_def Let_def u px node_box_def case_prod_unfold zz c cw)
  then show ?thesis
    using scroll_to_corner [OF w(1) cw, of b1 b2 "(fst c - wd / 2, snd c - ht / 2)"] b fits cs w
    by (simp add: scroll_to_def)
qed

end



subsection \<open>A canvas\<close>

text \<open>
  Scroll bars that keep their value between their limits, and a canvas whose upper left corner is pixel \<open>(0, 0)\<close>: what the
  locale asks for can be had.
\<close>

definition clamp_value :: "rat \<Rightarrow> adjustment \<Rightarrow> adjustment" where
  "clamp_value x a = a\<lparr>adj_value := max (adj_lower a) (min x (adj_upper a - adj_page a))\<rparr>"

definition plain_to_pixels :: "point \<times> point \<Rightarrow> rat \<Rightarrow> point \<Rightarrow> point" where
  "plain_to_pixels b z p = (z * (fst p - fst (fst b)), z * (snd p - snd (fst b)))"

definition plain_canvas :: canvas_lib where
  "plain_canvas =
     \<lparr>lib_set_value = clamp_value, lib_to_pixels = plain_to_pixels,
      lib_from_pixels = (\<lambda>b z p. (fst p / z + fst (fst b), snd p / z + snd (fst b))),
      lib_configure = (\<lambda>b z bars.
        ((fst bars)\<lparr>adj_lower := 0, adj_upper := z * (fst (snd b) - fst (fst b))\<rparr>,
         (snd bars)\<lparr>adj_lower := 0, adj_upper := z * (snd (snd b) - snd (fst b))\<rparr>)),
      lib_scroll_to = (\<lambda>b z q bars.
        (clamp_value (fst (plain_to_pixels b z q)) (fst bars), clamp_value (snd (plain_to_pixels b z q)) (snd bars)))\<rparr>"

lemma clamp_value_in: "in_range x a \<Longrightarrow> clamp_value x a = a\<lparr>adj_value := x\<rparr>"
  by (simp add: clamp_value_def in_range_def)

interpretation plain: canvas plain_canvas
proof
  fix b z q h w p
  show "\<exists>p. lib_scroll_to plain_canvas b z q (h, w) = (h\<lparr>adj_value := fst p\<rparr>, w\<lparr>adj_value := snd p\<rparr>)"
    by (auto simp: plain_canvas_def clamp_value_def)
  show "lib_from_pixels plain_canvas b z (lib_to_pixels plain_canvas b z p) = p" if "0 < z"
    using that by (simp add: plain_canvas_def plain_to_pixels_def)
qed (simp_all add: plain_canvas_def clamp_value_def plain_to_pixels_def in_range_def algebra_simps)

text \<open>Two nodes, 100 m and 50 m apart, in a window of 600 by 450 pixels\<close>

definition demo_scene :: "point option list \<Rightarrow> scene" where
  "demo_scene mobility = get_node 1 (get_node 0 (new_scene mobility))"

definition demo_bars :: scrollbars where
  "demo_bars =
     (\<lparr>adj_value = 0, adj_lower = 0, adj_upper = 600, adj_page = 600\<rparr>, \<lparr>adj_value = 0, adj_lower = 0, adj_upper = 450, adj_page = 450\<rparr>)"

definition demo_view :: "point option list \<Rightarrow> view" where
  "demo_view mobility = new_view plain_canvas (demo_scene mobility) demo_bars"





text \<open>
  Where the scaling does not do what it should. The extent of the nodes is measured at the current zoom, but the zoom is set as
  if it had been 1: zoomed out by half before, the window is smaller than the extent of the nodes. Nodes in a row are not scaled
  at all.
\<close>

lemma autoscale_zoomed_out:
  "view_corners plain_canvas (autoscale_view plain_canvas (set_zoom plain_canvas (1 / 2) (demo_view [Some (0, 0), Some (100, 50)])))
   = ((75 / 2, - 75 / 8), (525 / 2, 1275 / 8))"
  "nv_pos (the (map_of (vs_nodes (vw_scene (autoscale_view plain_canvas (set_zoom plain_canvas (1 / 2)
     (demo_view [Some (0, 0), Some (100, 50)]))))) 0)) = (0, 0)"
  by code_simp+

context canvas
begin

lemma autoscale_row:
  assumes "node_box (update_node_positions (vw_scene v)) = ((x1, y), (x2, y))"
  shows "autoscale_view lib v = (if vs_nodes (vw_scene v) = [] then v else follow_positions lib v)"
proof -
  have "snd (convert_to_pixels lib u (x2, y)) = snd (convert_to_pixels lib u (x1, y))" for u
    unfolding convert_to_pixels_def by (subst to_pixels_diff(2) [of _ _ _ "(x1, y)"]) simp
  then show ?thesis
    using assms by (simp add: autoscale_view_def node_box_def Let_def follow_positions_scene case_prod_unfold)
qed

end

lemma label_on_visible_part_witness:
  "get_label_over_line_position plain_canvas (-100, 100) (300, 100) (demo_view []) = (150, 100)
   \<and> inside \<lparr>m_clipMin = (0, 0), m_clipMax = (600, 450)\<rparr> (get_label_over_line_position plain_canvas (-100, 100) (300, 100) (demo_view []))"
proof
  show "get_label_over_line_position plain_canvas (-100, 100) (300, 100) (demo_view []) = (150, 100)" by code_simp
  have c: "view_corners plain_canvas (demo_view []) = ((0, 0), (600, 450))" by code_simp
  have v: "1 / 2 \<in> visible (0, 0) (600, 450) (-100, 100) (300, 100)"
    by (simp add: visible_def inside_def along_def)
  have r: "(view_step plain_canvas)\<^sup>*\<^sup>* (new_view plain_canvas (demo_scene []) demo_bars) (demo_view [])" by (simp add: demo_view_def)
  have "0 < adj_page (fst demo_bars)" "0 < adj_page (snd demo_bars)" by (simp_all add: demo_bars_def)
  from label_on_visible_part [OF plain.canvas_axioms this r c, of "(-100, 100)" "(300, 100)"] v
  show "inside \<lparr>m_clipMin = (0, 0), m_clipMax = (600, 450)\<rparr>
      (get_label_over_line_position plain_canvas (-100, 100) (300, 100) (demo_view []))"
    by blast
qed

end
