(* ===== verification/Viz_Handlers.thy ===== *)
theory Viz_Handlers
  imports Viz_View
begin

text \<open>
  The handlers of the visualizer's window (\<open>core.py\<close>): mouse buttons on nodes and on the background, the size of the nodes, the
  highlighting under the mouse, and the tooltips: which object is asked for a tooltip, and the text a node answers with. What a
  tooltip reads from the simulator (names, addresses, types) is a record; the items of the canvas and the item at a point are
  GooCanvas's.
\<close>

subsection \<open>Buttons and sliders\<close>

text \<open>The handlers return \<open>True\<close> when the event is dealt with. The third button opens a menu the plugins fill.\<close>

definition on_root_button_press_event :: "nat \<Rightarrow> scene \<Rightarrow> (bool \<times> scene) result" where
  "on_root_button_press_event button s =
     (if button = 1 then res_bind (select_node None s) (\<lambda>s. Inr (True, s)) else Inr (False, s))"

definition on_node_button_press_event :: "nat \<Rightarrow> point \<Rightarrow> nat \<Rightarrow> scene \<Rightarrow> (bool \<times> scene) result" where
  "on_node_button_press_event button pointer i s =
     (if button = 1 then res_bind (select_node (Some i) s) (\<lambda>s. Inr (True, s))
      else if button = 3 then Inr (True, s)
      else if button = 2 then Inr (True, begin_node_drag i pointer s)
      else Inr (False, s))"

definition on_node_button_release_event :: "nat \<Rightarrow> scene \<Rightarrow> bool \<times> scene" where
  "on_node_button_release_event button s = (if button = 2 then (True, end_node_drag s) else (False, s))"

definition on_enter_notify_event :: "nat \<Rightarrow> scene \<Rightarrow> scene" where
  "on_enter_notify_event i s = set_highlighted i True s"

definition on_leave_notify_event :: "nat \<Rightarrow> scene \<Rightarrow> scene" where
  "on_leave_notify_event i s = set_highlighted i False s"

definition node_size_changed :: "rat \<Rightarrow> scene \<Rightarrow> scene" where
  "node_size_changed value s = foldl (\<lambda>s i. set_size i value s) s (dict_keys (vs_nodes s))"

text \<open>The module's \<open>set_bounds\<close>: the bounds of the canvas are set when the window exists.\<close>

definition set_bounds_hook :: "point \<Rightarrow> point \<Rightarrow> scene \<Rightarrow> scene result" where
  "set_bounds_hook p q s =
     (if fst q > fst p \<and> snd q > snd p
      then Inr (s\<lparr>vs_bounds := (transform_point_simulation_to_canvas p, transform_point_simulation_to_canvas q)\<rparr>)
      else Inl AssertionError)"

subsection \<open>Which object is asked\<close>

record ('i, 'o) canvas_items =
  item_at :: "point \<Rightarrow> 'i option"
  item_parent :: "'i \<Rightarrow> 'i option"
  pyviz_object :: "'i \<Rightarrow> 'o option"

text \<open>The loop over the parents of an item; \<open>None\<close> if it does not end\<close>

partial_function (option) tooltip_object :: "('i, 'o) canvas_items \<Rightarrow> 'i option \<Rightarrow> 'o option option" where
  "tooltip_object cs item =
     (case item of
        None \<Rightarrow> Some None
      | Some i \<Rightarrow> (case pyviz_object cs i of Some obj \<Rightarrow> Some (Some obj) | None \<Rightarrow> tooltip_object cs (item_parent cs i)))"

text \<open>The object whose \<open>tooltip_query\<close> is called; the handler returns \<open>True\<close> exactly if there is one.\<close>

definition canvas_tooltip_cb :: "canvas_lib \<Rightarrow> ('i, 'o) canvas_items \<Rightarrow> point \<Rightarrow> view \<Rightarrow> 'o option option" where
  "canvas_tooltip_cb lib cs pos v =
     (let p = convert_from_pixels lib v (adj_value (fst (vw_bars v)) + fst pos, adj_value (snd (vw_bars v)) + snd pos)
      in case item_at cs p of None \<Rightarrow> Some None | Some item \<Rightarrow> tooltip_object cs (Some item))"

subsection \<open>The tooltip of a node\<close>

record tip_device =
  td_name :: string
  td_type :: string
  td_ipv4 :: "(string \<times> string) list option"
  td_ipv6 :: "(string \<times> string) list option"
  td_mac :: string

record tip_node =
  tn_index :: nat
  tn_name :: string
  tn_mobility :: "string option"
  tn_devices :: "tip_device list"

definition address_line :: "string \<Rightarrow> (string \<times> string) list option \<Rightarrow> string list" where
  "address_line title addresses =
     (case addresses of
        None \<Rightarrow> []
      | Some as \<Rightarrow> [''    <b>'' @ title @ '':</b> '' @ py_join ''; '' (map (\<lambda>(a, m). a @ ''/'' @ m) as)])"

definition device_lines :: "nat \<times> tip_device \<Rightarrow> string list" where
  "device_lines = (\<lambda>(devI, dev).
     ['''', ''  <u>NetDevice '' @ nat_str devI @ '':</u>'']
     @ (if td_name dev \<noteq> '''' then [''    <b>Name:</b> '' @ td_name dev] else [])
     @ [''    <b>Type:</b> '' @ td_type dev]
     @ address_line ''IPv4 Addresses'' (td_ipv4 dev)
     @ address_line ''IPv6 Addresses'' (td_ipv6 dev)
     @ [''    <b>MAC Address:</b> '' @ td_mac dev])"

text \<open>\<open>extra\<close> are the lines the handlers of \<open>query-extra-tooltip-info\<close> append.\<close>

definition tooltip_query :: "string list \<Rightarrow> tip_node \<Rightarrow> string" where
  "tooltip_query extra n =
     (let name = ''<b><u>Node '' @ nat_str (tn_index n) @ ''</u></b>'';
          name = (if length (tn_name n) \<noteq> 0 then name @ '' <b>('' @ tn_name n @ '')</b>'' else name);
          lines = [name, ''''] @ extra;
          lines = (case tn_mobility n of None \<Rightarrow> lines | Some m \<Rightarrow> lines @ [''  <b>Mobility Model</b>: '' @ m])
      in py_join [CHR 10] (lines @ concat (map device_lines (enumerate 0 (tn_devices n)))))"

subsection \<open>The nearest object\<close>

text \<open>The ancestors of an item, itself first\<close>

inductive ancestor :: "('i, 'o) canvas_items \<Rightarrow> 'i \<Rightarrow> 'i \<Rightarrow> bool" for cs where
  self: "ancestor cs i i"
| up: "pyviz_object cs i = None \<Longrightarrow> item_parent cs i = Some j \<Longrightarrow> ancestor cs j k \<Longrightarrow> ancestor cs i k"

inductive_cases ancestorE: "ancestor cs i k"

text \<open>
  When no item is its own ancestor, the loop ends: it finds the object of the nearest item, from the given one upwards, that has
  one, and nothing if there is none up to the root.
\<close>

lemma tooltip_object_nearest:
  assumes rank: "\<And>i j. item_parent cs i = Some j \<Longrightarrow> rank j < (rank i :: nat)"
  shows "\<exists>r. tooltip_object cs (Some i) = Some r
    \<and> (\<forall>obj. r = Some obj \<longleftrightarrow> (\<exists>k. ancestor cs i k \<and> pyviz_object cs k = Some obj))"
proof (induction "rank i" arbitrary: i rule: less_induct)
  case less
  show ?case
  proof (cases "pyviz_object cs i")
    case (Some obj)
    then show ?thesis
      by (subst tooltip_object.simps) (auto intro: ancestor.self elim: ancestorE)
  next
    case None
    show ?thesis
    proof (cases "item_parent cs i")
      case None
      with \<open>pyviz_object cs i = None\<close> have "tooltip_object cs (Some i) = Some None"
        by (subst tooltip_object.simps) (simp add: tooltip_object.simps [of cs None])
      moreover have "\<not> (ancestor cs i k \<and> pyviz_object cs k = Some obj)" for k obj
        using None \<open>pyviz_object cs i = None\<close> by (auto elim: ancestorE)
      ultimately show ?thesis by auto
    next
      case (Some j)
      then have "ancestor cs i k \<and> pyviz_object cs k = Some obj \<longleftrightarrow> ancestor cs j k \<and> pyviz_object cs k = Some obj" for k obj
        using \<open>pyviz_object cs i = None\<close> by (auto intro: ancestor.up elim: ancestorE [of cs i])
      moreover have "tooltip_object cs (Some i) = tooltip_object cs (Some j)"
        using Some \<open>pyviz_object cs i = None\<close> by (subst tooltip_object.simps) simp
      ultimately show ?thesis using less [OF rank [OF Some]] by simp
    qed
  qed
qed

subsection \<open>The handlers keep the selection consistent\<close>

text \<open>Every handler does a number of steps of the scene, so that what holds after all of these holds after all handlers.\<close>

lemma node_size_changed_steps: "(scene_step n)\<^sup>*\<^sup>* s (node_size_changed value s)"
proof -
  have "(scene_step n)\<^sup>*\<^sup>* s (foldl (\<lambda>s i. set_size i value s) s is)" for "is"
    by (induction "is" arbitrary: s) (auto intro: converse_rtranclp_into_rtranclp scene_step.intros)
  then show ?thesis by (simp add: node_size_changed_def)
qed

lemma button_steps:
  "on_root_button_press_event button s = Inr (b, s') \<Longrightarrow> (scene_step n)\<^sup>*\<^sup>* s s'"
  "on_node_button_press_event button pointer i s = Inr (b, s') \<Longrightarrow> (scene_step n)\<^sup>*\<^sup>* s s'"
  "on_node_button_release_event button s = (b, s') \<Longrightarrow> (scene_step n)\<^sup>*\<^sup>* s s'"
  by (auto simp: on_root_button_press_event_def on_node_button_press_event_def on_node_button_release_event_def res_bind_Inr_iff
      split: if_splits intro: scene_step.intros)

lemma handlers_keep_selection:
  assumes "selection_inv n s"
  shows "on_root_button_press_event button s = Inr (b, s') \<Longrightarrow> selection_inv n s'"
    and "on_node_button_press_event button pointer i s = Inr (b, s') \<Longrightarrow> selection_inv n s'"
    and "on_node_button_release_event button s = (b, s') \<Longrightarrow> selection_inv n s'"
    and "selection_inv n (node_size_changed z s)" "selection_inv n (on_enter_notify_event i s)" "selection_inv n (on_leave_notify_event i s)"
  using assms button_steps node_size_changed_steps scene_sys.inv_reachable
  unfolding on_enter_notify_event_def on_leave_notify_event_def by (meson r_into_rtranclp scene_step.intros)+

text \<open>A click on a node that exists selects it and no other; a click on the background selects none.\<close>

lemma click_selects:
  "dict_has (vs_nodes s) i \<Longrightarrow> \<exists>s'. on_node_button_press_event 1 pointer i s = Inr (True, s') \<and> vs_selected s' = Some i"
  "\<exists>s'. on_root_button_press_event 1 s = Inr (True, s') \<and> vs_selected s' = None"
  by (auto simp: on_node_button_press_event_def on_root_button_press_event_def select_node_def dict_get_def dict_has_iff
      Let_def set_node_selected_effect(1-4) split: option.splits)

end
