(* ===== verification/Rad_Stats.thy ===== *)
theory Rad_Stats
  imports Complex_Main Rad_Util
begin

text \<open>
  The routines of \<open>src/bindings/python/rad_util.py\<close> on floating point numbers: \<open>quantile\<close>, \<open>trim\<close>, \<open>nice_units\<close> and
  \<open>float_range\<close>. Floats are rational numbers; rounding errors are not modelled, rounding and printing to a number of places
  are parameters of \<open>nice_units\<close>.
\<close>

subsection \<open>Quantiles\<close>

text \<open>\<open>int\<close> of a float\<close>

definition trunc :: "rat \<Rightarrow> int" where
  "trunc r = (if 0 \<le> r then \<lfloor>r\<rfloor> else \<lceil>r\<rceil>)"

definition quantile :: "rat list \<Rightarrow> rat \<Rightarrow> rat result" where
  "quantile l p =
     (let l_sort = sort l; n = int (length l);
          r = 1 + (of_int n - 1) * p; i = trunc r; f = r - of_int i
      in if i < n
         then res_bind (py_get l_sort (i - 1)) (\<lambda>a. res_bind (py_get l_sort i) (\<lambda>b. Inr ((1 - f) * a + f * b)))
         else py_get l_sort (i - 1))"

text \<open>The median that \<open>trim\<close> computes is not used, but its computation raises for the empty list.\<close>

definition trim_list :: "rat list \<Rightarrow> rat list result" where
  "trim_list l =
     (let l_sort = sort l; index = int (length l_sort div 2) in
      res_bind (if length l_sort mod 2 = 0
                then res_bind (py_get l_sort index) (\<lambda>a. res_bind (py_get l_sort (index - 1)) (\<lambda>b. Inr ((a + b) / 2)))
                else py_get l_sort index) (\<lambda>median.
      res_bind (quantile l_sort (1 / 4)) (\<lambda>q1.
      res_bind (quantile l_sort (3 / 4)) (\<lambda>q3.
        let iqr_extra = (q3 - q1) * (3 / 2)
        in Inr (filter (\<lambda>x. q1 - iqr_extra \<le> x \<and> x \<le> q3 + iqr_extra) l_sort)))))"

subsection \<open>float_range\<close>

partial_function (option) float_range_loop :: "rat \<Rightarrow> rat \<Rightarrow> rat \<Rightarrow> rat list \<Rightarrow> rat list option" where
  "float_range_loop stop step cur l = (if cur < stop then float_range_loop stop step (cur + step) (l @ [cur]) else Some l)"

definition float_range :: "rat \<Rightarrow> rat option \<Rightarrow> rat option \<Rightarrow> rat list option" where
  "float_range start stop step =
     (let (stop, start) = (case stop of None \<Rightarrow> (start, 0) | Some x \<Rightarrow> (x, start));
          step = (case step of None \<Rightarrow> 1 | Some x \<Rightarrow> x)
      in float_range_loop stop step start [])"

subsection \<open>Units\<close>

definition si_prefixes :: "(rat, string \<times> string) dict" where
  "si_prefixes =
     [(10 ^ 24, (''Y'', ''yotta'')), (10 ^ 21, (''Z'', ''zetta'')), (10 ^ 18, (''E'', ''exa'')), (10 ^ 15, (''P'', ''peta'')),
      (10 ^ 12, (''T'', ''tera'')), (10 ^ 9, (''G'', ''giga'')), (10 ^ 6, (''M'', ''mega'')), (10 ^ 3, (''k'', ''kilo'')),
      (1 / 10 ^ 3, (''m'', ''milli'')), (1 / 10 ^ 6, (''u'', ''micro'')), (1 / 10 ^ 9, (''n'', ''nano'')),
      (1 / 10 ^ 12, (''p'', ''pico'')), (1 / 10 ^ 15, (''f'', ''femto'')), (1 / 10 ^ 18, (''a'', ''atto'')),
      (1 / 10 ^ 21, (''z'', ''zepto'')), (1 / 10 ^ 24, (''y'', ''yocto''))]"

definition extra_prefixes :: "(rat, string \<times> string) dict" where
  "extra_prefixes = [(10 ^ 2, (''h'', ''hecto'')), (10, (''da'', ''deka'')), (1 / 10, (''d'', ''deci'')), (1 / 10 ^ 2, (''c'', ''centi''))]"

definition bin_prefixes :: "(rat, string \<times> string) dict" where
  "bin_prefixes =
     [(2 ^ 10, (''K'', ''kilo'')), (2 ^ 20, (''M'', ''mega'')), (2 ^ 30, (''G'', ''mega'')), (2 ^ 40, (''T'', ''tera'')),
      (2 ^ 50, (''P'', ''peta'')), (2 ^ 60, (''E'', ''exa''))]"

definition unit_prefixes :: "bool \<Rightarrow> bool \<Rightarrow> (rat, string \<times> string) dict" where
  "unit_prefixes use_extra_prefixes bin =
     (let si = (if use_extra_prefixes then foldl (\<lambda>d (k, v). dict_set k v d) si_prefixes extra_prefixes else si_prefixes);
          prefixes = (if bin then bin_prefixes else si)
      in dict_set 1 ('''', '''') prefixes)"

text \<open>The loop over adjacent multipliers, from index \<open>i\<close>\<close>

fun find_multiplier :: "rat \<Rightarrow> nat \<Rightarrow> rat list \<Rightarrow> nat option" where
  "find_multiplier value i (lower # upper # ms) =
     (if lower \<le> value \<and> value < upper then Some i else find_multiplier value (Suc i) (upper # ms))"
| "find_multiplier value i ms = None"

text \<open>
  The sorting of \<open>prefixes.keys()\<close> needs Python 2. \<open>rnd\<close> is \<open>round\<close>, \<open>fmt_f\<close> and \<open>fmt_g\<close> print with \<open>%.nf\<close> and \<open>%.ng\<close>. \<open>mult_i\<close> is unbound when no case applies.
\<close>

definition nice_units ::
  "(rat \<Rightarrow> nat \<Rightarrow> rat) \<Rightarrow> (nat \<Rightarrow> rat \<Rightarrow> string) \<Rightarrow> (nat \<Rightarrow> rat \<Rightarrow> string) \<Rightarrow> rat \<Rightarrow> nat \<Rightarrow> nat option \<Rightarrow> string \<Rightarrow> string
   \<Rightarrow> bool \<Rightarrow> bool \<Rightarrow> bool \<Rightarrow> string result" where
  "nice_units rnd fmt_f fmt_g value dp sigfigs suffix space use_extra_prefixes use_full_name bin =
     (let prefixes = unit_prefixes use_extra_prefixes bin;
          multipliers = sort (dict_keys prefixes);
          found = find_multiplier value 0 multipliers;
          found = (if value < hd multipliers then Some 0
                   else if value \<ge> last multipliers then Some (length multipliers - 1) else found)
      in case found of
           None \<Rightarrow> Inl UnboundLocalError
         | Some mult_i \<Rightarrow>
             let mult = multipliers ! mult_i;
                 new_value = value / mult;
                 bump = (sigfigs = None \<and> mult_i < length multipliers - 1
                         \<and> rnd new_value dp = rnd (multipliers ! (mult_i + 1) / mult) dp);
                 mult = (if bump then multipliers ! (mult_i + 1) else mult);
                 new_value = (if bump then value / mult else new_value);
                 str_value = (case sigfigs of None \<Rightarrow> fmt_f dp new_value | Some k \<Rightarrow> fmt_g k new_value)
             in res_bind (dict_get prefixes mult) (\<lambda>label.
                  Inr (str_value @ space @ (if use_full_name then snd label else fst label) @ suffix)))"

subsection \<open>Quantiles are interpolated\<close>

text \<open>The reference: linear interpolation between neighbours of the sorted list, at the position \<open>x\<close> counted from 0\<close>

definition interpolate :: "rat list \<Rightarrow> rat \<Rightarrow> rat" where
  "interpolate s x =
     (let k = nat \<lfloor>x\<rfloor> in
      if k + 1 < length s then s ! k + (x - of_nat k) * (s ! (k + 1) - s ! k) else s ! (length s - 1))"

lemma quantile_interpolates:
  assumes "l \<noteq> []" "0 \<le> p" "p \<le> 1"
  shows "quantile l p = Inr (interpolate (sort l) ((of_nat (length l) - 1) * p))"
proof -
  let ?n = "length l" and ?x = "(of_nat (length l) - 1) * p"
  define k where "k = nat \<lfloor>?x\<rfloor>"
  have n: "1 \<le> ?n" using assms(1) by (cases l) auto
  have x: "0 \<le> ?x" "?x \<le> of_nat ?n - 1" using n assms mult_left_le [of p "of_nat ?n - 1"] by auto
  have k: "\<lfloor>?x\<rfloor> = int k" using x(1) by (simp add: k_def)
  have kn: "int k \<le> int ?n - 1" unfolding k [symmetric] using x(2) by (metis floor_mono floor_of_int of_int_diff of_int_of_nat_eq of_int_1)
  have t: "trunc (1 + ?x) = int k + 1" using x(1) k by (simp add: trunc_def)
  have r: "1 + (rat_of_int (int ?n) - 1) * p = 1 + ?x" by simp
  show ?thesis
  proof (cases "k + 1 < ?n")
    case True
    then have g: "py_get (sort l) (int k) = Inr (sort l ! k)" "py_get (sort l) (int k + 1) = Inr (sort l ! (k + 1))"
      using py_get_nat [of k "sort l"] py_get_nat [of "k + 1" "sort l"] by (simp_all add: add.commute)
    show ?thesis
      using True g unfolding quantile_def Let_def r t interpolate_def k_def [symmetric] by (simp add: algebra_simps)
  next
    case False
    then have kl: "k = ?n - 1" using kn n by linarith
    then have "py_get (sort l) (int k) = Inr (sort l ! (?n - 1))"
      using py_get_nat [of k "sort l"] n by simp
    then show ?thesis
      using False unfolding quantile_def Let_def r t interpolate_def k_def [symmetric] by simp
  qed
qed

lemma interpolate_between:
  assumes "sorted s" "k + 1 < length s" "of_nat k \<le> x" "x < of_nat k + 1"
  shows "s ! k \<le> interpolate s x \<and> interpolate s x \<le> s ! (k + 1)"
proof -
  have "\<lfloor>x\<rfloor> = int k" using assms(3,4) by (simp add: floor_eq_iff)
  moreover have "s ! k \<le> s ! (k + 1)" using assms(1,2) by (simp add: sorted_nth_mono)
  moreover have "(x - of_nat k) * (s ! (k + 1) - s ! k) \<le> 1 * (s ! (k + 1) - s ! k)"
    using assms(4) calculation(2) by (intro mult_right_mono) simp_all
  ultimately show ?thesis using assms(2,3) by (simp add: interpolate_def Let_def)
qed

lemma interpolate_mono:
  assumes s: "sorted s" "s \<noteq> []" and x: "0 \<le> x" "x \<le> y" "y \<le> of_nat (length s) - 1"
  shows "interpolate s x \<le> interpolate s y"
proof -
  define k m where "k = nat \<lfloor>x\<rfloor>" and "m = nat \<lfloor>y\<rfloor>"
  have kx: "of_nat k \<le> x" "x < of_nat k + 1" and my: "of_nat m \<le> y" "y < of_nat m + 1"
    using x by (simp_all add: k_def m_def) linarith+
  have km: "k \<le> m" using x by (simp add: k_def m_def floor_mono nat_mono)
  have "(of_nat m :: rat) \<le> of_nat (length s) - 1" using my x by linarith
  then have ml: "m + 1 \<le> length s" using s(2) by (cases s) (simp_all, linarith?)
  show ?thesis
  proof (cases "k + 1 < length s")
    case False
    then have "m = k" using ml km by simp
    then show ?thesis using False by (simp add: interpolate_def k_def [symmetric] m_def [symmetric])
  next
    case True
    note bx = interpolate_between [OF s(1) True kx]
    have top: "s ! (k + 1) \<le> s ! j" if "k + 1 \<le> j" "j < length s" for j using that s(1) by (simp add: sorted_nth_mono)
    show ?thesis
    proof (cases "m = k")
      case True
      have "s ! k \<le> s ! (k + 1)" using \<open>k + 1 < length s\<close> s(1) by (simp add: sorted_nth_mono)
      then show ?thesis
        using True \<open>k + 1 < length s\<close> x(2) by (simp add: interpolate_def k_def [symmetric] m_def [symmetric] mult_right_mono)
    next
      case False
      then have "s ! (k + 1) \<le> s ! m" using km ml by (intro top) simp_all
      also have "s ! m \<le> interpolate s y"
      proof (cases "m + 1 < length s")
        case True
        then show ?thesis using interpolate_between [OF s(1) True my] by simp
      next
        case False
        then have "m = length s - 1" "\<not> m + 1 < length s" using ml by simp_all
        then show ?thesis by (simp add: interpolate_def m_def [symmetric] Let_def)
      qed
      finally show ?thesis using bx by simp
    qed
  qed
qed

text \<open>A quantile of a non-empty list lies between its least and its greatest element, and grows with \<open>p\<close>.\<close>

lemma quantile_monotone:
  assumes "l \<noteq> []" "0 \<le> p" "p \<le> p'" "p' \<le> 1"
  shows "\<exists>q q'. quantile l p = Inr q \<and> quantile l p' = Inr q' \<and> Min (set l) \<le> q \<and> q \<le> q' \<and> q' \<le> Max (set l)"
proof -
  let ?s = "sort l" and ?n = "rat_of_nat (length l) - 1"
  have n: "?s \<noteq> []" "0 \<le> ?n" "length ?s = length l" using assms(1) by (cases l; simp)+
  have p: "0 \<le> ?n * p" "?n * p \<le> ?n * p'" "?n * p' \<le> ?n" "0 \<le> ?n * p'"
    using n(2) assms mult_left_mono [of p p' ?n] mult_left_le [of p' ?n] by auto
  have "interpolate ?s 0 = ?s ! 0" "interpolate ?s ?n = ?s ! (length ?s - 1)"
    using n by (auto simp: interpolate_def Let_def nat_diff_distrib)
  then have "?s ! 0 \<le> interpolate ?s (?n * p)" "interpolate ?s (?n * p') \<le> ?s ! (length ?s - 1)"
    using interpolate_mono [of ?s 0 "?n * p"] interpolate_mono [of ?s "?n * p'" ?n] n p by simp_all
  moreover have "?s ! 0 \<in> set l" "?s ! (length ?s - 1) \<in> set l"
    using nth_mem [of 0 ?s] nth_mem [of "length ?s - 1" ?s] n(1) by (simp_all del: length_sort)
  then have "Min (set l) \<le> ?s ! 0" "?s ! (length ?s - 1) \<le> Max (set l)" by simp_all
  moreover have "interpolate ?s (?n * p) \<le> interpolate ?s (?n * p')" using interpolate_mono [of ?s] n p by simp
  ultimately show ?thesis
    using quantile_interpolates [of l p] quantile_interpolates [of l p'] assms by force
qed

subsection \<open>Outliers\<close>

text \<open>
  \<open>trim\<close> raises for the empty list; otherwise it returns, sorted and with their multiplicities, the values at most one and a half
  times the distance of the quartiles outside them.
\<close>

lemma trim_list_keeps:
  "trim_list [] = Inl IndexError"
  "l \<noteq> [] \<Longrightarrow> \<exists>q1 q3. quantile l (1 / 4) = Inr q1 \<and> quantile l (3 / 4) = Inr q3 \<and> q1 \<le> q3
     \<and> trim_list l = Inr (filter (\<lambda>x. q1 - (q3 - q1) * (3 / 2) \<le> x \<and> x \<le> q3 + (q3 - q1) * (3 / 2)) (sort l))"
proof -
  show "trim_list [] = Inl IndexError" by (simp add: trim_list_def py_get_def)
  assume l: "l \<noteq> []"
  then have len: "0 < length l" by simp
  have "py_get (sort l) (int (length l div 2)) = Inr (sort l ! (length l div 2))"
    using len by (intro py_get_nat) simp
  moreover have "length l mod 2 = 0 \<Longrightarrow> py_get (sort l) (int (length l div 2) - 1) = Inr (sort l ! (length l div 2 - 1))"
  proof -
    assume "length l mod 2 = 0"
    then have "1 \<le> length l div 2" using len by presburger
    then show ?thesis using len py_get_nat [of "length l div 2 - 1" "sort l"] by (simp add: of_nat_diff)
  qed
  moreover obtain q1 q3 where "quantile l (1 / 4) = Inr q1" "quantile l (3 / 4) = Inr q3" "q1 \<le> q3"
    using quantile_monotone [OF l, of "1 / 4" "3 / 4"] by auto
  moreover have "quantile (sort l) p = quantile l p" for p by (simp add: quantile_def sorted_sort_id)
  ultimately show "\<exists>q1 q3. quantile l (1 / 4) = Inr q1 \<and> quantile l (3 / 4) = Inr q3 \<and> q1 \<le> q3
     \<and> trim_list l = Inr (filter (\<lambda>x. q1 - (q3 - q1) * (3 / 2) \<le> x \<and> x \<le> q3 + (q3 - q1) * (3 / 2)) (sort l))"
    by (simp add: trim_list_def Let_def)
qed

subsection \<open>float_range\<close>

lemma float_range_loop_steps:
  assumes "0 < step"
  shows "float_range_loop stop step cur l = Some (l @ map (\<lambda>k. cur + of_nat k * step) [0 ..< nat \<lceil>(stop - cur) / step\<rceil>])"
proof (induction "nat \<lceil>(stop - cur) / step\<rceil>" arbitrary: cur l)
  case 0
  then have "stop \<le> cur" using assms by (simp add: field_simps)
  then show ?case using 0 by (simp add: float_range_loop.simps)
next
  case (Suc n)
  then have "cur < stop" using assms by (intro not_le_imp_less notI) (simp add: divide_nonpos_pos)
  have "(stop - (cur + step)) / step = (stop - cur) / step - 1" using assms by (simp add: field_simps)
  then have n: "n = nat \<lceil>(stop - (cur + step)) / step\<rceil>" using Suc(2) by simp
  have "float_range_loop stop step cur l = float_range_loop stop step (cur + step) (l @ [cur])"
    using \<open>cur < stop\<close> by (simp add: float_range_loop.simps [of stop step cur l])
  also have "\<dots> = Some ((l @ [cur]) @ map (\<lambda>k. cur + step + of_nat k * step) [0 ..< n])"
    unfolding Suc(1) [OF n] n [symmetric] ..
  also have "map (\<lambda>k. cur + step + of_nat k * step) [0 ..< n] = map (\<lambda>k. cur + of_nat k * step) [Suc 0 ..< Suc n]"
    by (simp add: map_Suc_upt [symmetric] comp_def algebra_simps del: upt_Suc)
  finally show ?case unfolding Suc(2) [symmetric] by (simp add: upt_conv_Cons del: upt_Suc)
qed

text \<open>
  With a positive step \<open>float_range\<close> returns the arithmetic progression from \<open>start\<close> below \<open>stop\<close>; with another step it never
  returns when \<open>start\<close> is below \<open>stop\<close>.
\<close>

lemma float_range_progression:
  assumes "0 < step"
  shows "float_range start (Some stop) (Some step) = Some (map (\<lambda>k. start + of_nat k * step) [0 ..< nat \<lceil>(stop - start) / step\<rceil>])"
  using float_range_loop_steps [OF assms, of stop start "[]"] by (simp add: float_range_def)

lemma float_range_loop_returns:
  assumes "float_range_loop stop step cur l = Some r"
  shows "step \<le> 0 \<longrightarrow> \<not> cur < stop"
  using assms by (rule float_range_loop.raw_induct [rotated]) (fastforce split: if_splits)

lemma float_range_diverges:
  assumes "step \<le> 0" "start < stop"
  shows "float_range start (Some stop) (Some step) = None"
  using assms float_range_loop_returns [of stop step start "[]"]
  by (cases "float_range_loop stop step start []") (auto simp: float_range_def)

subsection \<open>The unit is the greatest that fits\<close>

lemma find_multiplier_finds:
  assumes "ms \<noteq> []" "hd ms \<le> value" "value < last ms"
  shows "\<exists>i. find_multiplier value k ms = Some (k + i) \<and> i + 1 < length ms \<and> ms ! i \<le> value \<and> value < ms ! (i + 1)"
  using assms
proof (induction "value" k ms rule: find_multiplier.induct)
  case (1 x i lower upper ms)
  show ?case
  proof (cases "x < upper")
    case True
    then show ?thesis using 1(3) by (intro exI [of _ 0]) simp
  next
    case False
    then obtain j where "find_multiplier x (Suc i) (upper # ms) = Some (Suc i + j)" "j + 1 < length (upper # ms)"
      "(upper # ms) ! j \<le> x" "x < (upper # ms) ! (j + 1)"
      using 1(1) 1(4) by auto
    then show ?thesis using False by (intro exI [of _ "Suc j"]) simp
  qed
qed auto

definition unit_of :: "rat \<Rightarrow> (rat, string \<times> string) dict \<Rightarrow> rat" where
  "unit_of value prefixes = (if \<exists>m \<in> set (dict_keys prefixes). m \<le> value then Max {m \<in> set (dict_keys prefixes). m \<le> value}
     else Min (set (dict_keys prefixes)))"

lemma multiplier_index:
  assumes d: "dict_keys prefixes \<noteq> []" and ms: "ms = sort (dict_keys prefixes)"
    and f: "found = (if value < hd ms then Some 0 else if value \<ge> last ms then Some (length ms - 1) else find_multiplier value 0 ms)"
  shows "\<exists>i < length ms. found = Some i \<and> ms ! i = unit_of value prefixes"
proof -
  have "length ms = length (dict_keys prefixes)" by (simp add: ms)
  then have "ms \<noteq> []" using d by auto
  then have s: "sorted ms" "set ms = set (dict_keys prefixes)" "ms \<noteq> []" by (simp_all add: ms)
  have greatest: "unit_of value prefixes = ms ! i" if "i < length ms" "ms ! i \<le> value" "i + 1 < length ms \<Longrightarrow> value < ms ! (i + 1)" for i
  proof -
    have "m \<le> ms ! i" if m: "m \<in> set ms" "m \<le> value" for m
    proof -
      obtain j where j: "j < length ms" "m = ms ! j" using m(1) by (auto simp: in_set_conv_nth)
      have "\<not> i + 1 \<le> j"
        using \<open>i + 1 < length ms \<Longrightarrow> value < ms ! (i + 1)\<close> sorted_nth_mono [OF s(1), of "i + 1" j] j m(2) by auto
      then show ?thesis using sorted_nth_mono [OF s(1), of j i] j that(1) \<open>i < length ms\<close> by simp
    qed
    then have "Max {m \<in> set ms. m \<le> value} = ms ! i" using that(1,2) by (intro Max_eqI) auto
    then show ?thesis using that(1,2) by (auto simp: unit_of_def s(2) [symmetric])
  qed
  have hd: "hd ms = ms ! 0" "last ms = ms ! (length ms - 1)" using s(3) by (simp_all add: hd_conv_nth last_conv_nth)
  consider "value < hd ms" | "last ms \<le> value" "\<not> value < hd ms" | "hd ms \<le> value" "value < last ms" by linarith
  then show ?thesis
  proof cases
    case 1
    have least: "ms ! 0 \<le> m" if m: "m \<in> set ms" for m
      using m sorted_nth_mono [OF s(1), of 0] by (auto simp: in_set_conv_nth)
    then have "\<not> (\<exists>m \<in> set ms. m \<le> value)" using 1 hd(1) by force
    moreover have "Min (set ms) = ms ! 0" using least s(3) by (intro Min_eqI) auto
    ultimately show ?thesis using 1 s by (auto simp: f unit_of_def)
  next
    case 2
    then show ?thesis using greatest [of "length ms - 1"] s(3) hd by (auto simp: f)
  next
    case 3
    then obtain i where i: "find_multiplier value 0 ms = Some i" "i + 1 < length ms" "ms ! i \<le> value" "value < ms ! (i + 1)"
      using find_multiplier_finds [OF s(3) 3, of 0] by auto
    then show ?thesis using greatest [of i] 3 by (auto simp: f)
  qed
qed

lemma unit_prefixes_ok: "dict_keys (unit_prefixes extra bin) \<noteq> []"
proof -
  have "1 \<in> set (dict_keys (unit_prefixes extra bin))" unfolding set_dict_keys by (simp add: unit_prefixes_def Let_def)
  then show ?thesis by auto
qed

text \<open>
  \<open>nice_units\<close> returns for every value. With a number of significant figures the value is divided by the greatest multiplier that is not
  greater, or by the least one, and labelled with its name.
\<close>

lemma nice_units_unit:
  assumes p: "prefixes = unit_prefixes extra bin"
  shows "\<exists>label. map_of prefixes (unit_of value prefixes) = Some label
    \<and> nice_units rnd fmt_f fmt_g value dp (Some k) suffix space extra full bin =
        Inr (fmt_g k (value / unit_of value prefixes) @ space @ (if full then snd label else fst label) @ suffix)"
proof -
  let ?ms = "sort (dict_keys prefixes)"
  obtain i where i: "i < length ?ms" "?ms ! i = unit_of value prefixes"
    "(if value < hd ?ms then Some 0 else if value \<ge> last ?ms then Some (length ?ms - 1) else find_multiplier value 0 ?ms) = Some i"
    using multiplier_index [OF _ refl refl, of prefixes "value"] unit_prefixes_ok [of extra bin] p by auto
  have "unit_of value prefixes \<in> set (dict_keys prefixes)" using i(1,2) nth_mem [of i ?ms] by simp
  then obtain label where "map_of prefixes (unit_of value prefixes) = Some label" by (auto simp: set_dict_keys)
  then show ?thesis
    unfolding nice_units_def Let_def p [symmetric] i(3) option.case i(2) by (simp add: dict_get_def)
qed

lemma giga_is_mega: "map_of (unit_prefixes False True) (2 ^ 30) = Some (''G'', ''mega'')"
  by (simp add: unit_prefixes_def bin_prefixes_def)

end
