(* ===== verification/Spec2Isabelle.thy ===== *)
theory Spec2Isabelle
  imports Test_Runner Test_Report Shellcmd Check_Style Find_Cycles Topsort Rad_Util Grid_View Wutils Cflags Viz_Thread Viz_Topology Viz_Samples
    Create_Module Flowmon Command_Task Viz_Stats Viz_Wifi Viz_Hud Viz_Packets Test_Output Viz_Handlers Rad_Stats
begin

text \<open>
  \<^bold>\<open>The program.\<close> The repository is the ns-3 network simulator with the modules of the FANcY project. Its own
  logic in Python is the tooling around the C++ simulator: the test driver \<open>src/test.py\<close>, the reader of the
  build's configuration files \<open>src/utils.py\<close>, the shell-like command runner of the build scripts
  \<open>src/waf-tools/shellcmd.py\<close>, the style checker \<open>src/utils/check-style.py\<close>, the timeline viewer
  \<open>src/utils/grid.py\<close>, the build's helpers \<open>src/wutils.py\<close> (running programs) and
  \<open>src/waf-tools/cflags.py\<close> (compiler flags), the command tasks of waf \<open>src/waf-tools/command.py\<close>, the generator of new modules
  \<open>src/src/create-module.py\<close>, the reader of flow monitor results
  \<open>src/src/flow-monitor/examples/flowmon-parse-results.py\<close>, the live visualizer
  \<open>src/src/visualizer/visualizer\<close> (\<open>core.py\<close>, \<open>base.py\<close>, \<open>svgitem.py\<close>, \<open>hud.py\<close> and plugins), and the two libraries the
  bindings scanner uses, \<open>src/bindings/python/topsort.py\<close> and \<open>src/bindings/python/rad_util.py\<close>. This development models them
  and proves what makes them correct, or states exactly where they do not do what they mean to.

  \<^bold>\<open>How the parts interact.\<close> \<open>test.py\<close> reads waf's configuration, completes the environment, collects the lists
  of example programs (with \<open>utils.get_list_from_file\<close>), asks the C++ test runner for its suites, creates one
  \<open>Job\<close> per suite and example, hands the jobs to a pool of worker threads over two queues, collects the
  results into an XML file and counters, and ends with the exit status and, optionally, the text or HTML
  report made from the XML file. \<open>topsort.py\<close> uses \<open>rad_util.is_rotated\<close> and \<open>rotate\<close> to recognise cycles found twice.
  \<open>command.py\<close> substitutes expressions in a command line that \<open>shellcmd.py\<close> has split and runs it with \<open>Pipeline.run\<close>.
  The flow monitor of the simulator (C++) writes the file that \<open>flowmon-parse-results.py\<close> reads.
  \<open>wutils.py\<close> gives waf's \<open>--run\<close> its command line and its environment. The visualizer runs
  the simulator in a second thread and the window in the main one; they share a lock, a target time, two flags
  and a list of pause messages; the plugins react to its signals (a topology was scanned, samples were taken,
  the view is updated). The other scripts are programs of their own.

  \<^bold>\<open>Conventions\<close> (theories \<open>Prelude\<close>, \<open>Py_String\<close>, \<open>Py_Path\<close>, \<open>Py_Format\<close>, \<open>Py_Number\<close>). A Python exception is \<open>Inl e\<close> of the sum type
  \<open>'a result\<close>, a normal return \<open>Inr v\<close>; loops that may raise are \<open>res_fold\<close> and \<open>res_list\<close>. Dictionaries are
  association lists in insertion order; where the language leaves the order of enumeration open (Python 2)
  it is a parameter \<open>key_order\<close> with the hypothesis that it permutes the keys. Python integers are \<open>int\<close>,
  strings and byte strings are \<open>string\<close>. \<open>Prelude\<close> also holds the locales that the components share:
  \<open>dictionary\<close> (interpreted on the association lists), \<open>invariant_system\<close> and \<open>terminating_system\<close>
  (interpreted on the worker pool of \<open>test.py\<close>, the range of the timeline viewer,
  and the threads, the scene, the view and two plugins of the visualizer). \<open>Py_Format\<close> holds case conversion, \<open>repr\<close> and the \<open>%\<close>
  operator with a dictionary, \<open>Py_Number\<close> number texts and mixed arithmetic. \<open>Py_String\<close> and \<open>Py_Path\<close> define the methods of \<open>str\<close> and of
  \<open>os.path\<close> that the scripts call, with the round trips and shape lemmas the parsers need.

  \<^bold>\<open>The theories.\<close>
  \<^item> \<open>Config_File\<close> models \<open>utils.py\<close>: \<open>get_list_from_file\<close>, \<open>get_bool_from_file\<close> and \<open>read_config_file\<close>; \<open>eval\<close> of the
    text found is a parameter. The lemmas say which text is evaluated, that \<open>read_config_file\<close> always returns
    when the file exists, and that a missing file raises in \<open>get_bool_from_file\<close> (its documentation promises
    the default).
  \<^item> \<open>Test_Config\<close> models \<open>read_waf_config\<close>, \<open>make_paths\<close>, \<open>parse_examples_to_run_file\<close> and the loops that collect
    the example lists.
  \<^item> \<open>Test_Job\<close> models the class \<open>Job\<close>, \<open>run_job_synchronously\<close> and the body of \<open>worker_thread.run\<close>; starting a
    process is the parameter \<open>popen\<close>, which gives for a command line and a directory the output, the return code and
    the time.
  \<^item> \<open>Test_Pool\<close> is the pool: the two queues, the workers, the main thread's two loops and the interrupt flag
    as an \<open>inductive\<close> step relation that interleaves them in every possible way. With the invariant and
    the measure of the locale interpretations it is shown that every run ends after at most
    \<open>5 * (jobs + processors) + 1\<close> steps, is never stuck before its end, and delivers the result of each job exactly
    once; and that a worker that dies of an exception leaves the main thread waiting for ever.
  \<^item> \<open>Test_Runner\<close> models \<open>run_tests\<close> before and after the pool: the choice of suites and examples, the
    creation of the jobs, \<open>--list\<close> and \<open>--kinds\<close>, the loop over the results with its counters and XML output, the
    summary and the exit code. \<open>Test_Report\<close> models \<open>read_test\<close>, \<open>node_to_text\<close>, \<open>translate_to_text\<close> and
    \<open>translate_to_html\<close> on the parsed XML tree. \<open>Xml_Text\<close> reads XML text into such a tree (the part of \<open>ET.parse\<close> that
    the results file needs), with the lemmas that reading a concatenation joins what its parts give. \<open>Test_Output\<close> models the
    writer of the test runner (\<open>PrintReport\<close> of \<open>src/src/core/model/test.cc\<close>) and the end of \<open>run_tests\<close> (reports, notes, temporary
    directory), and shows what the reports of a run contain.
  \<^item> \<open>Shellcmd\<close> models the tokenizer (\<open>shlex.split\<close>), \<open>Pipeline.parse\<close>, \<open>get_abbreviated_command\<close> and
    \<open>Pipeline.run\<close>; processes and files are the parameter \<open>system\<close>. The parser returns well-formed pipelines only,
    printing and parsing are inverse, and \<open>run\<close> equals a recursive reference semantics in which \<open>&&\<close> and
    \<open>||\<close> group to the right.
  \<^item> \<open>Check_Style\<close> models the classes \<open>PatchChunkLine\<close>, \<open>PatchChunk\<close> and \<open>Patch\<close>, \<open>parse_patchset\<close>,
    \<open>remove_trailing_whitespace_changes\<close>, \<open>uncrustify_config_file\<close>, \<open>indent\<close>, \<open>indent_files\<close>, the Mercurial hook and the command
    line; uncrustify, patch, difflib and the list of modified files are parameters.
  \<^item> \<open>Topsort\<close> models \<open>topsort.py\<close>: \<open>topsort\<close> returns a permutation of the nodes in which every edge goes forward, or
    raises \<open>CycleError\<close> exactly when there is a cycle; \<open>topsort_levels\<close> returns the layers by longest path.
    \<open>Find_Cycles\<close> proves that \<open>find_cycles\<close>, whose loop is a \<open>partial_function (option)\<close>, returns (no fuel is
    needed) and reports exactly the simple cycles, each once up to rotation.
  \<^item> \<open>Rad_Util\<close> models the integer, string and sequence routines of \<open>rad_util.py\<close>, \<open>Rad_Stats\<close> those on floats: quantiles are the
    linear interpolation of the sorted list and grow with their argument, \<open>float_range\<close> returns exactly for positive steps (or empty ranges), and
    \<open>nice_units\<close> picks the greatest unit that fits.
  \<^item> \<open>Grid_Timeline\<close> models the ranges and events of \<open>grid.py\<close> with their searches; the locale \<open>binary_search\<close> is
    interpreted on both loops and gives what a window of a series contains. \<open>Grid_Trace\<close> models \<open>Timeline\<close>,
    \<open>Timelines\<close>, \<open>Colors\<close>, \<open>read_data\<close> and the legend part of \<open>main\<close>; the locale \<open>registry\<close>
    (find an object by name or create it) is interpreted on the four getters and carries the refinement of the
    reader to a specification that groups the lines of the file.
    \<open>Py_Number\<close> is Python 2's arithmetic on mixed integers and floats (floats taken as exact rationals), and
    \<open>Grid_View\<close> the state of the renderers over it: the layouts, the scale's tick loop, the selection
    and visible ranges and the mouse handlers, with the invariant that dragging keeps a range inside the data.
  \<^item> \<open>Wutils\<close> models \<open>get_proc_env\<close>, \<open>get_run_program\<close>, \<open>run_argv\<close>, \<open>run_program\<close> and \<open>run_python_program\<close>;
    \<open>Cflags\<close> the classes of compiler profiles and what \<open>configure\<close> appends to the environment.
  \<^item> \<open>Command_Task\<close> models the substitution of \<open>${SRC}\<close>, \<open>${TGT}\<close> and other expressions and the run of the task; a command line whose
    dollars are doubled runs exactly the pipeline it was printed from.
  \<^item> \<open>Create_Module\<close> models \<open>create-module.py\<close> with its templates over a file system of directories and files: for a
    new valid name exactly the module's directories and files are added, any other call changes nothing.
  \<^item> \<open>Flowmon\<close> models the classes of \<open>flowmon-parse-results.py\<close> and the element tree that the serializers of the flow monitor,
    its probes and the IPv4 classifier write; reading what was written gives back every flow and every probe.
  \<^item> \<open>Viz_Thread\<close> is the pair of threads of \<open>core.py\<close>: the simulator's loop and the window's callbacks as steps
    of a relation that interleaves them. The simulated time stays near the view, each pause message is
    shown once, and leaving the window joins the simulator. \<open>Viz_Scene\<close> models nodes, channels and links with
    their positions, dragging and the selection, \<open>Viz_Topology\<close> the scan that builds the scene from the
    simulator's nodes and devices, \<open>Viz_Samples\<close> the window of transmission samples, its averages and the
    pool of arrows that shows them. \<open>Viz_Hud\<close> models the axes with their divisions and labels, \<open>Viz_Stats\<close>,
    \<open>Viz_Wifi\<close> and \<open>Viz_Packets\<close> the plugins that show the counters and rates of interfaces, the links of
    wireless stations and the last packets of a node.
  \<^item> \<open>Viz_Clip\<close> models the line clipping of \<open>src/src/visualizer/model/pyviz.cc\<close>, a switch over 49 pairs of regions; writing the points of a
    line by a parameter turns each case into comparisons of parameters, and the result is the visible part of the line. \<open>Viz_View\<close>
    models the view of \<open>core.py\<close> onto the scene: scroll bars, zoom, panning, following and centering a node, the first scaling, the
    labels of the arrows and snapshots. The locale \<open>canvas\<close> states what \<open>Gtk.Adjustment\<close> and GooCanvas promise; a view
    stays consistent under every handler (\<open>view_step\<close>), so that the labels and the first scaling are right in every reachable state.
    \<open>plain_canvas\<close> interprets the locale and evaluates in the witnesses. \<open>Viz_Handlers\<close> models the mouse handlers and the tooltips.
  \<^item> This theory holds what spans components: the exit status of a whole run of \<open>test.py\<close>, from planning over
    the pool, for every interleaving, to the result loop.

  \<^bold>\<open>Bounds and fuel.\<close> No definition uses fuel. Loops are structural recursion, \<open>function\<close> with a measure, or
  \<open>partial_function (option)\<close> (\<open>cycle_loop\<close>, \<open>binary_range_loop\<close>, \<open>axis_ticks\<close>, \<open>type_is_good\<close>, \<open>tooltip_object\<close>, \<open>float_range_loop\<close>) with a theorem
  that they return, or exactly when they do not.

  \<^bold>\<open>Parameters.\<close> \<open>popen\<close> (process execution), \<open>eval\<close> and \<open>exec\<close> of generated text, \<open>system\<close> (files and processes of
  \<open>Pipeline.run\<close>), uncrustify, patch and difflib of the style checker, \<open>key_order\<close>,
  \<open>extents\<close> (cairo's measure of a text), the environment and file tests of \<open>wutils.py\<close>, the simulator's
  clock, topology, types, names and counters as the visualizer sees them, the values of expressions in command tasks, the layout computed by Graphviz,
  the scroll bars and coordinate conversions of GTK and GooCanvas (\<open>canvas_lib\<close>), the items of the canvas, the rounding and printing of floats. A hypothesis about one of
  them is named in the theorem that uses it.

  \<^bold>\<open>Not modelled.\<close> The C++ simulator with the FANcY modules under \<open>contrib\<close>, and the generated binding
  descriptions (\<open>modulegen__gcc_*.py\<close>), which have no logic of their own; the binding scanners, which are calls
  into pybindgen and pygccxml; the drawing and the building of windows of the visualizer and the drawing of
  \<open>grid.py\<close>, which are calls into GTK and cairo; the IPython console, which \<open>core.py\<close> never loads (it imports it under a name that
  does not exist), and the plugins \<open>olsr.py\<close> and \<open>ipv4_routing_table.py\<close>, which show tables of the simulator as they are; histograms in flow monitor files;
  the other waf extensions, whose base classes are in a packed archive; the routines of \<open>rad_util.py\<close> that ask for
  the clock or for modules; the rounding of floating point numbers everywhere (floats are rationals);
  verbose messages and the option parser of \<open>test.py\<close>.
\<close>

section \<open>A run of the test driver from end to end\<close>

definition process_of :: "options \<Rightarrow> config \<Rightarrow> popen \<Rightarrow> job \<Rightarrow> proc option" where
  "process_of opts g popen j =
     (case job_command g
             (if is_example j \<or> is_pyexample j then shell_command j
              else shell_command j @ '' --xml --tempdir='' @ tempdir j @ '' --out='' @ tmp_file_name j
                @ '' '' @ (if update_data opts then ''--update-data'' else ''''))
             (valgrind_opt opts) (is_pyexample j) (if is_example j \<or> is_pyexample j then build_path j else '''') of
        Inl _ \<Rightarrow> None
      | Inr cmd \<Rightarrow> Some (popen cmd (cwd j)))"

definition succeeds :: "proc \<Rightarrow> bool" where
  "succeeds p \<longleftrightarrow> utf8_valid (proc_stdout p) \<and> utf8_valid (proc_stderr p) \<and> proc_returncode p = 0"

lemma worker_body_result:
  assumes "worker_body popen opts g False j = Inr j'" "\<not> is_break j"
  shows "\<not> is_break j' \<and> (job_status j' \<in> {PASS, SKIP} \<longleftrightarrow> is_skip j \<or> (\<exists>p. process_of opts g popen j = Some p \<and> succeeds p))"
proof (cases "is_skip j")
  case True
  then show ?thesis using assms by (auto simp: worker_body_def job_status_def)
next
  case False
  define cmd where "cmd = (if is_example j \<or> is_pyexample j then shell_command j
              else shell_command j @ '' --xml --tempdir='' @ tempdir j @ '' --out='' @ tmp_file_name j
                @ '' '' @ (if update_data opts then ''--update-data'' else ''''))"
  define bp where "bp = (if is_example j \<or> is_pyexample j then build_path j else '''')"
  have run: "worker_body popen opts g False j = res_bind
      (run_job_synchronously popen g cmd (cwd j) (valgrind_opt opts) (is_pyexample j) bp)
      (\<lambda>(rc, out, err, et). Inr (set_elapsed_time et (j\<lparr>returncode := rc\<rparr>)))"
    using False unfolding worker_body_def cmd_def bp_def by (cases "is_example j \<or> is_pyexample j") auto
  obtain c where c: "job_command g cmd (valgrind_opt opts) (is_pyexample j) bp = Inr c"
    using assms(1) unfolding run by (auto simp: run_job_synchronously_def res_bind_Inr_iff)
  obtain et where "j' = set_elapsed_time et (j\<lparr>returncode :=
      if utf8_valid (proc_stdout (popen c (cwd j))) \<and> utf8_valid (proc_stderr (popen c (cwd j)))
      then proc_returncode (popen c (cwd j)) else 1\<rparr>)"
    using run_job_returncode [OF c, of popen "cwd j"] assms(1) unfolding run by auto
  moreover have "process_of opts g popen j = Some (popen c (cwd j))"
    using c unfolding process_of_def cmd_def bp_def by simp
  ultimately show ?thesis using False assms(2) by (auto simp: job_setters job_status_def succeeds_def)
qed

text \<open>
  C1. The exit code of a run that is not interrupted: when the jobs planned by \<open>run_tests\<close> have gone
  through the worker pool under any scheduling and the results were collected without an error, the code is 0 exactly if
  every job was either skipped or started a process that returned 0 and whose output could be
  decoded; all of the jobs are accounted for.
\<close>
theorem exit_code_zero_iff_all_passed:
  assumes "plan_tests popen w cond g opts wd outdir = Inr (Queue jobs)" "PYTHON g \<noteq> []" "0 < processors"
    and "(pool_step popen opts g)\<^sup>*\<^sup>* (pool_init jobs processors) s" "pool_final s" "\<not> thread_exit s"
    and "finish_tests opts tmp_files (length jobs) (got s) = Inr (t, lines, code)"
  shows "length (got s) = length jobs \<and>
    (code = 0 \<longleftrightarrow> (\<forall>j \<in> set jobs. is_skip j \<or> (\<exists>p. process_of opts g popen j = Some p \<and> succeeds p)))"
proof -
  have run: "\<forall>j \<in> set jobs. runnable g j" using plan_jobs_runnable [OF assms(1,2)] .
  have inv: "pool_inv popen opts g jobs processors s"
    using pool_sys.inv_reachable [OF assms(4), of jobs processors] pool_inv_init [OF run] assms(3) by blast
  have rel: "rel_mset (handled popen opts g False) (mset jobs) (mset (got s))"
    using all_exited [OF inv pool_final_exited [OF inv assms(5)]] assms(3,5,6) by (simp add: pool_final_def)
  have len: "length (got s) = length jobs" using rel_mset_size [OF rel] by simp
  let ?ok = "\<lambda>j. is_skip j \<or> (\<exists>p. process_of opts g popen j = Some p \<and> succeeds p)"
  let ?good = "\<lambda>j'. \<not> is_break j' \<and> job_status j' \<in> {PASS, SKIP}"
  have each: "?good j' \<longleftrightarrow> ?ok j" if "handled popen opts g False j j'" "j \<in> set jobs" for j j'
    using that worker_body_result [of popen opts g j j'] run by (auto simp: handled_def runnable_def)
  obtain xs ys where xy: "mset xs = mset jobs" "mset ys = mset (got s)" "list_all2 (handled popen opts g False) xs ys"
    using rel by (auto simp: rel_mset_def)
  have sets: "set xs = set jobs" "set ys = set (got s)" using xy(1,2) by (metis set_mset_mset)+
  have "(\<forall>j' \<in> set ys. ?good j') \<longleftrightarrow> (\<forall>j \<in> set xs. ?ok j)"
    by (rule list_all2_ball [OF xy(3)]) (rule each, simp_all add: sets(1))
  then show ?thesis using finish_tests_exit [OF assms(7) len] len sets by simp
qed

lemma work_steps_thread_exit: "(work_step popen opts g)\<^sup>*\<^sup>* s t \<Longrightarrow> thread_exit t = thread_exit s"
  by (induction rule: rtranclp_induct) (auto elim!: work_stepE)

theorem exit_code_zero_iff_all_passed_witness:
  "\<exists>jobs s t lines code.
     plan_tests runner_popen built_world (\<lambda>_. Inr True) sample_config (default_options\<lparr>nowaf := True\<rparr>) ''/ns3'' ''out''
       = Inr (Queue jobs) \<and> length jobs = 2
   \<and> (pool_step runner_popen (default_options\<lparr>nowaf := True\<rparr>) sample_config)\<^sup>*\<^sup>* (pool_init jobs 4) s \<and> pool_final s
   \<and> finish_tests (default_options\<lparr>nowaf := True\<rparr>) (\<lambda>_. Some '''') (length jobs) (got s) = Inr (t, lines, code) \<and> code = 0"
proof -
  let ?opts = "default_options\<lparr>nowaf := True\<rparr>"
  define jobs where "jobs = suite_jobs sample_config ?opts ''/ns3'' ''out'' [''core'', ''tcp'']"
  have plan: "plan_tests runner_popen built_world (\<lambda>_. Inr True) sample_config ?opts ''/ns3'' ''out'' = Inr (Queue jobs)"
    unfolding jobs_def by code_simp
  have ok: "\<forall>j \<in> set jobs. process_of ?opts sample_config runner_popen j \<noteq> None \<and>
      succeeds (the (process_of ?opts sample_config runner_popen j))"
    unfolding jobs_def by code_simp
  have py: "PYTHON sample_config \<noteq> []" by (simp add: sample_config_def)
  have "pool_inv runner_popen ?opts sample_config jobs 4 (pool_init jobs 4)"
    by (rule pool_inv_init [OF plan_jobs_runnable [OF plan py]])
  then obtain s where s: "(work_step runner_popen ?opts sample_config)\<^sup>*\<^sup>* (pool_init jobs 4) s" "pool_final s"
    using pool_sys.reaches_final [of runner_popen ?opts sample_config jobs 4 "pool_init jobs 4"] by auto
  have te: "\<not> thread_exit s" using work_steps_thread_exit [OF s(1)] by (simp add: pool_init_def)
  have "\<forall>j \<in> set (got s). has_results (\<lambda>_. Some '''') j" by (simp add: has_results_def)
  then obtain t lines code where f: "finish_tests ?opts (\<lambda>_. Some '''') (length jobs) (got s) = Inr (t, lines, code)"
    by (simp add: finish_tests_def collect_jobs_def collect_jobs_fold)
  have "length jobs = 2" unfolding jobs_def by code_simp
  moreover have "code = 0"
    using exit_code_zero_iff_all_passed [OF plan py zero_less_numeral work_steps_pool [OF s(1)] s(2) te f] ok by auto
  ultimately show ?thesis using plan work_steps_pool [OF s(1)] s(2) f by blast
qed

end
